(* ===== verification/Chord_Prelude.thy ===== *)
theory Chord_Prelude
  imports Main "HOL-Library.Word" "HOL-Library.Char_ord" "HOL-Library.List_Lexorder"
begin

text \<open>
  Generic material shared by every component: the ways a C++ call can end, loops over a
  container whose body can fail, the pieces of the C and C++ standard library the sources
  call (\<open>isalpha\<close>, \<open>tolower\<close>, \<open>substr\<close>, \<open>find_first_not_of\<close>, decimal output, \<open>std::map\<close>
  and \<open>std::set\<close> as sorted sequences), and the lemma collections the proofs draw on.
\<close>

named_theorems outcome_simps "equations of the failing-call combinators"
named_theorems inv_intros "introduction rules for the component invariants"

section \<open>How a call can end\<close>

text \<open>
  An exception either derives from \<open>std::exception\<close> (the handlers of the sources catch it) or
  does not. A crash ends the process: a null smart pointer is dereferenced, a destroyed object is
  used, a lock is waited for for ever, an assertion of
  \<open>marco.h\<close> fails, or no handler catches an exception.
\<close>

datatype exn = Std_exception string | Other_exception

datatype crash = Null_deref | Assert_failed | Deadlock | Dangling | Uncaught

type_synonym 'a may_crash = "crash + 'a"

text \<open>A call that threads a state and may throw (the state reached so far is kept) or crash.\<close>

datatype 's outcome = Returns 's | Throws exn 's | Crashes crash

definition sum_bind :: "'e + 'a \<Rightarrow> ('a \<Rightarrow> 'e + 'b) \<Rightarrow> 'e + 'b" where
  "sum_bind r f = (case r of Inl e \<Rightarrow> Inl e | Inr a \<Rightarrow> f a)"

lemma sum_bind_simps [simp, outcome_simps]:
  "sum_bind (Inl e) f = Inl e"
  "sum_bind (Inr a) f = f a"
  by (simp_all add: sum_bind_def)

lemma sum_bind_Inr_iff [outcome_simps]:
  "sum_bind r f = Inr b \<longleftrightarrow> (\<exists>a. r = Inr a \<and> f a = Inr b)"
  by (cases r) auto

text \<open>A range-based \<open>for\<close> loop whose body may fail.\<close>

fun for_each :: "('a \<Rightarrow> 's \<Rightarrow> 'e + 's) \<Rightarrow> 'a list \<Rightarrow> 's \<Rightarrow> 'e + 's" where
  "for_each f [] s = Inr s"
| "for_each f (x # xs) s = sum_bind (f x s) (for_each f xs)"

lemma for_each_append:
  "for_each f (xs @ ys) s = sum_bind (for_each f xs s) (for_each f ys)"
  by (induction xs arbitrary: s) (auto simp: sum_bind_def split: sum.splits)

lemma for_each_invariant:
  assumes "for_each f xs s = Inr s'"
    and "I s"
    and "\<And>x s s'. x \<in> set xs \<Longrightarrow> I s \<Longrightarrow> f x s = Inr s' \<Longrightarrow> I s'"
  shows "I s'"
  using assms by (induction xs arbitrary: s) (auto simp: sum_bind_Inr_iff)

lemma for_each_total:
  assumes "I s"
    and "\<And>x s. x \<in> set xs \<Longrightarrow> I s \<Longrightarrow> \<exists>s'. f x s = Inr s' \<and> I s'"
  shows "\<exists>s'. for_each f xs s = Inr s' \<and> I s'"
  using assms
proof (induction xs arbitrary: s)
  case Nil
  then show ?case by simp
next
  case (Cons x xs)
  then obtain t where "f x s = Inr t" "I t" by fastforce
  with Cons show ?case by fastforce
qed

lemma for_each_error: "for_each f xs s = Inl e \<Longrightarrow> \<exists>x \<in> set xs. \<exists>s. f x s = Inl e"
  by (induction xs arbitrary: s) (force simp: sum_bind_def split: sum.splits)+

lemma for_each_cong [fundef_cong]:
  assumes "xs = ys" "s = t" "\<And>x s. x \<in> set ys \<Longrightarrow> f x s = g x s"
  shows "for_each f xs s = for_each g ys t"
proof -
  have "for_each f ys t = for_each g ys t"
    using assms(3) by (induction ys arbitrary: t) (auto simp: sum_bind_def split: sum.splits)
  with assms(1,2) show ?thesis by simp
qed

lemma for_each_map: "for_each f (map p xs) s = for_each (\<lambda>x. f (p x)) xs s"
  by (induction xs arbitrary: s) (auto simp: sum_bind_def split: sum.split)

text \<open>A loop over the indices of a sequence is the loop over its elements.\<close>

lemma for_each_nth:
  assumes "\<And>i s. i < length xs \<Longrightarrow> f i s = g (xs ! i) s"
  shows "for_each f [0..<length xs] s = for_each g xs s"
proof -
  have "for_each f [0..<length xs] s = for_each (\<lambda>i. g (xs ! i)) [0..<length xs] s"
    by (rule for_each_cong) (simp_all add: assms)
  also have "\<dots> = for_each g (map ((!) xs) [0..<length xs]) s" by (simp add: for_each_map)
  finally show ?thesis by (simp add: map_nth)
qed

section \<open>Characters and strings\<close>

text \<open>\<open>isalpha\<close> and \<open>tolower\<close> of \<open>ctype.h\<close> in the C locale.\<close>

definition isalpha :: "char \<Rightarrow> bool" where
  "isalpha c \<longleftrightarrow>
     (CHR ''A'' \<le> c \<and> c \<le> CHR ''Z'') \<or> (CHR ''a'' \<le> c \<and> c \<le> CHR ''z'')"

definition tolower :: "char \<Rightarrow> char" where
  "tolower c =
     (if CHR ''A'' \<le> c \<and> c \<le> CHR ''Z'' then char_of ((of_char c :: nat) + 32) else c)"

text \<open>\<open>s.substr(pos, len)\<close> and \<open>s.substr(pos)\<close> for \<open>pos \<le> s.size()\<close>.\<close>

definition substr :: "string \<Rightarrow> nat \<Rightarrow> nat \<Rightarrow> string" where
  "substr s pos len = take len (drop pos s)"

definition substr_from :: "string \<Rightarrow> nat \<Rightarrow> string" where
  "substr_from s pos = drop pos s"

text \<open>\<open>s.find_first_not_of(chars)\<close>; \<open>None\<close> is \<open>std::string::npos\<close>.\<close>

fun find_first_not_of :: "string \<Rightarrow> string \<Rightarrow> nat option" where
  "find_first_not_of [] chars = None"
| "find_first_not_of (c # s) chars =
     (if c \<in> set chars then map_option Suc (find_first_not_of s chars) else Some 0)"

lemma find_first_not_of_None:
  "find_first_not_of s chars = None \<longleftrightarrow> set s \<subseteq> set chars"
  by (induction s) auto

text \<open>Decimal output of an unsigned number, and of a signed one.\<close>

definition digit_char :: "nat \<Rightarrow> char" where
  "digit_char d = char_of (48 + d)"

fun dec_nat :: "nat \<Rightarrow> string" where
  "dec_nat n = (if n < 10 then [digit_char n] else dec_nat (n div 10) @ [digit_char (n mod 10)])"

declare dec_nat.simps [simp del]

definition dec_int :: "int \<Rightarrow> string" where
  "dec_int i = (if i < 0 then CHR ''-'' # dec_nat (nat (- i)) else dec_nat (nat i))"

section \<open>Ordered containers\<close>

text \<open>
  A \<open>std::map\<close> is the list of its entries in key order. \<open>smap_put\<close> is \<open>m[k] = v\<close>,
  \<open>smap_erase\<close> is \<open>m.erase(k)\<close> and \<open>map_of\<close> is \<open>m.find(k)\<close>.
\<close>

fun smap_put :: "'k::linorder \<Rightarrow> 'v \<Rightarrow> ('k \<times> 'v) list \<Rightarrow> ('k \<times> 'v) list" where
  "smap_put k v [] = [(k, v)]"
| "smap_put k v ((k', v') # m) =
     (if k < k' then (k, v) # (k', v') # m
      else if k = k' then (k, v) # m
      else (k', v') # smap_put k v m)"

definition smap_erase :: "'k \<Rightarrow> ('k \<times> 'v) list \<Rightarrow> ('k \<times> 'v) list" where
  "smap_erase k m = filter (\<lambda>e. fst e \<noteq> k) m"

definition smap_ok :: "('k::linorder \<times> 'v) list \<Rightarrow> bool" where
  "smap_ok m \<longleftrightarrow> sorted_wrt (<) (map fst m)"

lemma set_keys_smap_put: "fst ` set (smap_put k v m) = insert k (fst ` set m)"
  by (induction k v m rule: smap_put.induct) auto

lemma smap_ok_put [inv_intros]: "smap_ok m \<Longrightarrow> smap_ok (smap_put k v m)"
proof (induction k v m rule: smap_put.induct)
  case (2 k v k' v' m)
  then show ?case
    using set_keys_smap_put [of k v m] by (fastforce simp: smap_ok_def image_iff)
qed (simp add: smap_ok_def)

lemma map_of_smap_put [simp]:
  "smap_ok m \<Longrightarrow> map_of (smap_put k v m) = (map_of m)(k \<mapsto> v)"
  by (induction k v m rule: smap_put.induct) (auto simp: smap_ok_def fun_eq_iff)

lemma smap_put_greatest:
  "\<forall>k' \<in> fst ` set m. k' < k \<Longrightarrow> smap_put k v m = m @ [(k, v)]"
  by (induction m) auto

lemma smap_ok_erase [inv_intros]: "smap_ok m \<Longrightarrow> smap_ok (smap_erase k m)"
  by (induction m) (auto simp: smap_ok_def smap_erase_def)

lemma map_of_smap_erase [simp]: "map_of (smap_erase k m) = (map_of m)(k := None)"
  by (induction m) (auto simp: smap_erase_def fun_eq_iff)

lemma smap_ok_Nil [simp, inv_intros]: "smap_ok []"
  by (simp add: smap_ok_def)

lemma map_of_smap_iff:
  "smap_ok m \<Longrightarrow> map_of m k = Some v \<longleftrightarrow> (k, v) \<in> set m"
  by (simp add: smap_ok_def strict_sorted_iff)

text \<open>
  A \<open>std::set\<close> whose order is \<open>key x < key y\<close> is the list of its elements in that order;
  \<open>insert\<close> keeps an element that is already there and drops the new one.
\<close>

fun oset_insert :: "('a \<Rightarrow> 'k::linorder) \<Rightarrow> 'a \<Rightarrow> 'a list \<Rightarrow> 'a list" where
  "oset_insert key x [] = [x]"
| "oset_insert key x (y # ys) =
     (if key x < key y then x # y # ys
      else if key y < key x then y # oset_insert key x ys
      else y # ys)"

definition oset_find :: "('a \<Rightarrow> 'k::linorder) \<Rightarrow> 'a \<Rightarrow> 'a list \<Rightarrow> 'a option" where
  "oset_find key x ys = List.find (\<lambda>y. key y = key x) ys"

definition oset_ok :: "('a \<Rightarrow> 'k::linorder) \<Rightarrow> 'a list \<Rightarrow> bool" where
  "oset_ok key xs \<longleftrightarrow> sorted_wrt (<) (map key xs)"

lemma set_keys_oset_insert: "key ` set (oset_insert key x ys) = insert (key x) (key ` set ys)"
  by (induction key x ys rule: oset_insert.induct) auto

lemma oset_ok_insert [inv_intros]: "oset_ok key ys \<Longrightarrow> oset_ok key (oset_insert key x ys)"
proof (induction key x ys rule: oset_insert.induct)
  case (2 key x y ys)
  then show ?case
    using set_keys_oset_insert [of key x ys] by (fastforce simp: oset_ok_def image_iff)
qed (simp add: oset_ok_def)

lemma find_SomeD: "List.find P xs = Some x \<Longrightarrow> x \<in> set xs \<and> P x"
  by (induction xs) (auto split: if_splits)

lemma oset_find_insert:
  "oset_ok key ys \<Longrightarrow>
   oset_find key z (oset_insert key x ys) =
     (if key z = key x \<and> oset_find key z ys = None then Some x else oset_find key z ys)"
  by (induction key x ys rule: oset_insert.induct)
    (auto simp: oset_ok_def oset_find_def find_None_iff dest: find_SomeD)

lemma oset_find_None_iff:
  "oset_find key x ys = None \<longleftrightarrow> key x \<notin> key ` set ys"
  unfolding oset_find_def by (induction ys) auto

lemma oset_find_SomeD:
  "oset_find key x ys = Some y \<Longrightarrow> y \<in> set ys \<and> key y = key x"
  by (auto simp: oset_find_def dest: find_SomeD)

lemma oset_insert_greatest:
  "\<forall>y \<in> set ys. key y < key x \<Longrightarrow> oset_insert key x ys = ys @ [x]"
  by (induction ys) auto

lemma fold_oset_insert:
  "oset_ok key (ys @ xs) \<Longrightarrow> fold (oset_insert key) xs ys = ys @ xs"
proof (induction xs arbitrary: ys)
  case (Cons x xs)
  then have "oset_insert key x ys = ys @ [x]"
    by (intro oset_insert_greatest) (auto simp: oset_ok_def sorted_wrt_append)
  with Cons.IH [of "ys @ [x]"] Cons.prems show ?case by simp
qed simp

end
