(* ===== verification/Log_Level.thy ===== *)
theory Log_Level
  imports Chord_Prelude
begin

text \<open>
  The log levels of \<open>chord/log.h\<close> and their conversions (\<open>chord/logger.cpp\<close>, lines 14-53).
  The enumeration is its integer value: the configuration listener stores the value 100, which
  is not an enumerator, in a logger's level, and levels are compared as integers.
\<close>

datatype Level = Level (level_val: "32 word")

abbreviation UNKNOWN :: Level where "UNKNOWN \<equiv> Level 0"
abbreviation DEBUG :: Level where "DEBUG \<equiv> Level 1"
abbreviation INFO :: Level where "INFO \<equiv> Level 2"
abbreviation WARN :: Level where "WARN \<equiv> Level 3"
abbreviation ERROR :: Level where "ERROR \<equiv> Level 4"
abbreviation FATAL :: Level where "FATAL \<equiv> Level 5"

text \<open>The order of the integer values, as the library's type class of linear orders.\<close>

instantiation Level :: linorder
begin

definition less_eq_Level :: "Level \<Rightarrow> Level \<Rightarrow> bool" where
  "less_eq_Level a b \<longleftrightarrow> level_val a \<le> level_val b"

definition less_Level :: "Level \<Rightarrow> Level \<Rightarrow> bool" where
  "less_Level a b \<longleftrightarrow> level_val a < level_val b"

instance
  by standard (auto simp: less_eq_Level_def less_Level_def Level.expand)

end

lemma Level_order_simps [simp]:
  "Level a \<le> Level b \<longleftrightarrow> a \<le> b"
  "Level a < Level b \<longleftrightarrow> a < b"
  by (simp_all add: less_eq_Level_def less_Level_def)

lemma UNKNOWN_least [simp]: "UNKNOWN \<le> l"
  by (cases l) simp

text \<open>\<open>LogLevel::FromString\<close>: the lower-case names first, then the upper-case ones.\<close>

definition FromString :: "string \<Rightarrow> Level" where
  "FromString str =
     (if str = ''debug'' then DEBUG
      else if str = ''info'' then INFO
      else if str = ''warn'' then WARN
      else if str = ''error'' then ERROR
      else if str = ''fatal'' then FATAL
      else if str = ''DEBUG'' then DEBUG
      else if str = ''INFO'' then INFO
      else if str = ''WARN'' then WARN
      else if str = ''ERROR'' then ERROR
      else if str = ''FATAL'' then FATAL
      else UNKNOWN)"

text \<open>\<open>LogLevel::ToString\<close>.\<close>

definition ToString :: "Level \<Rightarrow> string" where
  "ToString level =
     (if level = DEBUG then ''DEBUG''
      else if level = INFO then ''INFO''
      else if level = WARN then ''WARN''
      else if level = ERROR then ''ERROR''
      else if level = FATAL then ''FATAL''
      else ''unknown'')"

lemma FromString_le_FATAL [simp]: "FromString s \<le> FATAL"
  unfolding FromString_def by (simp split: if_split)

lemma named_levels: "UNKNOWN < l \<Longrightarrow> l \<le> FATAL \<Longrightarrow> l \<in> {DEBUG, INFO, WARN, ERROR, FATAL}"
proof (cases l)
  case (Level w)
  assume "UNKNOWN < l" "l \<le> FATAL"
  with Level have "unat w > 0" "unat w \<le> 5"
    by (auto simp: word_less_nat_alt word_le_nat_alt)
  then have "unat w \<in> {1, 2, 3, 4, 5}" by auto
  then have "w \<in> {1, 2, 3, 4, 5}"
    by (simp add: word_unat_eq_iff)
  with Level show ?thesis by auto
qed

lemma FromString_ToString_named: "l \<in> {DEBUG, INFO, WARN, ERROR, FATAL} \<Longrightarrow> FromString (ToString l) = l"
  by (auto simp: FromString_def ToString_def)

lemma ToString_other: "l \<notin> {DEBUG, INFO, WARN, ERROR, FATAL} \<Longrightarrow> ToString l = ''unknown''"
  by (simp add: ToString_def)

lemma FromString_unknown [simp]: "FromString ''unknown'' = UNKNOWN"
  unfolding FromString_def by (simp split: if_split)

text \<open>
  Printing a level and reading it back gives the same level for every enumerator
  (\<open>UNKNOWN\<close> included); a value outside the enumeration is printed as "unknown" and comes
  back as \<open>UNKNOWN\<close>, the level that lets every event pass.
\<close>

lemma level_roundtrip:
  "FromString (ToString l) = (if l \<le> FATAL then l else UNKNOWN)"
proof (cases "l \<in> {DEBUG, INFO, WARN, ERROR, FATAL}")
  case True
  then have "l \<le> FATAL" by auto
  with True show ?thesis using FromString_ToString_named by simp
next
  case False
  then have "l \<le> FATAL \<Longrightarrow> l = UNKNOWN"
    using named_levels [of l] by (metis UNKNOWN_least order_le_imp_less_or_eq)
  with False show ?thesis by (auto simp: ToString_other)
qed

end
