(* ===== verification/Log_Formatter.thy ===== *)
theory Log_Formatter
  imports Log_Level
begin

text \<open>
  Log events, the formatter and its pattern scanner (\<open>LogEvent\<close>, \<open>FormatItem\<close> and
  \<open>LogFormatter\<close> of \<open>chord/log.h\<close>; \<open>chord/logger.cpp\<close>, lines 74-214, 230-247 and
  471-629). The scanner is kept as the code has it, a loop over an index into the pattern with
  an inner loop that reads one directive.
\<close>

section \<open>Events\<close>

text \<open>
  \<open>ev_logger\<close> is the shared pointer to the logger the event was made for (its address in the
  store of theory \<open>Logger_Store\<close>, \<open>None\<close> for a null pointer); \<open>ev_ss\<close> is the text
  collected in \<open>m_ss\<close>.
\<close>

record LogEvent =
  ev_file :: string
  ev_line :: "32 word"
  ev_elapsed :: "32 word"
  ev_threadId :: "32 word"
  ev_fiberId :: "32 word"
  ev_time :: "64 word"
  ev_ss :: string
  ev_logger :: "nat option"
  ev_level :: Level

definition new_LogEvent ::
  "nat option \<Rightarrow> Level \<Rightarrow> string \<Rightarrow> 32 word \<Rightarrow> 32 word \<Rightarrow> 32 word \<Rightarrow> 32 word \<Rightarrow> 64 word \<Rightarrow> LogEvent"
where
  "new_LogEvent logger level file line elapse thread_id fiber_id time =
     \<lparr>ev_file = file, ev_line = line, ev_elapsed = elapse, ev_threadId = thread_id,
      ev_fiberId = fiber_id, ev_time = time, ev_ss = [], ev_logger = logger, ev_level = level\<rparr>"

text \<open>
  \<open>LogEvent::format\<close>. The argument is what \<open>vasprintf\<close> produced, \<open>None\<close> for its error
  result -1.
\<close>

definition LogEvent_format :: "string option \<Rightarrow> LogEvent \<Rightarrow> LogEvent" where
  "LogEvent_format printed ev =
     (case printed of None \<Rightarrow> ev | Some buf \<Rightarrow> ev\<lparr>ev_ss := ev_ss ev @ buf\<rparr>)"

section \<open>Format items\<close>

datatype FormatItem =
    MessageFormatItem
  | LevelFormatItem
  | ElapseFormatItem
  | NameFormatItem
  | ThreadIdFormatItem
  | FiberIdFormatItem
  | DateTimeFormatItem string
  | FilenameFormatItem
  | LineFormatItem
  | NewLineFormatItem
  | StringFormatItem string
  | TabFormatItem

text \<open>
  What formatting reads from outside the event: the text \<open>localtime_r\<close> and \<open>strftime\<close>
  leave in the 64-byte buffer for a format and a time (it depends on the time zone), and the
  name of the logger at an address.
\<close>

record fmt_env =
  env_strftime :: "string \<Rightarrow> 64 word \<Rightarrow> string"
  env_logger_name :: "nat \<Rightarrow> string"

text \<open>The constructor of \<open>DateTimeFormatItem\<close> replaces an empty format by the default.\<close>

definition default_time_format :: string where
  "default_time_format = ''%Y-%m-%d %H:%M:%S''"

definition new_DateTimeFormatItem :: "string \<Rightarrow> FormatItem" where
  "new_DateTimeFormatItem fmt = DateTimeFormatItem (if fmt = [] then default_time_format else fmt)"

definition newline :: string where "newline = [char_of (10 :: nat)]"
definition tabulator :: string where "tabulator = [char_of (9 :: nat)]"

text \<open>The virtual \<open>format\<close> of each item: the text it writes.\<close>

fun format_item :: "fmt_env \<Rightarrow> Level \<Rightarrow> LogEvent \<Rightarrow> FormatItem \<Rightarrow> string may_crash" where
  "format_item env level ev MessageFormatItem = Inr (ev_ss ev)"
| "format_item env level ev LevelFormatItem = Inr (ToString level)"
| "format_item env level ev ElapseFormatItem = Inr (dec_nat (unat (ev_elapsed ev)))"
| "format_item env level ev NameFormatItem =
     (case ev_logger ev of None \<Rightarrow> Inl Null_deref | Some l \<Rightarrow> Inr (env_logger_name env l))"
| "format_item env level ev ThreadIdFormatItem = Inr (dec_nat (unat (ev_threadId ev)))"
| "format_item env level ev FiberIdFormatItem = Inr (dec_nat (unat (ev_fiberId ev)))"
| "format_item env level ev (DateTimeFormatItem fmt) = Inr (env_strftime env fmt (ev_time ev))"
| "format_item env level ev FilenameFormatItem = Inr (ev_file ev)"
| "format_item env level ev LineFormatItem = Inr (dec_int (sint (ev_line ev)))"
| "format_item env level ev NewLineFormatItem = Inr newline"
| "format_item env level ev (StringFormatItem str) = Inr str"
| "format_item env level ev TabFormatItem = Inr tabulator"

text \<open>The table \<open>s_format_items\<close>: directive name to constructor, applied to the argument.\<close>

definition s_format_items :: "string \<Rightarrow> (string \<Rightarrow> FormatItem) option" where
  "s_format_items = map_of
     [(''m'', \<lambda>_. MessageFormatItem),
      (''p'', \<lambda>_. LevelFormatItem),
      (''r'', \<lambda>_. ElapseFormatItem),
      (''c'', \<lambda>_. NameFormatItem),
      (''t'', \<lambda>_. ThreadIdFormatItem),
      (''n'', \<lambda>_. NewLineFormatItem),
      (''d'', new_DateTimeFormatItem),
      (''f'', \<lambda>_. FilenameFormatItem),
      (''l'', \<lambda>_. LineFormatItem),
      (''F'', \<lambda>_. FiberIdFormatItem),
      (''T'', \<lambda>_. TabFormatItem)]"

section \<open>The pattern scanner\<close>

text \<open>
  The inner loop of \<open>LogFormatter::init\<close>, reading the directive whose \<open>%\<close> is at \<open>i\<close>. Its
  variables are \<open>n\<close>, \<open>fmt_status\<close>, \<open>fmt_begin\<close>, \<open>str\<close> and \<open>fmt\<close>; the result holds the
  values of \<open>n\<close>, \<open>fmt_status\<close>, \<open>str\<close> and \<open>fmt\<close> when the loop ends.
\<close>

function scan_directive ::
  "string \<Rightarrow> nat \<Rightarrow> nat \<Rightarrow> nat \<Rightarrow> nat \<Rightarrow> string \<Rightarrow> string \<Rightarrow> nat \<times> nat \<times> string \<times> string"
where
  "scan_directive p i n fmt_status fmt_begin str fmt =
     (if n < length p then
        if fmt_status = 0 \<and> \<not> isalpha (p ! n) \<and> p ! n \<noteq> CHR ''{'' \<and> p ! n \<noteq> CHR ''}'' then
          (n, fmt_status, substr p (i + 1) (n - i - 1), fmt)
        else if fmt_status = 0 \<and> p ! n = CHR ''{'' then
          scan_directive p i (n + 1) 1 n (substr p (i + 1) (n - i - 1)) fmt
        else if fmt_status = 1 \<and> p ! n = CHR ''}'' then
          (n + 1, 0, str, substr p (fmt_begin + 1) (n - fmt_begin - 1))
        else
          scan_directive p i (n + 1) fmt_status fmt_begin
            (if n + 1 = length p \<and> str = [] then substr_from p (i + 1) else str) fmt
      else (n, fmt_status, str, fmt))"
  by pat_completeness auto
termination
  by (relation "measure (\<lambda>(p, i, n, st, b, str, fmt). length p - n)") auto

declare scan_directive.simps [simp del]

text \<open>
  The variables of the outer loop: the pending text \<open>nstr\<close>, the triples \<open>vec\<close>,
  \<open>m_error\<close>, and what was written to \<open>std::cout\<close>.
\<close>

record init_state =
  nstr :: string
  vec :: "(string \<times> string \<times> nat) list"
  init_error :: bool
  init_out :: string

definition init_start :: init_state where
  "init_start = \<lparr>nstr = [], vec = [], init_error = False, init_out = []\<rparr>"

text \<open>\<open>if(!nstr.empty()) vec.push_back(make_tuple(nstr, "", 0))\<close>, with \<open>nstr.clear()\<close>.\<close>

definition flush_nstr :: "init_state \<Rightarrow> init_state" where
  "flush_nstr s =
     (if nstr s \<noteq> [] then s\<lparr>vec := vec s @ [(nstr s, [], 0)], nstr := []\<rparr> else s)"

text \<open>One equation for each way through the body of the inner loop.\<close>

lemma scan_end: "\<not> n < length p \<Longrightarrow> scan_directive p i n st b str fmt = (n, st, str, fmt)"
  by (simp add: scan_directive.simps)

lemma scan_stop:
  "n < length p \<Longrightarrow> \<not> isalpha (p ! n) \<Longrightarrow> p ! n \<noteq> CHR ''{'' \<Longrightarrow> p ! n \<noteq> CHR ''}'' \<Longrightarrow>
   scan_directive p i n 0 b str fmt = (n, 0, substr p (i + 1) (n - i - 1), fmt)"
  by (simp add: scan_directive.simps)

lemma scan_open:
  "n < length p \<Longrightarrow> p ! n = CHR ''{'' \<Longrightarrow>
   scan_directive p i n 0 b str fmt =
     scan_directive p i (n + 1) (Suc 0) n (substr p (i + 1) (n - i - 1)) fmt"
  by (simp add: scan_directive.simps [of p i n])

lemma scan_close:
  "n < length p \<Longrightarrow> p ! n = CHR ''}'' \<Longrightarrow>
   scan_directive p i n (Suc 0) b str fmt = (n + 1, 0, str, substr p (b + 1) (n - b - 1))"
  by (simp add: scan_directive.simps)

lemma scan_next:
  assumes "n < length p"
    and "\<not> (st = 0 \<and> \<not> isalpha (p ! n) \<and> p ! n \<noteq> CHR ''{'' \<and> p ! n \<noteq> CHR ''}'')"
    and "\<not> (st = 0 \<and> p ! n = CHR ''{'')" and "\<not> (st = 1 \<and> p ! n = CHR ''}'')"
  shows "scan_directive p i n st b str fmt =
    scan_directive p i (n + 1) st b
      (if n + 1 = length p \<and> str = [] then substr_from p (i + 1) else str) fmt"
  by (subst scan_directive.simps) (simp only: assms if_True if_False)

lemmas scan_steps = scan_end scan_stop scan_open scan_close scan_next

text \<open>The cases of one pass through the body, as a rule.\<close>

lemma scan_cases:
  fixes p :: string and n st :: nat
  obtains (finish) "\<not> n < length p"
  | (stop) "n < length p" "st = 0" "\<not> isalpha (p ! n)" "p ! n \<noteq> CHR ''{''" "p ! n \<noteq> CHR ''}''"
  | (open_brace) "n < length p" "st = 0" "p ! n = CHR ''{''"
  | (close_brace) "n < length p" "st = 1" "p ! n = CHR ''}''"
  | (other) "n < length p"
      "\<not> (st = 0 \<and> \<not> isalpha (p ! n) \<and> p ! n \<noteq> CHR ''{'' \<and> p ! n \<noteq> CHR ''}'')"
      "\<not> (st = 0 \<and> p ! n = CHR ''{'')" "\<not> (st = 1 \<and> p ! n = CHR ''}'')"
  by blast

lemma scan_directive_progress: "n \<le> fst (scan_directive p i n st b str fmt)"
proof (induction p i n st b str fmt rule: scan_directive.induct)
  case (1 p i n st b str fmt)
  show ?case
  proof (cases rule: scan_cases [where n = n and p = p and st = st])
    case open_brace
    with "1.IH"(1) show ?thesis by (simp add: scan_open)
  next
    case other
    with "1.IH"(2) have "n + 1 \<le> fst (scan_directive p i (n + 1) st b
      (if n + 1 = length p \<and> str = [] then substr_from p (i + 1) else str) fmt)" by simp
    then show ?thesis by (subst scan_next [OF other]) simp
  qed (simp_all add: scan_steps)
qed

lemma scan_progressD: "(n', r) = scan_directive p i n st b str fmt \<Longrightarrow> n \<le> n'"
  using scan_directive_progress [of n p i st b str fmt] by (metis fst_conv)

text \<open>
  The outer loop from index \<open>i\<close>. A plain character is collected; at \<open>%%\<close> one \<open>%\<close> is
  collected and the loop goes on at the second one; otherwise a directive is read. The code sets
  \<open>i = n - 1\<close> before the loop's \<open>i++\<close>, so the next index is \<open>n\<close>.
\<close>

function init_loop :: "string \<Rightarrow> nat \<Rightarrow> init_state \<Rightarrow> init_state" where
  "init_loop p i s =
     (if i < length p then
        if p ! i \<noteq> CHR ''%'' then
          init_loop p (i + 1) (s\<lparr>nstr := nstr s @ [p ! i]\<rparr>)
        else if i + 1 < length p \<and> p ! (i + 1) = CHR ''%'' then
          init_loop p (i + 1) (s\<lparr>nstr := nstr s @ ''%''\<rparr>)
        else
          (case scan_directive p i (i + 1) 0 0 [] [] of (n, fmt_status, str, fmt) \<Rightarrow>
             if fmt_status = 0 then
               (let s' = flush_nstr s
                in init_loop p n (s'\<lparr>vec := vec s' @ [(str, fmt, 1)]\<rparr>))
             else if fmt_status = 1 then
               init_loop p (i + 1)
                 (s\<lparr>init_out := init_out s @ ''Pattern parse error : '' @ p @ '' - ''
                      @ substr_from p i @ newline,
                    init_error := True,
                    vec := vec s @ [(''<<pattern_error>>'', fmt, 0)]\<rparr>)
             else if fmt_status = 2 then
               (let s' = flush_nstr s
                in init_loop p n (s'\<lparr>vec := vec s' @ [(str, fmt, 1)]\<rparr>))
             else init_loop p (i + 1) s)
      else s)"
  by pat_completeness auto
termination
  by (relation "measure (\<lambda>(p, i, s). length p - i)") (auto dest!: scan_progressD)

declare init_loop.simps [simp del]

text \<open>The last loop of \<open>init\<close>: each triple becomes an item; an unknown name is an error.\<close>

definition unknown_text :: "string \<Rightarrow> string" where
  "unknown_text str = ''<<error_format %'' @ str @ ''>>''"

fun build_item :: "string \<times> string \<times> nat \<Rightarrow> FormatItem \<times> bool" where
  "build_item (str, fmt, t) =
     (if t = 0 then (StringFormatItem str, False)
      else case s_format_items str of
          None \<Rightarrow> (StringFormatItem (unknown_text str), True)
        | Some C \<Rightarrow> (C fmt, False))"

section \<open>The formatter\<close>

record LogFormatter =
  m_pattern :: string
  m_items :: "FormatItem list"
  m_error :: bool

text \<open>
  The constructor, which runs \<open>init\<close>. The second component is what it prints to
  \<open>std::cout\<close>.
\<close>

definition new_LogFormatter :: "string \<Rightarrow> LogFormatter \<times> string" where
  "new_LogFormatter pattern =
     (let s = flush_nstr (init_loop pattern 0 init_start);
          built = map build_item (vec s)
      in (\<lparr>m_pattern = pattern, m_items = map fst built,
            m_error = (init_error s \<or> (\<exists>b \<in> set built. snd b))\<rparr>, init_out s))"

abbreviation formatter_of :: "string \<Rightarrow> LogFormatter" where
  "formatter_of pattern \<equiv> fst (new_LogFormatter pattern)"

text \<open>\<open>LogFormatter::format\<close>: the items write to one string stream, in order.\<close>

definition write_item :: "fmt_env \<Rightarrow> Level \<Rightarrow> LogEvent \<Rightarrow> FormatItem \<Rightarrow> string \<Rightarrow> string may_crash"
where
  "write_item env level ev item ss = sum_bind (format_item env level ev item) (\<lambda>t. Inr (ss @ t))"

definition format_all :: "fmt_env \<Rightarrow> Level \<Rightarrow> LogEvent \<Rightarrow> FormatItem list \<Rightarrow> string may_crash" where
  "format_all env level ev items = for_each (write_item env level ev) items []"

definition LogFormatter_format :: "fmt_env \<Rightarrow> LogFormatter \<Rightarrow> Level \<Rightarrow> LogEvent \<Rightarrow> string may_crash"
where
  "LogFormatter_format env f level ev = format_all env level ev (m_items f)"

text \<open>Formatting a list of items is concatenating the texts of its items.\<close>

lemma format_loop_acc:
  "for_each (write_item env level ev) items acc =
   sum_bind (for_each (write_item env level ev) items []) (\<lambda>t. Inr (acc @ t))"
proof (induction items arbitrary: acc)
  case (Cons x items)
  show ?case
  proof (cases "format_item env level ev x")
    case (Inr a)
    then have "\<And>ss. write_item env level ev x ss = Inr (ss @ a)" by (simp add: write_item_def)
    with Cons.IH [of "acc @ a"] Cons.IH [of a] show ?thesis
      by (cases "for_each (write_item env level ev) items []") simp_all
  qed (simp add: write_item_def)
qed simp

lemma format_all_Nil [simp]: "format_all env level ev [] = Inr []"
  by (simp add: format_all_def)

lemma format_all_Cons [simp]:
  "format_all env level ev (x # items) =
   sum_bind (format_item env level ev x)
     (\<lambda>s. sum_bind (format_all env level ev items) (\<lambda>t. Inr (s @ t)))"
proof (cases "format_item env level ev x")
  case (Inr a)
  then have "write_item env level ev x [] = Inr a" by (simp add: write_item_def)
  with Inr format_loop_acc [of env level ev items a] show ?thesis by (simp add: format_all_def)
qed (simp add: format_all_def write_item_def)

lemma format_item_total: "ev_logger ev \<noteq> None \<Longrightarrow> \<exists>t. format_item env level ev item = Inr t"
  by (cases item) auto

lemma format_all_total: "ev_logger ev \<noteq> None \<Longrightarrow> \<exists>t. format_all env level ev items = Inr t"
proof (induction items)
  case (Cons x items)
  from Cons.prems obtain s where "format_item env level ev x = Inr s"
    using format_item_total by blast
  with Cons show ?case by auto
qed simp

end
