(* ===== verification/Format_Pattern.thy ===== *)
theory Format_Pattern
  imports Log_Formatter
begin

text \<open>
  What a log pattern means, apart from the scanner's indices: a reference parser that reads
  the remaining text, the proof that \<open>LogFormatter::init\<close> computes the same, and the grammar
  of the patterns that \<open>init\<close> reads back without an error.
\<close>

section \<open>A reference parser\<close>

definition name_char :: "char \<Rightarrow> bool" where
  "name_char c \<longleftrightarrow> isalpha c \<or> c = CHR ''}''"

lemma brace_not_name_char [simp]: "\<not> name_char (CHR ''{'')"
  by (simp add: name_char_def isalpha_def)

lemma percent_not_name_char [simp]: "\<not> name_char (CHR ''%'')"
  by (simp add: name_char_def isalpha_def)

lemma isalpha_name_char: "isalpha c \<Longrightarrow> name_char c"
  by (simp add: name_char_def)

text \<open>A directive, its argument and the text after it, or an argument that is never closed.\<close>

datatype directive = Directive string string string | Unterminated

definition read_directive :: "string \<Rightarrow> directive" where
  "read_directive rest =
     (case dropWhile name_char rest of
        [] \<Rightarrow> Directive rest [] []
      | c # r \<Rightarrow>
          if c = CHR ''{'' then
            (case dropWhile (\<lambda>d. d \<noteq> CHR ''}'') r of
               [] \<Rightarrow> Unterminated
             | _ # r' \<Rightarrow>
                 Directive (takeWhile name_char rest) (takeWhile (\<lambda>d. d \<noteq> CHR ''}'') r) r')
          else Directive (takeWhile name_char rest) [] (c # r))"

lemma length_dropWhile_Cons: "dropWhile P xs = y # ys \<Longrightarrow> length ys < length xs"
  using length_dropWhile_le [of P xs] by simp

lemma read_directive_length [termination_simp]:
  assumes "read_directive rest = Directive nm arg r"
  shows "length r \<le> length rest"
proof (cases "dropWhile name_char rest")
  case Nil
  with assms show ?thesis by (simp add: read_directive_def)
next
  case (Cons c t)
  note shorter = length_dropWhile_Cons [OF Cons]
  show ?thesis
  proof (cases "c = CHR ''{''")
    case True
    with assms Cons obtain d where "dropWhile (\<lambda>d. d \<noteq> CHR ''}'') t = d # r"
      by (auto simp: read_directive_def split: list.splits)
    from length_dropWhile_Cons [OF this] shorter show ?thesis by simp
  next
    case False
    with assms Cons have "r = c # t" by (simp add: read_directive_def)
    with shorter show ?thesis by simp
  qed
qed

text \<open>
  The triples of a text, given the plain text collected before it. Collected text goes in front
  of the next directive, and behind the mark of an unterminated one.
\<close>

definition text_token :: "string \<Rightarrow> (string \<times> string \<times> nat) list" where
  "text_token acc = (if acc = [] then [] else [(acc, [], 0)])"

definition error_token :: "string \<times> string \<times> nat" where
  "error_token = (''<<pattern_error>>'', [], 0)"

fun parse :: "string \<Rightarrow> string \<Rightarrow> (string \<times> string \<times> nat) list \<times> bool" where
  "parse acc [] = (text_token acc, False)"
| "parse acc (c # cs) =
     (if c \<noteq> CHR ''%'' then parse (acc @ [c]) cs
      else if cs \<noteq> [] \<and> hd cs = CHR ''%'' then parse (acc @ ''%'') cs
      else case read_directive cs of
          Directive nm arg r \<Rightarrow>
            (case parse [] r of (ts, e) \<Rightarrow> (text_token acc @ (nm, arg, 1) # ts, e))
        | Unterminated \<Rightarrow>
            (case parse acc cs of (ts, e) \<Rightarrow> (error_token # ts, True)))"

section \<open>The scanner computes the reference parser\<close>

lemma scan_name:
  assumes "p = u @ CHR ''%'' # nm @ t" and "\<forall>c \<in> set nm. name_char c" and "nm = a @ b"
  shows "scan_directive p (length u) (length u + 1 + length a) 0 fb
           (if b = [] \<and> t = [] then nm else []) fmt =
         scan_directive p (length u) (length u + 1 + length nm) 0 fb
           (if t = [] then nm else []) fmt"
  using assms(3)
proof (induction b arbitrary: a)
  case (Cons c b)
  let ?n = "length u + 1 + length a"
  have nth: "p ! ?n = c" and len: "?n < length p"
    using assms(1) Cons.prems by (simp_all add: nth_append)
  from Cons.prems assms(2) have "name_char c" by simp
  then have "(isalpha c \<or> c = CHR ''}'')" "c \<noteq> CHR ''{''" by (auto simp: name_char_def isalpha_def)
  with nth len have "scan_directive p (length u) ?n 0 fb [] fmt =
      scan_directive p (length u) (?n + 1) 0 fb
        (if ?n + 1 = length p \<and> [] = ([] :: string) then substr_from p (length u + 1) else []) fmt"
    by (intro scan_next) auto
  moreover have "?n + 1 = length p \<longleftrightarrow> b = [] \<and> t = []"
    using assms(1) Cons.prems by simp
  moreover have "t = [] \<Longrightarrow> substr_from p (length u + 1) = nm"
    using assms(1) by (simp add: substr_from_def)
  ultimately have "scan_directive p (length u) ?n 0 fb [] fmt =
      scan_directive p (length u) (length u + 1 + length (a @ [c])) 0 fb
        (if b = [] \<and> t = [] then nm else []) fmt"
    by auto
  with Cons.IH [of "a @ [c]"] Cons.prems show ?case by simp
qed simp

lemma scan_argument:
  assumes "p = u @ CHR ''%'' # nm @ CHR ''{'' # arg @ t"
    and "\<forall>c \<in> set arg. c \<noteq> CHR ''}''" and "arg = a @ b"
  shows "\<exists>str'. scan_directive p (length u) (length u + 2 + length nm + length a) (Suc 0) fb str fmt =
         scan_directive p (length u) (length u + 2 + length nm + length arg) (Suc 0) fb str' fmt
         \<and> (t \<noteq> [] \<longrightarrow> str' = str)"
  using assms(3)
proof (induction b arbitrary: a str)
  case (Cons c b)
  let ?n = "length u + 2 + length nm + length a"
  have nth: "p ! ?n = c" and len: "?n < length p"
    using assms(1) Cons.prems by (simp_all add: nth_append)
  from Cons.prems assms(2) have "c \<noteq> CHR ''}''" by simp
  let ?str = "if ?n + 1 = length p \<and> str = [] then substr_from p (length u + 1) else str"
  have step: "scan_directive p (length u) ?n (Suc 0) fb str fmt =
      scan_directive p (length u) (?n + 1) (Suc 0) fb ?str fmt"
    using nth len \<open>c \<noteq> CHR ''}''\<close> by (intro scan_next) auto
  have "t \<noteq> [] \<Longrightarrow> ?str = str" using assms(1) Cons.prems by simp
  with step Cons.IH [of "a @ [c]" ?str] Cons.prems show ?case by fastforce
qed auto

text \<open>The scanner's result on a directive, against the reference reader.\<close>

lemma scan_reads:
  assumes p: "p = u @ CHR ''%'' # rest"
  shows "case read_directive rest of
      Directive nm arg r \<Rightarrow>
        scan_directive p (length u) (length u + 1) 0 0 [] [] = (length p - length r, 0, nm, arg)
        \<and> r = drop (length p - length r) p
    | Unterminated \<Rightarrow>
        \<exists>n str. scan_directive p (length u) (length u + 1) 0 0 [] [] = (n, Suc 0, str, [])"
proof -
  define nm where "nm = takeWhile name_char rest"
  define t where "t = dropWhile name_char rest"
  have rest: "rest = nm @ t" by (simp add: nm_def t_def)
  have names: "\<forall>c \<in> set nm. name_char c" by (auto simp: nm_def dest: set_takeWhileD)
  have p_nm: "p = u @ CHR ''%'' # nm @ t" using p rest by simp
  have at_nm: "scan_directive p (length u) (length u + 1) 0 0 [] [] =
      scan_directive p (length u) (length u + 1 + length nm) 0 0 (if t = [] then nm else []) []"
    using scan_name [OF p_nm names, of "[]" nm 0 "[]"] by (simp split: if_splits)
  show ?thesis
  proof (cases t)
    case Nil
    then have "rest = nm" using rest by simp
    moreover have "read_directive rest = Directive rest [] []"
      using Nil unfolding t_def read_directive_def by (simp only: list.case)
    ultimately have "read_directive rest = Directive nm [] []" by simp
    moreover have "scan_directive p (length u) (length u + 1) 0 0 [] [] = (length p, 0, nm, [])"
      using at_nm p_nm Nil by (simp add: scan_end)
    ultimately show ?thesis by simp
  next
    case (Cons c r)
    have nth: "p ! (length u + 1 + length nm) = c" and len: "length u + 1 + length nm < length p"
      using p_nm Cons by (simp_all add: nth_append)
    have not_name: "\<not> name_char c"
      using Cons hd_dropWhile [of name_char rest] unfolding t_def [symmetric] by simp
    show ?thesis
    proof (cases "c = CHR ''{''")
      case False
      then have "read_directive rest = Directive nm [] (c # r)"
        using Cons by (simp add: read_directive_def nm_def flip: t_def)
      moreover have "scan_directive p (length u) (length u + 1 + length nm) 0 0 [] [] =
          (length u + 1 + length nm, 0, nm, [])"
        using nth len not_name False p_nm
        by (subst scan_stop) (auto simp: name_char_def substr_def)
      ultimately show ?thesis using at_nm Cons p_nm by simp
    next
      case True
      define arg where "arg = takeWhile (\<lambda>d. d \<noteq> CHR ''}'') r"
      define s where "s = dropWhile (\<lambda>d. d \<noteq> CHR ''}'') r"
      have r: "r = arg @ s" by (simp add: arg_def s_def)
      have arg: "\<forall>c \<in> set arg. c \<noteq> CHR ''}''" by (auto simp: arg_def dest: set_takeWhileD)
      have p_arg: "p = u @ CHR ''%'' # nm @ CHR ''{'' # arg @ s"
        using p_nm Cons True r by simp
      obtain str' where at_arg: "scan_directive p (length u) (length u + 1) 0 0 [] [] =
          scan_directive p (length u) (length u + 2 + length nm + length arg) (Suc 0)
            (length u + 1 + length nm) str' []" and str': "s \<noteq> [] \<Longrightarrow> str' = nm"
        using scan_argument [OF p_arg arg, of "[]" arg "length u + 1 + length nm" nm "[]"]
          at_nm Cons True nth len p_nm by (auto simp: scan_open substr_def)
      show ?thesis
      proof (cases s)
        case Nil
        then have "read_directive rest = Unterminated"
          using Cons True by (simp add: read_directive_def flip: t_def s_def)
        with at_arg p_arg Nil show ?thesis by (simp add: scan_end)
      next
        case (Cons d s')
        then have "d = CHR ''}''"
          using hd_dropWhile [of "\<lambda>d. d \<noteq> CHR ''}''" r] unfolding s_def [symmetric] by simp
        have "p ! (length u + 2 + length nm + length arg) = CHR ''}''"
          "length u + 2 + length nm + length arg < length p"
          using p_arg Cons \<open>d = CHR ''}''\<close> by (simp_all add: nth_append)
        moreover have "substr p (length u + 1 + length nm + 1)
            (length u + 2 + length nm + length arg - (length u + 1 + length nm) - 1) = arg"
          using p_arg by (simp add: substr_def)
        ultimately have "scan_directive p (length u) (length u + 1) 0 0 [] [] =
            (length u + 2 + length nm + length arg + 1, 0, nm, arg)"
          using at_arg str' Cons by (simp add: scan_close)
        moreover have "read_directive rest = Directive nm arg s'"
          using \<open>t = c # r\<close> True Cons
          by (simp add: read_directive_def nm_def arg_def flip: t_def s_def)
        ultimately show ?thesis using p_arg Cons by (simp add: numeral_3_eq_3)
      qed
    qed
  qed
qed

text \<open>One pass of the outer loop, by what the text at the index starts with.\<close>

lemma init_loop_end: "\<not> i < length p \<Longrightarrow> init_loop p i s = s"
  by (simp add: init_loop.simps)

lemma at_cursor:
  assumes "p = u @ c # cs"
  shows "length u < length p" "p ! length u = c"
    and "length u + 1 < length p \<and> p ! (length u + 1) = d \<longleftrightarrow> cs \<noteq> [] \<and> hd cs = d"
  using assms by (auto simp: nth_append hd_conv_nth)

lemma init_loop_text:
  assumes "p = u @ c # cs" and "c \<noteq> CHR ''%''"
  shows "init_loop p (length u) s = init_loop p (length (u @ [c])) (s\<lparr>nstr := nstr s @ [c]\<rparr>)"
  using at_cursor(1,2) [OF assms(1)] assms(2) by (subst init_loop.simps) simp

lemma init_loop_percent:
  assumes "p = u @ CHR ''%'' # cs" and "cs \<noteq> []" and "hd cs = CHR ''%''"
  shows "init_loop p (length u) s =
    init_loop p (length (u @ ''%'')) (s\<lparr>nstr := nstr s @ ''%''\<rparr>)"
proof -
  have "length u + 1 < length p \<and> p ! (length u + 1) = CHR ''%''"
    using at_cursor(3) [OF assms(1)] assms(2,3) by blast
  with at_cursor(1,2) [OF assms(1)] show ?thesis by (subst init_loop.simps) simp
qed

lemma init_loop_directive:
  assumes "p = u @ CHR ''%'' # cs" and "\<not> (cs \<noteq> [] \<and> hd cs = CHR ''%'')"
    and "scan_directive p (length u) (length u + 1) 0 0 [] [] = (n, st, str, fmt)"
  shows "init_loop p (length u) s =
    (if st = 0 then
       init_loop p n ((flush_nstr s)\<lparr>vec := vec (flush_nstr s) @ [(str, fmt, 1)]\<rparr>)
     else if st = 1 then
       init_loop p (length u + 1)
         (s\<lparr>init_out := init_out s @ ''Pattern parse error : '' @ p @ '' - ''
              @ substr_from p (length u) @ newline,
            init_error := True, vec := vec s @ [(''<<pattern_error>>'', fmt, 0)]\<rparr>)
     else if st = 2 then
       init_loop p n ((flush_nstr s)\<lparr>vec := vec (flush_nstr s) @ [(str, fmt, 1)]\<rparr>)
     else init_loop p (length u + 1) s)"
proof -
  have *: "\<not> (length u + 1 < length p \<and> p ! (length u + 1) = CHR ''%'')"
    using at_cursor(3) [OF assms(1)] assms(2) by blast
  show ?thesis
    by (subst init_loop.simps)
      (simp only: at_cursor(1,2) [OF assms(1)] * assms(3) if_True if_False Let_def prod.case
        simp_thms cong: if_cong)
qed

lemma nstr_flush [simp]: "nstr (flush_nstr s) = []"
  by (simp add: flush_nstr_def)

lemma vec_flush [simp]: "vec (flush_nstr s) = vec s @ text_token (nstr s)"
  by (simp add: flush_nstr_def text_token_def)

lemma error_flush [simp]: "init_error (flush_nstr s) = init_error s"
  and out_flush [simp]: "init_out (flush_nstr s) = init_out s"
  by (simp_all add: flush_nstr_def)

lemma init_loop_parse:
  assumes "p = u @ rest" and "parse (nstr s) rest = (ts, e)"
  shows "vec (flush_nstr (init_loop p (length u) s)) = vec s @ ts
    \<and> init_error (init_loop p (length u) s) = (init_error s \<or> e)
    \<and> (\<not> e \<longrightarrow> init_out (init_loop p (length u) s) = init_out s)"
  using assms
proof (induction "nstr s" rest arbitrary: s u ts e rule: parse.induct)
  case 1
  then show ?case by (simp add: init_loop_end)
next
  case (2 c cs)
  consider (plain) "c \<noteq> CHR ''%''" | (percent) "c = CHR ''%''" "cs \<noteq> []" "hd cs = CHR ''%''"
    | (dir) "c = CHR ''%''" "\<not> (cs \<noteq> [] \<and> hd cs = CHR ''%'')" by blast
  then show ?case
  proof cases
    case plain
    with "2.hyps"(1) [OF plain, of "s\<lparr>nstr := nstr s @ [c]\<rparr>" "u @ [c]" ts e] "2.prems"
    show ?thesis by (simp add: init_loop_text)
  next
    case percent
    with "2.hyps"(2) [of "s\<lparr>nstr := nstr s @ ''%''\<rparr>" "u @ [c]" ts e] "2.prems"
    show ?thesis by (simp add: init_loop_percent)
  next
    case dir
    note p = "2.prems"(1) [unfolded dir(1)]
    show ?thesis
    proof (cases "read_directive cs")
      case (Directive nm arg r)
      obtain ts' where ts': "parse [] r = (ts', e)" and ts: "ts = text_token (nstr s) @ (nm, arg, 1) # ts'"
        using "2.prems"(2) dir Directive by (auto split: prod.splits)
      have scan: "scan_directive p (length u) (length u + 1) 0 0 [] [] = (length p - length r, 0, nm, arg)"
        and r: "r = drop (length p - length r) p"
        using scan_reads [OF p] Directive by simp_all
      define u' where "u' = take (length p - length r) p"
      have p': "p = u' @ r" using r by (metis append_take_drop_id u'_def)
      then have len: "length p - length r = length u'" by simp
      let ?s = "(flush_nstr s)\<lparr>vec := vec (flush_nstr s) @ [(nm, arg, 1)]\<rparr>"
      have "init_loop p (length u) s = init_loop p (length u') ?s"
        using init_loop_directive [OF p dir(2) scan] len by simp
      moreover note "2.hyps"(3) [OF _ dir(2) Directive, of ?s u' ts' e] 
      ultimately show ?thesis using dir p' ts' ts by simp
    next
      case Unterminated
      obtain ts' e' where ts': "parse (nstr s) cs = (ts', e')" and ts: "ts = error_token # ts'" and e: "e"
        using "2.prems"(2) dir Unterminated by (auto split: prod.splits)
      obtain n str where scan:
        "scan_directive p (length u) (length u + 1) 0 0 [] [] = (n, Suc 0, str, [])"
        using scan_reads [OF p] Unterminated by auto
      let ?s = "s\<lparr>init_out := init_out s @ ''Pattern parse error : '' @ p @ '' - ''
              @ substr_from p (length u) @ newline,
            init_error := True, vec := vec s @ [error_token]\<rparr>"
      have "init_loop p (length u) s = init_loop p (length (u @ [c])) ?s"
        using init_loop_directive [OF p dir(2) scan] by (simp add: error_token_def)
      with "2.hyps"(4) [OF _ dir(2) Unterminated, of ?s "u @ [c]" ts' e'] dir p ts' ts e
      show ?thesis by simp
    qed
  qed
qed

lemma formatter_of_parse:
  "formatter_of pattern =
     \<lparr>m_pattern = pattern,
      m_items = map (\<lambda>t. fst (build_item t)) (fst (parse [] pattern)),
      m_error = (snd (parse [] pattern) \<or> (\<exists>t \<in> set (fst (parse [] pattern)). snd (build_item t)))\<rparr>"
proof -
  obtain ts e where parse: "parse [] pattern = (ts, e)" by (cases "parse [] pattern")
  from init_loop_parse [of pattern "[]" pattern init_start ts e] parse
  have "vec (flush_nstr (init_loop pattern 0 init_start)) = ts"
    and "init_error (init_loop pattern 0 init_start) = e"
    by (simp_all add: init_start_def)
  with parse show ?thesis by (simp add: new_LogFormatter_def Let_def)
qed

lemma new_LogFormatter_silent:
  "\<not> snd (parse [] pattern) \<Longrightarrow> snd (new_LogFormatter pattern) = []"
  using init_loop_parse [of pattern "[]" pattern init_start]
  by (cases "parse [] pattern") (auto simp: new_LogFormatter_def Let_def init_start_def)

text \<open>
  C6: \<open>LogFormatter::init\<close>, with its index arithmetic and its status variable, computes the
  reference parser: the items are those of the parsed triples in order, the error flag is
  set exactly when a directive's argument is not closed or its name is not in the table, and
  without an unclosed argument nothing is printed.
\<close>

theorem init_refines_parse:
  "case parse [] pattern of (ts, unclosed) \<Rightarrow>
     formatter_of pattern =
       \<lparr>m_pattern = pattern, m_items = map (fst \<circ> build_item) ts,
        m_error = (unclosed \<or> (\<exists>t \<in> set ts. snd (build_item t)))\<rparr>
     \<and> (unclosed \<or> snd (new_LogFormatter pattern) = [])"
  using formatter_of_parse [of pattern] new_LogFormatter_silent [of pattern]
  by (auto simp: case_prod_beta comp_def)

lemma formatter_pattern [simp]: "m_pattern (formatter_of pattern) = pattern"
  by (simp add: new_LogFormatter_def Let_def)

section \<open>The grammar of well-formed patterns\<close>

text \<open>
  A pattern is a sequence of plain text and directives, a directive with or without an argument
  in braces; \<open>render\<close> writes it down.
\<close>

datatype piece = Lit string | Dir string "string option"

fun render_piece :: "piece \<Rightarrow> string" where
  "render_piece (Lit s) = s"
| "render_piece (Dir nm None) = CHR ''%'' # nm"
| "render_piece (Dir nm (Some arg)) = CHR ''%'' # nm @ CHR ''{'' # arg @ ''}''"

definition render :: "piece list \<Rightarrow> string" where
  "render ps = concat (map render_piece ps)"

text \<open>
  The side conditions: text is not empty, holds no \<open>%\<close> and is not followed by more text; a
  name is made of letters; an argument holds no closing brace; the text after a directive
  without an argument cannot be read as more of its name or as its argument.
\<close>

fun starts_text :: "piece list \<Rightarrow> bool" where
  "starts_text (Lit s # ps) = True"
| "starts_text ps = False"

fun separated :: "piece list \<Rightarrow> bool" where
  "separated (Lit (c # s) # ps) \<longleftrightarrow> \<not> name_char c \<and> c \<noteq> CHR ''{''"
| "separated ps = True"

fun wf_pieces :: "piece list \<Rightarrow> bool" where
  "wf_pieces [] = True"
| "wf_pieces (Lit s # ps) \<longleftrightarrow>
     s \<noteq> [] \<and> CHR ''%'' \<notin> set s \<and> \<not> starts_text ps \<and> wf_pieces ps"
| "wf_pieces (Dir nm None # ps) \<longleftrightarrow>
     nm \<noteq> [] \<and> list_all isalpha nm \<and> separated ps \<and> wf_pieces ps"
| "wf_pieces (Dir nm (Some arg) # ps) \<longleftrightarrow>
     nm \<noteq> [] \<and> list_all isalpha nm \<and> CHR ''}'' \<notin> set arg \<and> wf_pieces ps"

text \<open>What each piece means.\<close>

fun piece_triple :: "piece \<Rightarrow> string \<times> string \<times> nat" where
  "piece_triple (Lit s) = (s, [], 0)"
| "piece_triple (Dir nm arg) = (nm, case arg of None \<Rightarrow> [] | Some a \<Rightarrow> a, 1)"

definition piece_item :: "piece \<Rightarrow> FormatItem" where
  "piece_item q = fst (build_item (piece_triple q))"

definition known_piece :: "piece \<Rightarrow> bool" where
  "known_piece q = (case q of Lit s \<Rightarrow> True | Dir nm arg \<Rightarrow> s_format_items nm \<noteq> None)"

lemma unknown_build_item: "snd (build_item (piece_triple q)) \<longleftrightarrow> \<not> known_piece q"
  by (cases q) (auto simp: known_piece_def split: option.splits)

lemma parse_text:
  "CHR ''%'' \<notin> set s \<Longrightarrow> parse acc (s @ rest) = parse (acc @ s) rest"
  by (induction s arbitrary: acc) auto

lemma name_takeWhile:
  assumes "list_all isalpha nm" and "t = [] \<or> \<not> name_char (hd t)"
  shows "takeWhile name_char (nm @ t) = nm" and "dropWhile name_char (nm @ t) = t"
proof -
  from assms(1) have "\<forall>c \<in> set nm. name_char c" by (auto simp: list_all_iff isalpha_name_char)
  moreover from assms(2) have "takeWhile name_char t = []" "dropWhile name_char t = t"
    by (cases t; simp)+
  ultimately show "takeWhile name_char (nm @ t) = nm" and "dropWhile name_char (nm @ t) = t"
    by simp_all
qed

lemma read_plain_directive:
  assumes "list_all isalpha nm" and "t = [] \<or> (\<not> name_char (hd t) \<and> hd t \<noteq> CHR ''{'')"
  shows "read_directive (nm @ t) = Directive nm [] t"
proof (cases t)
  case Nil
  with name_takeWhile [OF assms(1), of t] show ?thesis
    unfolding read_directive_def by (simp only: list.case append_Nil2 simp_thms)
next
  case (Cons c r)
  with name_takeWhile [OF assms(1), of t] assms(2) show ?thesis
    by (simp add: read_directive_def)
qed

lemma read_directive_arg:
  assumes "list_all isalpha nm" and "CHR ''}'' \<notin> set arg"
  shows "read_directive (nm @ CHR ''{'' # arg @ CHR ''}'' # t) = Directive nm arg t"
proof -
  have "\<forall>c \<in> set arg. c \<noteq> CHR ''}''" using assms(2) by auto
  then have "dropWhile (\<lambda>d. d \<noteq> CHR ''}'') (arg @ CHR ''}'' # t) = CHR ''}'' # t"
    and "takeWhile (\<lambda>d. d \<noteq> CHR ''}'') (arg @ CHR ''}'' # t) = arg"
    by (simp_all add: dropWhile_append2 takeWhile_append2)
  with name_takeWhile [OF assms(1), of "CHR ''{'' # arg @ CHR ''}'' # t"]
  show ?thesis by (simp add: read_directive_def)
qed

lemma hd_name_not_percent: "nm \<noteq> [] \<Longrightarrow> list_all isalpha nm \<Longrightarrow> hd (nm @ t) \<noteq> CHR ''%''"
  using percent_not_name_char by (cases nm) (auto dest: isalpha_name_char)

lemma render_start:
  "wf_pieces ps \<Longrightarrow> separated ps \<Longrightarrow>
   render ps = [] \<or> (\<not> name_char (hd (render ps)) \<and> hd (render ps) \<noteq> CHR ''{'')"
  by (induction ps rule: wf_pieces.induct) (auto simp: render_def neq_Nil_conv)

lemma parse_render:
  "wf_pieces ps \<Longrightarrow> acc = [] \<or> \<not> starts_text ps \<Longrightarrow>
   parse acc (render ps) = (text_token acc @ map piece_triple ps, False)"
proof (induction ps arbitrary: acc rule: wf_pieces.induct)
  case 1
  then show ?case by (simp add: render_def)
next
  case (2 s ps)
  then show ?case by (simp add: render_def parse_text text_token_def)
next
  case (3 nm ps)
  then have "read_directive (nm @ render ps) = Directive nm [] (render ps)"
    using render_start [of ps] by (intro read_plain_directive) auto
  moreover have "parse [] (render ps) = (map piece_triple ps, False)"
    using 3 by (simp add: text_token_def)
  ultimately show ?case
    using 3 hd_name_not_percent [of nm "render ps"] by (simp add: render_def)
next
  case (4 nm arg ps)
  then have "read_directive (nm @ CHR ''{'' # arg @ CHR ''}'' # render ps) = Directive nm arg (render ps)"
    by (intro read_directive_arg) auto
  moreover have "parse [] (render ps) = (map piece_triple ps, False)"
    using 4 by (simp add: text_token_def)
  ultimately show ?case
    using 4 hd_name_not_percent [of nm "CHR ''{'' # arg @ CHR ''}'' # render ps"]
    by (simp add: render_def)
qed

lemma formatter_render:
  assumes "wf_pieces ps"
  shows "formatter_of (render ps) =
    \<lparr>m_pattern = render ps, m_items = map piece_item ps, m_error = (\<exists>q \<in> set ps. \<not> known_piece q)\<rparr>"
    and "snd (new_LogFormatter (render ps)) = []"
proof -
  have "parse [] (render ps) = (map piece_triple ps, False)"
    using parse_render [OF assms, of "[]"] by (simp add: text_token_def)
  then show "formatter_of (render ps) =
    \<lparr>m_pattern = render ps, m_items = map piece_item ps, m_error = (\<exists>q \<in> set ps. \<not> known_piece q)\<rparr>"
    and "snd (new_LogFormatter (render ps)) = []"
    by (simp_all add: formatter_of_parse new_LogFormatter_silent piece_item_def unknown_build_item
        comp_def)
qed

text \<open>
  C18: Writing down a well-formed sequence of texts and directives and giving it to the formatter
  yields exactly the items of that sequence, prints nothing, and sets the error flag exactly
  when a directive's name is not in the table.
\<close>

theorem formatter_roundtrip:
  assumes "wf_pieces ps"
  shows "m_items (formatter_of (render ps)) = map piece_item ps
    \<and> (m_error (formatter_of (render ps)) \<longleftrightarrow> (\<exists>q \<in> set ps. \<not> known_piece q))
    \<and> snd (new_LogFormatter (render ps)) = []"
  using formatter_render [OF assms] by simp

theorem formatter_roundtrip_witness:
  "wf_pieces [Lit ''['', Dir ''p'' None, Lit ''] '', Dir ''d'' (Some ''%H:%M''), Dir ''n'' None]
   \<and> m_items (formatter_of ''[%p] %d{%H:%M}%n'') =
       [StringFormatItem ''['', LevelFormatItem, StringFormatItem ''] '',
        DateTimeFormatItem ''%H:%M'', NewLineFormatItem]
   \<and> \<not> m_error (formatter_of ''[%p] %d{%H:%M}%n'')"
proof -
  let ?ps = "[Lit ''['', Dir ''p'' None, Lit ''] '', Dir ''d'' (Some ''%H:%M''), Dir ''n'' None]"
  have wf: "wf_pieces ?ps" by (simp add: isalpha_def name_char_def)
  have "render ?ps = ''[%p] %d{%H:%M}%n''" by (simp add: render_def)
  with wf formatter_roundtrip [OF wf] show ?thesis
    by (simp add: piece_item_def known_piece_def s_format_items_def new_DateTimeFormatItem_def)
qed

section \<open>Patterns that go wrong\<close>

text \<open>
  \<open>%%\<close> is no escape for a percent sign. After the text \<open>l\<close> the first \<open>%\<close> is kept as
  text, and the second one still begins a directive: at the end of the pattern that is an
  error, and in front of a directive's name it is that directive.
\<close>

lemma percent_percent_starts_directive:
  assumes "CHR ''%'' \<notin> set l"
  shows "m_error (formatter_of (l @ ''%%''))
    \<and> m_items (formatter_of (l @ ''%%'')) =
           [StringFormatItem (l @ ''%''), StringFormatItem (unknown_text [])]
    \<and> (\<forall>nm C. s_format_items nm = Some C \<longrightarrow> list_all isalpha nm \<longrightarrow> nm \<noteq> [] \<longrightarrow>
           m_items (formatter_of (l @ ''%%'' @ nm)) = [StringFormatItem (l @ ''%''), C []]
           \<and> \<not> m_error (formatter_of (l @ ''%%'' @ nm)))"
proof (intro conjI)
  have "parse [] (l @ ''%%'') = ([(l @ ''%'', [], 0), ([], [], 1)], False)"
    by (simp add: parse_text [OF assms] text_token_def read_directive_def)
  then show "m_error (formatter_of (l @ ''%%''))"
    and "m_items (formatter_of (l @ ''%%'')) =
           [StringFormatItem (l @ ''%''), StringFormatItem (unknown_text [])]"
    by (simp_all add: formatter_of_parse s_format_items_def)
next
  {
    fix nm C
    assume nm: "s_format_items nm = Some C" "list_all isalpha nm" "nm \<noteq> []"
    have "read_directive nm = Directive nm [] []"
      using read_plain_directive [OF nm(2), of "[]"] by simp
    with nm hd_name_not_percent [OF nm(3,2), of "[]"]
    have "parse [] (l @ ''%%'' @ nm) = ([(l @ ''%'', [], 0), (nm, [], 1)], False)"
      by (simp add: parse_text [OF assms] text_token_def)
    with nm have "m_items (formatter_of (l @ ''%%'' @ nm)) = [StringFormatItem (l @ ''%''), C []]
           \<and> \<not> m_error (formatter_of (l @ ''%%'' @ nm))"
      by (simp add: formatter_of_parse)
  }
  then show "\<forall>nm C. s_format_items nm = Some C \<longrightarrow> list_all isalpha nm \<longrightarrow> nm \<noteq> [] \<longrightarrow>
           m_items (formatter_of (l @ ''%%'' @ nm)) = [StringFormatItem (l @ ''%''), C []]
           \<and> \<not> m_error (formatter_of (l @ ''%%'' @ nm))"
    by blast
qed

lemma percent_percent_starts_directive_witness:
  "CHR ''%'' \<notin> set ''100''
   \<and> m_error (formatter_of ''100%%'')
   \<and> m_items (formatter_of ''100%%m'') = [StringFormatItem ''100%'', MessageFormatItem]"
proof -
  have "CHR ''%'' \<notin> set ''100''" by simp
  note * = percent_percent_starts_directive [OF this]
  have "s_format_items ''m'' = Some (\<lambda>_. MessageFormatItem)" "list_all isalpha ''m''" "''m'' \<noteq> []"
    by (simp_all add: s_format_items_def isalpha_def)
  with * show ?thesis by fastforce
qed

text \<open>
  A directive whose argument is not closed. The error flag is set, the mark
  \<open><<pattern_error>>\<close> stands in front of the whole text, and everything after the \<open>%\<close> is
  kept as plain text.
\<close>

lemma unterminated_argument:
  assumes "CHR ''%'' \<notin> set l" and "list_all isalpha nm" and "nm \<noteq> []"
    and "CHR ''%'' \<notin> set arg" and "CHR ''}'' \<notin> set arg"
  shows "m_error (formatter_of (l @ ''%'' @ nm @ ''{'' @ arg))
    \<and> m_items (formatter_of (l @ ''%'' @ nm @ ''{'' @ arg)) =
           [StringFormatItem ''<<pattern_error>>'', StringFormatItem (l @ nm @ ''{'' @ arg)]"
proof -
  let ?r = "CHR ''{'' # arg"
  have "dropWhile (\<lambda>d. d \<noteq> CHR ''}'') arg = []" using assms(5) by auto
  moreover have "dropWhile name_char (nm @ ?r) = ?r"
    using name_takeWhile(2) [OF assms(2), of ?r] by simp
  ultimately have reads: "read_directive (nm @ ?r) = Unterminated"
    unfolding read_directive_def by (simp only: list.case if_True simp_thms)
  have "CHR ''%'' \<notin> set nm"
    using assms(2) by (auto simp: list_all_iff isalpha_def)
  with assms(4) have "parse l ((nm @ ?r) @ []) = (text_token (l @ nm @ ?r), False)"
    using parse_text [of "nm @ ?r" l "[]"] by simp
  with reads hd_name_not_percent [OF assms(3,2), of ?r]
  have "parse [] (l @ ''%'' @ nm @ ''{'' @ arg) = ([error_token, (l @ nm @ ?r, [], 0)], True)"
    by (simp add: parse_text [OF assms(1)] text_token_def)
  then show ?thesis
    by (simp add: formatter_of_parse error_token_def)
qed

lemma unterminated_argument_witness:
  "m_error (formatter_of ''at %d{x'')
   \<and> m_items (formatter_of ''at %d{x'') =
       [StringFormatItem ''<<pattern_error>>'', StringFormatItem ''at d{x'']"
  using unterminated_argument [of "''at ''" "''d''" "''x''"] by (simp add: isalpha_def)

end
