(* ===== verification/Yaml_Node.thy ===== *)
theory Yaml_Node
  imports Chord_Prelude
begin

text \<open>
  The YAML library the sources call (yaml-cpp, not part of the repository). A node is a value
  of its documented data model; what the library computes on nodes and text is a parameter,
  the record \<open>yaml_lib\<close>, and the facts the theorems use about it are named predicates.
\<close>

datatype yaml =
    YNull
  | YScalar string
  | YSeq "yaml list"
  | YMap "(yaml \<times> yaml) list"

text \<open>
  \<open>y_Load\<close> is \<open>YAML::Load\<close> and \<open>y_emit\<close> is \<open>ss << node\<close>; \<open>y_index n i\<close> is \<open>node[i]\<close> and
  \<open>y_get n k\<close> is \<open>node["k"]\<close>, \<open>None\<close> when the result is not defined; \<open>y_as_string\<close> is
  \<open>node.as<std::string>()\<close>; \<open>y_pairs\<close> is what an iteration reads as \<open>it->first.Scalar()\<close>
  and \<open>it->second\<close>.
\<close>

record yaml_lib =
  y_Load :: "string \<Rightarrow> exn + yaml"
  y_emit :: "yaml \<Rightarrow> string"
  y_index :: "yaml \<Rightarrow> nat \<Rightarrow> exn + yaml"
  y_get :: "yaml \<Rightarrow> string \<Rightarrow> exn + yaml option"
  y_as_string :: "yaml \<Rightarrow> exn + string"
  y_pairs :: "yaml \<Rightarrow> exn + (string \<times> yaml) list"

text \<open>
  Indexing a sequence, looking a key up in a map, reading a scalar as a string, iterating over
  a map. \<open>Scalar()\<close> is the empty text on a node that is no scalar.
\<close>

fun Scalar_of :: "yaml \<Rightarrow> string" where
  "Scalar_of (YScalar s) = s"
| "Scalar_of n = []"

definition yaml_access :: "yaml_lib \<Rightarrow> bool" where
  "yaml_access Y \<longleftrightarrow>
     (\<forall>xs i. i < length xs \<longrightarrow> y_index Y (YSeq xs) i = Inr (xs ! i)) \<and>
     (\<forall>es k. y_get Y (YMap es) k = Inr (map_of es (YScalar k))) \<and>
     (\<forall>k. y_get Y YNull k = Inr None) \<and>
     (\<forall>s. y_as_string Y (YScalar s) = Inr s) \<and>
     (\<forall>es. y_pairs Y (YMap es) = Inr (map (\<lambda>(k, v). (Scalar_of k, v)) es)) \<and>
     y_pairs Y YNull = Inr []"

lemma yaml_accessD:
  assumes "yaml_access Y"
  shows "i < length xs \<Longrightarrow> y_index Y (YSeq xs) i = Inr (xs ! i)"
    and "y_get Y (YMap es) k = Inr (map_of es (YScalar k))"
    and "y_get Y YNull k = Inr None"
    and "y_as_string Y (YScalar s) = Inr s"
    and "y_pairs Y (YMap es) = Inr (map (\<lambda>(k, v). (Scalar_of k, v)) es)"
    and "y_pairs Y YNull = Inr []"
  using assms by (simp_all add: yaml_access_def)

text \<open>The emitted text of a node is loaded back as the node.\<close>

definition yaml_reload :: "yaml_lib \<Rightarrow> yaml \<Rightarrow> bool" where
  "yaml_reload Y n \<longleftrightarrow> y_Load Y (y_emit Y n) = Inr n"

text \<open>The kind tests and the size of a node.\<close>

fun IsMap :: "yaml \<Rightarrow> bool" where
  "IsMap (YMap es) = True"
| "IsMap n = False"

fun IsScalar :: "yaml \<Rightarrow> bool" where
  "IsScalar (YScalar s) = True"
| "IsScalar n = False"

fun node_size :: "yaml \<Rightarrow> nat" where
  "node_size (YSeq xs) = length xs"
| "node_size (YMap es) = length es"
| "node_size n = 0"

fun node_entries :: "yaml \<Rightarrow> (yaml \<times> yaml) list" where
  "node_entries (YMap es) = es"
| "node_entries n = []"

text \<open>
  Building a node: \<open>node["k"] = v\<close> on a fresh node or a map, and \<open>node.push_back(v)\<close> on a
  fresh node or a sequence. The sources build nodes in no other way.
\<close>

fun put_entry :: "yaml \<Rightarrow> yaml \<Rightarrow> (yaml \<times> yaml) list \<Rightarrow> (yaml \<times> yaml) list" where
  "put_entry k v [] = [(k, v)]"
| "put_entry k v ((k', v') # es) = (if k = k' then (k, v) # es else (k', v') # put_entry k v es)"

definition node_put :: "string \<Rightarrow> yaml \<Rightarrow> yaml \<Rightarrow> yaml" where
  "node_put k v n = YMap (put_entry (YScalar k) v (node_entries n))"

definition node_push :: "yaml \<Rightarrow> yaml \<Rightarrow> yaml" where
  "node_push v n = (case n of YSeq xs \<Rightarrow> YSeq (xs @ [v]) | _ \<Rightarrow> YSeq [v])"

lemma map_of_put_entry [simp]: "map_of (put_entry k v es) = (map_of es)(k \<mapsto> v)"
  by (induction k v es rule: put_entry.induct) (auto simp: fun_eq_iff)

lemma node_entries_put [simp]:
  "node_entries (node_put k v n) = put_entry (YScalar k) v (node_entries n)"
  by (simp add: node_put_def)

lemma node_push_simps [simp]:
  "node_push v YNull = YSeq [v]"
  "node_push v (YSeq xs) = YSeq (xs @ [v])"
  by (simp_all add: node_push_def)

end
