(* ===== verification/Log_Appender.thy ===== *)
theory Log_Appender
  imports Format_Pattern Yaml_Node
begin

text \<open>
  The appenders (\<open>LogAppender\<close>, \<open>StdOutLogAppender\<close> and \<open>FileLogAppender\<close> of \<open>chord/log.h\<close>;
  \<open>chord/logger.cpp\<close>, lines 54-72 and 388-468), with the output streams they write to. The
  virtual \<open>log\<close> is an interface: the locale \<open>appender_class\<close> states what a logger may
  rely on, and both classes interpret it.
\<close>

section \<open>Files and streams\<close>

text \<open>
  The outside world: standard output, the contents of the files, and the names that can be
  opened for writing. A stream writes through to its file at its position; the buffer between
  the two is not modelled.
\<close>

record world =
  w_stdout :: string
  w_files :: "string \<Rightarrow> string option"
  w_writable :: "string \<Rightarrow> bool"

definition print_out :: "string \<Rightarrow> world \<Rightarrow> world" where
  "print_out s w = w\<lparr>w_stdout := w_stdout w @ s\<rparr>"

text \<open>A \<open>std::ofstream\<close>: is a file open, is the fail state set, where does the next write go.\<close>

record file_stream =
  fs_open :: bool
  fs_fail :: bool
  fs_pos :: nat

definition closed_stream :: file_stream where
  "closed_stream = \<lparr>fs_open = False, fs_fail = False, fs_pos = 0\<rparr>"

definition stream_close :: "file_stream \<Rightarrow> file_stream" where
  "stream_close fs = (if fs_open fs then fs\<lparr>fs_open := False\<rparr> else fs\<lparr>fs_fail := True\<rparr>)"

text \<open>\<open>open\<close> with the default mode of an output stream truncates the file.\<close>

definition stream_open :: "string \<Rightarrow> file_stream \<Rightarrow> world \<Rightarrow> file_stream \<times> world" where
  "stream_open name fs w =
     (if fs_open fs then (fs\<lparr>fs_fail := True\<rparr>, w)
      else if w_writable w name then
        (\<lparr>fs_open = True, fs_fail = False, fs_pos = 0\<rparr>, w\<lparr>w_files := (w_files w)(name \<mapsto> [])\<rparr>)
      else (fs\<lparr>fs_fail := True\<rparr>, w))"

definition write_at :: "string \<Rightarrow> nat \<Rightarrow> string \<Rightarrow> string" where
  "write_at c pos s =
     take pos c @ replicate (pos - length c) (char_of (0 :: nat)) @ s @ drop (pos + length s) c"

definition stream_write :: "string \<Rightarrow> string \<Rightarrow> file_stream \<Rightarrow> world \<Rightarrow> file_stream \<times> world" where
  "stream_write name s fs w =
     (if fs_fail fs then (fs, w)
      else if fs_open fs then
        (fs\<lparr>fs_pos := fs_pos fs + length s\<rparr>,
         w\<lparr>w_files := (w_files w)(name \<mapsto>
             write_at (case w_files w name of None \<Rightarrow> [] | Some c \<Rightarrow> c) (fs_pos fs) s)\<rparr>)
      else (fs\<lparr>fs_fail := True\<rparr>, w))"

section \<open>Appenders\<close>

record file_part =
  m_filename :: string
  m_filestream :: file_stream
  m_lastTime :: "64 word"

datatype appender_kind = StdOutLogAppender | FileLogAppender file_part

record LogAppender =
  ap_kind :: appender_kind
  ap_formatter :: "LogFormatter option"
  ap_level :: Level
  ap_has_formatter :: bool

definition new_appender :: "appender_kind \<Rightarrow> LogAppender" where
  "new_appender k =
     \<lparr>ap_kind = k, ap_formatter = None, ap_level = DEBUG, ap_has_formatter = False\<rparr>"

definition LogAppender_setFormatter :: "LogFormatter option \<Rightarrow> LogAppender \<Rightarrow> LogAppender" where
  "LogAppender_setFormatter val a =
     (let a' = a\<lparr>ap_formatter := val\<rparr>
      in if val \<noteq> None then a'\<lparr>ap_has_formatter := True\<rparr> else a'\<lparr>ap_has_formatter := False\<rparr>)"

text \<open>
  \<open>FileLogAppender::reopen\<close>; the first component is its result. The constructor calls it on a
  fresh stream, and leaves \<open>m_lastTime\<close> with whatever value the memory had.
\<close>

definition reopen :: "file_part \<Rightarrow> world \<Rightarrow> bool \<times> file_part \<times> world" where
  "reopen fp w =
     (let fs = (if \<not> fs_fail (m_filestream fp) then stream_close (m_filestream fp)
                else m_filestream fp);
          (fs', w') = stream_open (m_filename fp) fs w
      in (fs_fail fs', fp\<lparr>m_filestream := fs'\<rparr>, w'))"

definition new_FileLogAppender :: "64 word \<Rightarrow> string \<Rightarrow> world \<Rightarrow> LogAppender \<times> world" where
  "new_FileLogAppender uninit filename w =
     (case reopen \<lparr>m_filename = filename, m_filestream = closed_stream, m_lastTime = uninit\<rparr> w of
        (_, fp, w') \<Rightarrow> (new_appender (FileLogAppender fp), w'))"

definition new_StdOutLogAppender :: LogAppender where
  "new_StdOutLogAppender = new_appender StdOutLogAppender"

text \<open>\<open>m_formatter->format(logger, level, event)\<close>.\<close>

definition appender_text :: "fmt_env \<Rightarrow> Level \<Rightarrow> LogEvent \<Rightarrow> LogAppender \<Rightarrow> string may_crash" where
  "appender_text env level ev a =
     (case ap_formatter a of
        None \<Rightarrow> Inl Null_deref
      | Some f \<Rightarrow> LogFormatter_format env f level ev)"

definition StdOutLogAppender_log ::
  "fmt_env \<Rightarrow> Level \<Rightarrow> LogEvent \<Rightarrow> LogAppender \<times> world \<Rightarrow> (LogAppender \<times> world) may_crash"
where
  "StdOutLogAppender_log env level ev = (\<lambda>(a, w).
     if ap_level a \<le> level then
       sum_bind (appender_text env level ev a) (\<lambda>t. Inr (a, print_out t w))
     else Inr (a, w))"

text \<open>
  \<open>FileLogAppender::log\<close>: the file is reopened unless exactly three seconds have passed since
  the recorded time, then the text is written. \<open>now\<close> is the value of \<open>time(0)\<close>.
\<close>

definition file_refresh :: "64 word \<Rightarrow> file_part \<Rightarrow> world \<Rightarrow> file_part \<times> world" where
  "file_refresh now fp w =
     (if now \<noteq> m_lastTime fp + 3 then
        (case reopen fp w of (_, fp', w') \<Rightarrow> (fp'\<lparr>m_lastTime := now\<rparr>, w'))
      else (fp, w))"

definition file_write :: "string \<Rightarrow> file_part \<Rightarrow> world \<Rightarrow> file_part \<times> world" where
  "file_write t fp w =
     (case stream_write (m_filename fp) t (m_filestream fp) w of
        (fs, w') \<Rightarrow>
          (fp\<lparr>m_filestream := fs\<rparr>,
           if fs_fail fs then print_out (''file_appender log error'' @ newline) w' else w'))"

definition FileLogAppender_log ::
  "64 word \<Rightarrow> fmt_env \<Rightarrow> Level \<Rightarrow> LogEvent \<Rightarrow> file_part
     \<Rightarrow> LogAppender \<times> world \<Rightarrow> (LogAppender \<times> world) may_crash"
where
  "FileLogAppender_log now env level ev fp = (\<lambda>(a, w).
     if ap_level a \<le> level then
       (case file_refresh now fp w of
          (fp1, w1) \<Rightarrow>
            sum_bind (appender_text env level ev a) (\<lambda>t.
              case file_write t fp1 w1 of
                (fp2, w2) \<Rightarrow> Inr (a\<lparr>ap_kind := FileLogAppender fp2\<rparr>, w2)))
     else Inr (a, w))"

text \<open>The virtual call \<open>i->log(logger, level, event)\<close>.\<close>

definition appender_log ::
  "64 word \<Rightarrow> fmt_env \<Rightarrow> Level \<Rightarrow> LogEvent \<Rightarrow> LogAppender \<times> world \<Rightarrow> (LogAppender \<times> world) may_crash"
where
  "appender_log now env level ev aw =
     (case ap_kind (fst aw) of
        StdOutLogAppender \<Rightarrow> StdOutLogAppender_log env level ev aw
      | FileLogAppender fp \<Rightarrow> FileLogAppender_log now env level ev fp aw)"

text \<open>The node built by the virtual \<open>toYamlString\<close>, and its text.\<close>

definition appender_node :: "LogAppender \<Rightarrow> yaml" where
  "appender_node a =
     (let n1 = (case ap_kind a of
                  StdOutLogAppender \<Rightarrow> node_put ''type'' (YScalar ''StdoutLogAppender'') YNull
                | FileLogAppender fp \<Rightarrow>
                    node_put ''file'' (YScalar (m_filename fp))
                      (node_put ''type'' (YScalar ''FileLogAppender'') YNull));
          n2 = (if ap_level a \<noteq> UNKNOWN then node_put ''level'' (YScalar (ToString (ap_level a))) n1
                else n1)
      in case ap_formatter a of
           Some f \<Rightarrow> if ap_has_formatter a then node_put ''formatter'' (YScalar (m_pattern f)) n2
                     else n2
         | None \<Rightarrow> n2)"

definition appender_toYamlString :: "yaml_lib \<Rightarrow> LogAppender \<Rightarrow> string" where
  "appender_toYamlString Y a = y_emit Y (appender_node a)"

section \<open>The interface of an appender\<close>

text \<open>
  What \<open>Logger\<close> relies on: an event below the appender's level does nothing; a passing event
  succeeds exactly when the appender has a formatter that produces a text; the fields the base
  class owns are not written by \<open>log\<close>.
\<close>

locale appender_class =
  fixes logf :: "64 word \<Rightarrow> fmt_env \<Rightarrow> Level \<Rightarrow> LogEvent \<Rightarrow> LogAppender \<times> world
      \<Rightarrow> (LogAppender \<times> world) may_crash"
    and member :: "LogAppender \<Rightarrow> bool"
  assumes below: "member a \<Longrightarrow> level < ap_level a \<Longrightarrow> logf now env level ev (a, w) = Inr (a, w)"
    and fails: "member a \<Longrightarrow> ap_level a \<le> level \<Longrightarrow>
      appender_text env level ev a = Inl e \<Longrightarrow> logf now env level ev (a, w) = Inl e"
    and succeeds: "member a \<Longrightarrow> ap_level a \<le> level \<Longrightarrow>
      appender_text env level ev a = Inr t \<Longrightarrow> \<exists>r. logf now env level ev (a, w) = Inr r"
    and keeps: "member a \<Longrightarrow> logf now env level ev (a, w) = Inr (a', w') \<Longrightarrow>
      member a' \<and> ap_formatter a' = ap_formatter a \<and> ap_level a' = ap_level a
      \<and> ap_has_formatter a' = ap_has_formatter a"
begin

text \<open>A call fails only on a passing event whose text cannot be produced.\<close>

lemma fails_iff:
  assumes "member a"
  shows "logf now env level ev (a, w) = Inl e \<longleftrightarrow>
    ap_level a \<le> level \<and> appender_text env level ev a = Inl e"
proof (cases "ap_level a \<le> level")
  case True
  show ?thesis
  proof (cases "appender_text env level ev a")
    case (Inl e')
    with fails [OF assms True] True show ?thesis by simp
  next
    case (Inr t)
    then obtain r where "logf now env level ev (a, w) = Inr r"
      using succeeds [OF assms True] by blast
    with Inr show ?thesis by simp
  qed
next
  case False
  then have "level < ap_level a" by simp
  with below [OF assms] False show ?thesis by simp
qed

lemma no_crash:
  assumes "member a" and "ap_formatter a \<noteq> None" and "ev_logger ev \<noteq> None"
  shows "\<exists>a' w'. logf now env level ev (a, w) = Inr (a', w')"
proof (cases "logf now env level ev (a, w)")
  case (Inl e)
  with assms(1) have "appender_text env level ev a = Inl e" by (simp add: fails_iff)
  moreover obtain f where "ap_formatter a = Some f" using assms(2) by blast
  moreover obtain t where "format_all env level ev (m_items f) = Inr t"
    using format_all_total [OF assms(3)] by blast
  ultimately show ?thesis by (simp add: appender_text_def LogFormatter_format_def)
qed auto

text \<open>A sequence of events is survived by an appender that has a formatter.\<close>

lemma run_no_crash:
  assumes "member a" and "ap_formatter a \<noteq> None"
    and "\<forall>(now, env, level, ev) \<in> set evs. ev_logger ev \<noteq> None"
  shows "\<exists>a' w'. for_each (\<lambda>(now, env, level, ev). logf now env level ev) evs (a, w) = Inr (a', w')
    \<and> ap_formatter a' = ap_formatter a \<and> ap_level a' = ap_level a"
  using assms
proof (induction evs arbitrary: a w)
  case (Cons x evs)
  obtain now env level ev where x: "x = (now, env, level, ev)" by (cases x)
  with Cons.prems obtain a1 w1 where step: "logf now env level ev (a, w) = Inr (a1, w1)"
    using no_crash [of a ev now env level w] by auto
  with keeps [OF Cons.prems(1) step] Cons.IH [of a1 w1] Cons.prems x show ?case by auto
qed auto

end

interpretation stdout_appender:
  appender_class "\<lambda>now. StdOutLogAppender_log" "\<lambda>a. ap_kind a = StdOutLogAppender"
  by unfold_locales (auto simp: StdOutLogAppender_log_def sum_bind_Inr_iff split: if_splits)

lemma FileLogAppender_log_below:
  "level < ap_level a \<Longrightarrow> FileLogAppender_log now env level ev fp (a, w) = Inr (a, w)"
  by (auto simp: FileLogAppender_log_def)

lemma FileLogAppender_log_pass:
  "ap_level a \<le> level \<Longrightarrow>
   FileLogAppender_log now env level ev fp (a, w) =
     (case appender_text env level ev a of
        Inl e \<Rightarrow> Inl e
      | Inr t \<Rightarrow>
          let r = case_prod (file_write t) (file_refresh now fp w)
          in Inr (a\<lparr>ap_kind := FileLogAppender (fst r)\<rparr>, snd r))"
  by (simp add: FileLogAppender_log_def sum_bind_def Let_def case_prod_beta split: sum.split)

lemma FileLogAppender_log_keeps:
  "FileLogAppender_log now env level ev fp (a, w) = Inr (a', w') \<Longrightarrow>
   ap_formatter a' = ap_formatter a \<and> ap_level a' = ap_level a
   \<and> ap_has_formatter a' = ap_has_formatter a"
  by (cases "ap_level a \<le> level")
    (auto simp: FileLogAppender_log_pass FileLogAppender_log_below not_le Let_def split: sum.splits)

interpretation virtual_appender: appender_class appender_log "\<lambda>a. True"
proof unfold_locales
  fix a w level now env ev
  show "level < ap_level a \<Longrightarrow> appender_log now env level ev (a, w) = Inr (a, w)"
    using stdout_appender.below [of a level]
    by (auto simp: appender_log_def FileLogAppender_log_below split: appender_kind.split)
next
  fix a w level now env ev e
  show "ap_level a \<le> level \<Longrightarrow> appender_text env level ev a = Inl e \<Longrightarrow>
      appender_log now env level ev (a, w) = Inl e"
    using stdout_appender.fails [of a level]
    by (auto simp: appender_log_def FileLogAppender_log_pass split: appender_kind.split)
next
  fix a w level now env ev t
  show "ap_level a \<le> level \<Longrightarrow> appender_text env level ev a = Inr t \<Longrightarrow>
      \<exists>r. appender_log now env level ev (a, w) = Inr r"
    using stdout_appender.succeeds [of a level]
    by (auto simp: appender_log_def FileLogAppender_log_pass Let_def split: appender_kind.split)
next
  fix a w level now env ev a' w'
  show "appender_log now env level ev (a, w) = Inr (a', w') \<Longrightarrow>
      True \<and> ap_formatter a' = ap_formatter a \<and> ap_level a' = ap_level a
      \<and> ap_has_formatter a' = ap_has_formatter a"
    using stdout_appender.keeps [of a env level ev w a' w']
      FileLogAppender_log_keeps [of now env level ev _ a w a' w']
    by (cases "ap_kind a") (auto simp: appender_log_def)
qed

section \<open>What the file holds\<close>

text \<open>The stream of a file appender is open, has not failed, and stands at the end of its file.\<close>

definition file_ok :: "file_part \<Rightarrow> world \<Rightarrow> bool" where
  "file_ok fp w \<longleftrightarrow>
     fs_open (m_filestream fp) \<and> \<not> fs_fail (m_filestream fp)
     \<and> (\<exists>c. w_files w (m_filename fp) = Some c \<and> fs_pos (m_filestream fp) = length c)"

lemma reopen_writable:
  assumes "w_writable w (m_filename fp)"
    and "fs_open (m_filestream fp) \<longrightarrow> \<not> fs_fail (m_filestream fp)"
  shows "reopen fp w =
    (False, fp\<lparr>m_filestream := \<lparr>fs_open = True, fs_fail = False, fs_pos = 0\<rparr>\<rparr>,
     w\<lparr>w_files := (w_files w)(m_filename fp \<mapsto> [])\<rparr>)"
  using assms by (auto simp: reopen_def stream_close_def stream_open_def Let_def)

text \<open>
  \<open>reopen\<close> returns true exactly when the file could \<^bold>\<open>not\<close> be opened (the stream it
  starts from is closed, or open and good, which every call leaves it in); a failed attempt does
  not stop a later one from succeeding.
\<close>

definition stream_usable :: "file_stream \<Rightarrow> bool" where
  "stream_usable fs \<longleftrightarrow> (fs_open fs \<longrightarrow> \<not> fs_fail fs)"

lemma reopen_result:
  assumes "stream_usable (m_filestream fp)" and "reopen fp w = (b, fp', w')"
  shows "stream_usable (m_filestream fp')
    \<and> (if w_writable w (m_filename fp)
        then \<not> b \<and> file_ok fp' w' \<and> w_files w' (m_filename fp) = Some []
        else b \<and> w' = w)"
  using assms
  by (auto simp: reopen_def stream_usable_def stream_close_def stream_open_def Let_def file_ok_def
      split: if_splits)

text \<open>
  C31: What a file appender's log call leaves in its file. The text is written after what was
  there only when exactly three seconds have passed since the recorded time; at every other
  time the file is truncated first, so it holds this one message and nothing of the earlier ones.
\<close>

theorem file_log_content:
  assumes "ap_kind a = FileLogAppender fp" and "file_ok fp w"
    and "w_files w (m_filename fp) = Some c" and "w_writable w (m_filename fp)"
    and "ap_level a \<le> level" and "appender_text env level ev a = Inr t"
  shows "\<exists>a' fp' w'. appender_log now env level ev (a, w) = Inr (a', w')
    \<and> ap_kind a' = FileLogAppender fp' \<and> file_ok fp' w' \<and> m_filename fp' = m_filename fp
    \<and> w_files w' (m_filename fp) =
        Some (if now = m_lastTime fp + 3 then c @ t else t)
    \<and> m_lastTime fp' = (if now = m_lastTime fp + 3 then m_lastTime fp else now)
    \<and> w_stdout w' = w_stdout w"
proof (cases "now = m_lastTime fp + 3")
  case True
  then show ?thesis
    using assms
    by (auto simp: appender_log_def FileLogAppender_log_pass file_refresh_def file_write_def
        stream_write_def file_ok_def write_at_def Let_def)
next
  case False
  have "reopen fp w =
    (False, fp\<lparr>m_filestream := \<lparr>fs_open = True, fs_fail = False, fs_pos = 0\<rparr>\<rparr>,
     w\<lparr>w_files := (w_files w)(m_filename fp \<mapsto> [])\<rparr>)"
    using assms(2,4) by (intro reopen_writable) (auto simp: file_ok_def)
  with False assms show ?thesis
    by (auto simp: appender_log_def FileLogAppender_log_pass file_refresh_def file_write_def
        stream_write_def file_ok_def write_at_def Let_def)
qed

section \<open>Instances\<close>

definition sample_world :: world where
  "sample_world = \<lparr>w_stdout = [], w_files = [''a.txt'' \<mapsto> ''old''], w_writable = (\<lambda>n. n = ''a.txt'')\<rparr>"

definition sample_formatter :: LogFormatter where
  "sample_formatter = \<lparr>m_pattern = ''x'', m_items = [StringFormatItem ''x''], m_error = False\<rparr>"

definition sample_file :: file_part where
  "sample_file = \<lparr>m_filename = ''a.txt'',
     m_filestream = \<lparr>fs_open = True, fs_fail = False, fs_pos = 3\<rparr>, m_lastTime = 100\<rparr>"

definition sample_event :: LogEvent where
  "sample_event = new_LogEvent (Some 0) FATAL ''main.cc'' 7 0 1 0 1000"

definition sample_fmt_env :: fmt_env where
  "sample_fmt_env = \<lparr>env_strftime = (\<lambda>_ _. []), env_logger_name = (\<lambda>_. ''root'')\<rparr>"

lemma reopen_result_witness:
  "fst (reopen (sample_file\<lparr>m_filename := ''b.txt''\<rparr>) sample_world)
   \<and> \<not> fst (reopen sample_file sample_world)
   \<and> w_files (snd (snd (reopen sample_file sample_world))) ''a.txt'' = Some []"
proof -
  have usable: "stream_usable (m_filestream sample_file)"
    "stream_usable (m_filestream (sample_file\<lparr>m_filename := ''b.txt''\<rparr>))"
    by (simp_all add: stream_usable_def sample_file_def)
  obtain b fp w where r: "reopen (sample_file\<lparr>m_filename := ''b.txt''\<rparr>) sample_world = (b, fp, w)"
    by (metis prod_cases3)
  obtain b' fp' w' where r': "reopen sample_file sample_world = (b', fp', w')"
    by (metis prod_cases3)
  from reopen_result [OF usable(2) r] reopen_result [OF usable(1) r'] r r' show ?thesis
    by (simp add: sample_world_def) (simp add: sample_file_def)
qed

theorem file_log_content_witness:
  "(\<exists>a' w'. appender_log 103 sample_fmt_env FATAL sample_event
       ((new_appender (FileLogAppender sample_file))\<lparr>ap_formatter := Some sample_formatter\<rparr>, sample_world)
       = Inr (a', w') \<and> w_files w' ''a.txt'' = Some ''oldx'')
   \<and> (\<exists>a' w'. appender_log 104 sample_fmt_env FATAL sample_event
       ((new_appender (FileLogAppender sample_file))\<lparr>ap_formatter := Some sample_formatter\<rparr>, sample_world)
       = Inr (a', w') \<and> w_files w' ''a.txt'' = Some ''x'')"
proof -
  let ?a = "(new_appender (FileLogAppender sample_file))\<lparr>ap_formatter := Some sample_formatter\<rparr>"
  have "ap_kind ?a = FileLogAppender sample_file" "ap_level ?a \<le> FATAL"
    by (simp_all add: new_appender_def less_eq_Level_def)
  moreover have "file_ok sample_file sample_world"
    "w_files sample_world (m_filename sample_file) = Some ''old''"
    "w_writable sample_world (m_filename sample_file)"
    by (simp_all add: file_ok_def sample_file_def sample_world_def)
  moreover have "appender_text sample_fmt_env FATAL sample_event ?a = Inr ''x''"
    by (simp add: appender_text_def LogFormatter_format_def sample_formatter_def)
  ultimately have "\<exists>a' fp' w'. appender_log now sample_fmt_env FATAL sample_event (?a, sample_world) =
        Inr (a', w')
      \<and> w_files w' (m_filename sample_file) =
        Some (if now = m_lastTime sample_file + 3 then ''old'' @ ''x'' else ''x'')" for now
    using file_log_content [of ?a sample_file sample_world "''old''" FATAL sample_fmt_env sample_event
        "''x''" now] by blast
  from this [of 103] this [of 104] show ?thesis by (simp add: sample_file_def)
qed

end
