(* ===== verification/Logger_Store.thy ===== *)
theory Logger_Store
  imports Log_Appender
begin

text \<open>
  Loggers and the logger manager (\<open>Logger\<close>, \<open>LogEventWrap\<close>, \<open>LoggerManager\<close> of
  \<open>chord/log.h\<close>; \<open>chord/logger.cpp\<close>, lines 216-386, 632-653 and 887-900) and the logging
  macros of \<open>chord/config.h\<close>, lines 22-47. Loggers and appenders are reached through shared
  pointers, and one appender may hang in several loggers, so both live in a store: a map from
  addresses to objects. Objects are never removed from it.
\<close>

section \<open>State\<close>

record Logger =
  lg_name :: string
  lg_level :: Level
  lg_formatter :: "LogFormatter option"
  lg_appenders :: "nat list"
  lg_root :: "nat option"

text \<open>\<open>mgr_loggers\<close> is \<open>LoggerManager::m_logger\<close>, \<open>mgr_root\<close> its \<open>m_root\<close>.\<close>

record log_state =
  loggers :: "nat \<Rightarrow> Logger option"
  appenders :: "nat \<Rightarrow> LogAppender option"
  next_loc :: nat
  mgr_loggers :: "(string \<times> nat) list"
  mgr_root :: nat
  st_world :: world

text \<open>What a log call reads from outside: the clock, as each appender reads it, and \<open>strftime\<close>.\<close>

record log_env =
  le_now :: "nat \<Rightarrow> 64 word"
  le_strftime :: "string \<Rightarrow> 64 word \<Rightarrow> string"

definition logger_name :: "log_state \<Rightarrow> nat \<Rightarrow> string" where
  "logger_name st l = (case loggers st l of None \<Rightarrow> [] | Some g \<Rightarrow> lg_name g)"

definition fmt_env_of :: "log_env \<Rightarrow> log_state \<Rightarrow> fmt_env" where
  "fmt_env_of env st = \<lparr>env_strftime = le_strftime env, env_logger_name = logger_name st\<rparr>"

section \<open>Construction\<close>

definition default_pattern :: string where
  "default_pattern = ''%d{%Y-%m-%d %H:%M:%S}%T%t%T%F%T[%p]%T[%c]%f:%l%T%m%n''"

definition Logger_init :: "string \<Rightarrow> Logger" where
  "Logger_init name =
     \<lparr>lg_name = name, lg_level = DEBUG, lg_formatter = Some (formatter_of default_pattern),
      lg_appenders = [], lg_root = None\<rparr>"

definition new_Logger :: "string \<Rightarrow> log_state \<Rightarrow> nat \<times> log_state" where
  "new_Logger name st =
     (next_loc st,
      st\<lparr>loggers := (loggers st)(next_loc st \<mapsto> Logger_init name), next_loc := next_loc st + 1,
         st_world := print_out (snd (new_LogFormatter default_pattern)) (st_world st)\<rparr>)"

definition alloc_appender :: "LogAppender \<Rightarrow> log_state \<Rightarrow> nat \<times> log_state" where
  "alloc_appender a st =
     (next_loc st,
      st\<lparr>appenders := (appenders st)(next_loc st \<mapsto> a), next_loc := next_loc st + 1\<rparr>)"

definition make_StdOutLogAppender :: "log_state \<Rightarrow> nat \<times> log_state" where
  "make_StdOutLogAppender st = alloc_appender new_StdOutLogAppender st"

definition make_FileLogAppender :: "64 word \<Rightarrow> string \<Rightarrow> log_state \<Rightarrow> nat \<times> log_state" where
  "make_FileLogAppender uninit filename st =
     (case new_FileLogAppender uninit filename (st_world st) of
        (a, w) \<Rightarrow> alloc_appender a (st\<lparr>st_world := w\<rparr>))"

section \<open>Access through a pointer\<close>

definition upd_logger :: "nat \<Rightarrow> (Logger \<Rightarrow> Logger) \<Rightarrow> log_state \<Rightarrow> log_state may_crash" where
  "upd_logger l f st =
     (case loggers st l of
        None \<Rightarrow> Inl Null_deref
      | Some g \<Rightarrow> Inr (st\<lparr>loggers := (loggers st)(l \<mapsto> f g)\<rparr>))"

definition upd_appender :: "nat \<Rightarrow> (LogAppender \<Rightarrow> LogAppender) \<Rightarrow> log_state \<Rightarrow> log_state may_crash"
where
  "upd_appender i f st =
     (case appenders st i of
        None \<Rightarrow> Inl Null_deref
      | Some a \<Rightarrow> Inr (st\<lparr>appenders := (appenders st)(i \<mapsto> f a)\<rparr>))"

definition Logger_setLevel :: "nat \<Rightarrow> Level \<Rightarrow> log_state \<Rightarrow> log_state may_crash" where
  "Logger_setLevel l val = upd_logger l (\<lambda>g. g\<lparr>lg_level := val\<rparr>)"

definition appender_setLevel :: "nat \<Rightarrow> Level \<Rightarrow> log_state \<Rightarrow> log_state may_crash" where
  "appender_setLevel i val = upd_appender i (\<lambda>a. a\<lparr>ap_level := val\<rparr>)"

definition appender_setFormatter ::
  "nat \<Rightarrow> LogFormatter option \<Rightarrow> log_state \<Rightarrow> log_state may_crash" where
  "appender_setFormatter i val = upd_appender i (LogAppender_setFormatter val)"

section \<open>Logger operations\<close>

text \<open>\<open>Logger::setFormatter\<close> and the body of its loop.\<close>

definition pass_formatter :: "LogFormatter option \<Rightarrow> LogAppender \<Rightarrow> LogAppender" where
  "pass_formatter f a = (if \<not> ap_has_formatter a then a\<lparr>ap_formatter := f\<rparr> else a)"

definition Logger_setFormatter ::
  "nat \<Rightarrow> LogFormatter option \<Rightarrow> log_state \<Rightarrow> log_state may_crash" where
  "Logger_setFormatter l val st =
     (case loggers st l of
        None \<Rightarrow> Inl Null_deref
      | Some g \<Rightarrow>
          for_each (\<lambda>i. upd_appender i (pass_formatter val)) (lg_appenders g)
            (st\<lparr>loggers := (loggers st)(l \<mapsto> g\<lparr>lg_formatter := val\<rparr>)\<rparr>))"

definition print_st :: "string \<Rightarrow> log_state \<Rightarrow> log_state" where
  "print_st s st = st\<lparr>st_world := print_out s (st_world st)\<rparr>"

definition Logger_setFormatter_str :: "nat \<Rightarrow> string \<Rightarrow> log_state \<Rightarrow> log_state may_crash" where
  "Logger_setFormatter_str l val st =
     (case loggers st l of
        None \<Rightarrow> Inl Null_deref
      | Some g \<Rightarrow>
          (case new_LogFormatter val of
             (new_val, out) \<Rightarrow>
               if m_error new_val then
                 Inr (print_st (''Logger setFormatter name='' @ lg_name g @ ''value='' @ val
                        @ '' invalid formatter'' @ newline) (print_st out st))
               else Logger_setFormatter l (Some new_val) (print_st out st)))"

definition Logger_addAppender :: "nat \<Rightarrow> nat option \<Rightarrow> log_state \<Rightarrow> log_state may_crash" where
  "Logger_addAppender l appender st =
     (case (loggers st l, appender) of
        (Some g, Some i) \<Rightarrow>
          sum_bind
            (upd_appender i (\<lambda>a. if ap_formatter a = None then a\<lparr>ap_formatter := lg_formatter g\<rparr> else a) st)
            (upd_logger l (\<lambda>g. g\<lparr>lg_appenders := lg_appenders g @ [i]\<rparr>))
      | _ \<Rightarrow> Inl Null_deref)"

definition Logger_clearAppenders :: "nat \<Rightarrow> log_state \<Rightarrow> log_state may_crash" where
  "Logger_clearAppenders l = upd_logger l (\<lambda>g. g\<lparr>lg_appenders := []\<rparr>)"

fun erase_first :: "nat \<Rightarrow> nat list \<Rightarrow> nat list" where
  "erase_first i [] = []"
| "erase_first i (j # js) = (if j = i then js else j # erase_first i js)"

definition Logger_delAppender :: "nat \<Rightarrow> nat \<Rightarrow> log_state \<Rightarrow> log_state may_crash" where
  "Logger_delAppender l i = upd_logger l (\<lambda>g. g\<lparr>lg_appenders := erase_first i (lg_appenders g)\<rparr>)"

section \<open>Logging\<close>

definition log_one :: "log_env \<Rightarrow> Level \<Rightarrow> LogEvent \<Rightarrow> nat \<Rightarrow> log_state \<Rightarrow> log_state may_crash" where
  "log_one env level ev i st =
     (case appenders st i of
        None \<Rightarrow> Inl Null_deref
      | Some a \<Rightarrow>
          sum_bind (appender_log (le_now env i) (fmt_env_of env st) level ev (a, st_world st))
            (\<lambda>(a', w'). Inr (st\<lparr>appenders := (appenders st)(i \<mapsto> a'), st_world := w'\<rparr>)))"

text \<open>
  \<open>Logger::log\<close>. The call on the root logger is the code's recursion; \<open>None\<close> stands for a
  call that does not return, which a chain of \<open>m_root\<close> pointers that closes on itself would
  cause (the second attempt to take the first logger's spin lock never succeeds).
\<close>

partial_function (option) Logger_log ::
  "log_env \<Rightarrow> nat \<Rightarrow> Level \<Rightarrow> LogEvent \<Rightarrow> log_state \<Rightarrow> log_state may_crash option"
where
  "Logger_log env l level ev st =
     (case loggers st l of
        None \<Rightarrow> Some (Inl Null_deref)
      | Some g \<Rightarrow>
          if lg_level g \<le> level then
            (if lg_appenders g \<noteq> [] then Some (for_each (log_one env level ev) (lg_appenders g) st)
             else case lg_root g of
                 Some r \<Rightarrow> Logger_log env r level ev st
               | None \<Rightarrow> Some (Inr st))
          else Some (Inr st))"

definition Logger_debug where "Logger_debug env l ev = Logger_log env l DEBUG ev"
definition Logger_info where "Logger_info env l ev = Logger_log env l INFO ev"
definition Logger_warn where "Logger_warn env l ev = Logger_log env l WARN ev"
definition Logger_fatal where "Logger_fatal env l ev = Logger_log env l FATAL ev"
definition Logger_error where "Logger_error env l ev = Logger_log env l ERROR ev"

text \<open>\<open>LogEventWrap\<close> sends its event to the event's logger when it is destroyed.\<close>

definition LogEventWrap_destroy ::
  "log_env \<Rightarrow> LogEvent \<Rightarrow> log_state \<Rightarrow> log_state may_crash option" where
  "LogEventWrap_destroy env ev st =
     (case ev_logger ev of
        None \<Rightarrow> Some (Inl Null_deref)
      | Some l \<Rightarrow> Logger_log env l (ev_level ev) ev st)"

text \<open>
  The macros \<open>CHORD_LOG_LEVEL(logger, level) << text\<close> and
  \<open>CHORD_LOG_FMT_LEVEL(logger, level, fmt, ...)\<close>; a \<open>log_site\<close> holds \<open>__FILE__\<close>,
  \<open>__LINE__\<close>, the thread and fiber ids and \<open>time(0)\<close>.
\<close>

record log_site =
  ls_file :: string
  ls_line :: "32 word"
  ls_thread :: "32 word"
  ls_fiber :: "32 word"
  ls_time :: "64 word"

definition site_event :: "log_site \<Rightarrow> nat \<Rightarrow> Level \<Rightarrow> LogEvent" where
  "site_event site l level =
     new_LogEvent (Some l) level (ls_file site) (ls_line site) 0 (ls_thread site) (ls_fiber site)
       (ls_time site)"

definition CHORD_LOG_LEVEL ::
  "log_env \<Rightarrow> log_site \<Rightarrow> nat \<Rightarrow> Level \<Rightarrow> string \<Rightarrow> log_state \<Rightarrow> log_state may_crash option" where
  "CHORD_LOG_LEVEL env site l level text st =
     (case loggers st l of
        None \<Rightarrow> Some (Inl Null_deref)
      | Some g \<Rightarrow>
          if lg_level g \<le> level then
            LogEventWrap_destroy env (site_event site l level\<lparr>ev_ss := text\<rparr>) st
          else Some (Inr st))"

definition CHORD_LOG_FMT_LEVEL ::
  "log_env \<Rightarrow> log_site \<Rightarrow> nat \<Rightarrow> Level \<Rightarrow> string option \<Rightarrow> log_state
     \<Rightarrow> log_state may_crash option" where
  "CHORD_LOG_FMT_LEVEL env site l level printed st =
     (case loggers st l of
        None \<Rightarrow> Some (Inl Null_deref)
      | Some g \<Rightarrow>
          if lg_level g \<le> level then
            LogEventWrap_destroy env (LogEvent_format printed (site_event site l level)) st
          else Some (Inr st))"

section \<open>The manager\<close>

definition getLogger :: "string \<Rightarrow> log_state \<Rightarrow> nat \<times> log_state" where
  "getLogger name st =
     (case map_of (mgr_loggers st) name of
        Some l \<Rightarrow> (l, st)
      | None \<Rightarrow>
          (case new_Logger name st of
             (l, st1) \<Rightarrow>
               (l, st1\<lparr>loggers := (loggers st1)(l \<mapsto> (Logger_init name)\<lparr>lg_root := Some (mgr_root st1)\<rparr>),
                       mgr_loggers := smap_put name l (mgr_loggers st1)\<rparr>)))"

text \<open>The constructor of the manager, on an empty store.\<close>

definition empty_state :: "world \<Rightarrow> log_state" where
  "empty_state w =
     \<lparr>loggers = (\<lambda>_. None), appenders = (\<lambda>_. None), next_loc = 0, mgr_loggers = [], mgr_root = 0,
      st_world = w\<rparr>"

definition new_LoggerManager :: "world \<Rightarrow> log_state may_crash" where
  "new_LoggerManager w =
     (case new_Logger ''root'' (empty_state w) of
        (r, st1) \<Rightarrow>
          (case make_StdOutLogAppender st1 of
             (a, st2) \<Rightarrow>
               sum_bind (Logger_addAppender r (Some a) (st2\<lparr>mgr_root := r\<rparr>))
                 (\<lambda>st3. Inr (st3\<lparr>mgr_loggers := smap_put (logger_name st3 r) r (mgr_loggers st3)\<rparr>))))"

end
