(* ===== verification/Logger_Laws.thy ===== *)
theory Logger_Laws
  imports Logger_Store
begin

text \<open>
  What the operations of theory \<open>Logger_Store\<close> keep and what they compute: the store
  invariant and its preservation, termination and safety of logging, level filtering,
  forwarding to the root, the text that is written, the inheritance of formatters, and the
  manager's map from names to loggers.
\<close>

section \<open>The store invariant\<close>

text \<open>
  Every logger has a formatter; every appender hanging in a logger exists and has a formatter;
  a root pointer leads to a logger that has no root itself; addresses in use were handed out.
\<close>

definition logger_ok :: "log_state \<Rightarrow> Logger \<Rightarrow> bool" where
  "logger_ok st g \<longleftrightarrow>
     lg_formatter g \<noteq> None
     \<and> (\<forall>i \<in> set (lg_appenders g). \<exists>a. appenders st i = Some a \<and> ap_formatter a \<noteq> None)
     \<and> (\<forall>r. lg_root g = Some r \<longrightarrow> (\<exists>h. loggers st r = Some h \<and> lg_root h = None))"

definition store_ok :: "log_state \<Rightarrow> bool" where
  "store_ok st \<longleftrightarrow>
     (\<forall>l g. loggers st l = Some g \<longrightarrow> l < next_loc st \<and> logger_ok st g)
     \<and> (\<forall>i a. appenders st i = Some a \<longrightarrow> i < next_loc st)"

lemma store_okD:
  assumes "store_ok st"
  shows "loggers st l = Some g \<Longrightarrow> l < next_loc st"
    and "loggers st l = Some g \<Longrightarrow> logger_ok st g"
    and "appenders st i = Some a \<Longrightarrow> i < next_loc st"
  using assms by (auto simp: store_ok_def)

lemma store_ok_fresh:
  "store_ok st \<Longrightarrow> loggers st (next_loc st) = None \<and> appenders st (next_loc st) = None"
  by (cases "loggers st (next_loc st)"; cases "appenders st (next_loc st)")
    (auto dest: store_okD)

lemma store_ok_world [simp]: "store_ok (st\<lparr>st_world := w\<rparr>) = store_ok st"
  by (simp add: store_ok_def logger_ok_def)

lemma store_ok_mgr [simp]:
  "store_ok (st\<lparr>mgr_loggers := m\<rparr>) = store_ok st"
  "store_ok (st\<lparr>mgr_root := r\<rparr>) = store_ok st"
  by (simp_all add: store_ok_def logger_ok_def)

lemma store_ok_print [simp]: "store_ok (print_st s st) = store_ok st"
  by (simp add: print_st_def)

text \<open>Writing an appender that keeps a formatter once it has one.\<close>

lemma store_ok_write_appender [inv_intros]:
  assumes "store_ok st" and "appenders st i = Some a"
    and "ap_formatter a \<noteq> None \<longrightarrow> ap_formatter a' \<noteq> None"
  shows "store_ok (st\<lparr>appenders := (appenders st)(i \<mapsto> a')\<rparr>)"
proof -
  let ?st = "st\<lparr>appenders := (appenders st)(i \<mapsto> a')\<rparr>"
  have "logger_ok ?st g" if "logger_ok st g" for g
    using that assms(2,3) by (auto simp: logger_ok_def)
  then show ?thesis
    using store_okD [OF assms(1)] assms(2) by (auto simp: store_ok_def)
qed

text \<open>Writing a logger that stays well-formed and keeps its root pointer.\<close>

lemma store_ok_write_logger [inv_intros]:
  assumes "store_ok st" and "loggers st l = Some g" and "lg_root g' = lg_root g"
    and "lg_formatter g' \<noteq> None"
    and "\<forall>i \<in> set (lg_appenders g'). \<exists>a. appenders st i = Some a \<and> ap_formatter a \<noteq> None"
  shows "store_ok (st\<lparr>loggers := (loggers st)(l \<mapsto> g')\<rparr>)"
proof -
  have roots: "\<exists>h. ((loggers st)(l \<mapsto> g')) r = Some h \<and> lg_root h = None"
    if "loggers st k = Some f" "lg_root f = Some r" for k f r
  proof -
    from store_okD(2) [OF assms(1) that(1)] that(2)
    obtain h where "loggers st r = Some h" "lg_root h = None" by (auto simp: logger_ok_def)
    with assms(2,3) show ?thesis by (cases "r = l") auto
  qed
  let ?st = "st\<lparr>loggers := (loggers st)(l \<mapsto> g')\<rparr>"
  have "k < next_loc st \<and> logger_ok ?st f" if "loggers ?st k = Some f" for k f
  proof (cases "k = l")
    case True
    with that have "f = g'" by simp
    with roots [OF assms(2)] assms(3-5) store_okD(1) [OF assms(1,2)] True show ?thesis
      by (simp add: logger_ok_def)
  next
    case False
    with that have k: "loggers st k = Some f" by simp
    from store_okD(2) [OF assms(1) k] roots [OF k] store_okD(1) [OF assms(1) k] show ?thesis
      by (simp add: logger_ok_def)
  qed
  with store_okD(3) [OF assms(1)] show ?thesis by (simp add: store_ok_def)
qed

lemma upd_appender_Some:
  "appenders st i = Some a \<Longrightarrow>
   upd_appender i f st = Inr (st\<lparr>appenders := (appenders st)(i \<mapsto> f a)\<rparr>)"
  by (simp add: upd_appender_def)

lemma upd_logger_Some:
  "loggers st l = Some g \<Longrightarrow> upd_logger l f st = Inr (st\<lparr>loggers := (loggers st)(l \<mapsto> f g)\<rparr>)"
  by (simp add: upd_logger_def)

lemma store_ok_upd_appender:
  assumes "store_ok st" and "upd_appender i f st = Inr st'"
    and "\<And>a. ap_formatter a \<noteq> None \<Longrightarrow> ap_formatter (f a) \<noteq> None"
  shows "store_ok st'"
  using assms by (auto simp: upd_appender_def intro: inv_intros split: option.splits)

section \<open>Logging keeps the store\<close>

text \<open>
  A log call writes no logger and no manager field, and of an appender only the file part.
\<close>

definition base_part :: "LogAppender \<Rightarrow> LogFormatter option \<times> Level \<times> bool" where
  "base_part a = (ap_formatter a, ap_level a, ap_has_formatter a)"

definition log_frame :: "log_state \<Rightarrow> log_state \<Rightarrow> bool" where
  "log_frame st st' \<longleftrightarrow>
     loggers st' = loggers st \<and> next_loc st' = next_loc st \<and> mgr_loggers st' = mgr_loggers st
     \<and> mgr_root st' = mgr_root st
     \<and> (\<forall>i. map_option base_part (appenders st' i) = map_option base_part (appenders st i))"

lemma log_frame_refl [simp]: "log_frame st st"
  by (simp add: log_frame_def)

lemma log_frame_trans: "log_frame s t \<Longrightarrow> log_frame t u \<Longrightarrow> log_frame s u"
  by (simp add: log_frame_def)

lemma log_frame_Some:
  assumes "log_frame st st'" and "appenders st i = Some a"
  obtains a' where "appenders st' i = Some a'" and "base_part a' = base_part a"
proof -
  from assms have "map_option base_part (appenders st' i) = Some (base_part a)"
    by (simp add: log_frame_def)
  then show thesis using that by auto
qed

lemma log_frame_None: "log_frame st st' \<Longrightarrow> appenders st i = None \<Longrightarrow> appenders st' i = None"
  unfolding log_frame_def by (metis map_option_is_None)

lemma log_frame_formatter:
  assumes "log_frame st st'" and "\<exists>a. appenders st i = Some a \<and> ap_formatter a \<noteq> None"
  shows "\<exists>a. appenders st' i = Some a \<and> ap_formatter a \<noteq> None"
proof -
  from assms(2) obtain a where "appenders st i = Some a" "ap_formatter a \<noteq> None" by blast
  with assms(1) show ?thesis by (elim log_frame_Some) (auto simp: base_part_def)
qed

lemma log_frame_store_ok:
  assumes "log_frame st st'" and "store_ok st"
  shows "store_ok st'"
proof -
  have eqs: "loggers st' = loggers st" "next_loc st' = next_loc st"
    using assms(1) by (simp_all add: log_frame_def)
  have "i < next_loc st" if "appenders st' i = Some a'" for i a'
    using that log_frame_None [OF assms(1), of i] store_okD(3) [OF assms(2)]
    by (cases "appenders st i") auto
  moreover have "logger_ok st' g" if "logger_ok st g" for g
    using that log_frame_formatter [OF assms(1)] eqs by (simp add: logger_ok_def)
  ultimately show ?thesis
    using store_okD [OF assms(2)] eqs by (auto simp: store_ok_def)
qed

lemma log_one_frame: "log_one env level ev i st = Inr st' \<Longrightarrow> log_frame st st'"
  by (auto simp: log_one_def log_frame_def base_part_def sum_bind_Inr_iff
      dest!: virtual_appender.keeps [OF TrueI] split: option.splits)

lemma log_loop_frame: "for_each (log_one env level ev) is st = Inr st' \<Longrightarrow> log_frame st st'"
  by (rule for_each_invariant [where I = "log_frame st"])
    (auto intro: log_one_frame log_frame_trans)

lemma log_one_total:
  assumes "appenders st i = Some a" and "ap_formatter a \<noteq> None" and "ev_logger ev \<noteq> None"
  shows "\<exists>st'. log_one env level ev i st = Inr st'"
proof -
  obtain a' w' where
    "appender_log (le_now env i) (fmt_env_of env st) level ev (a, st_world st) = Inr (a', w')"
    using virtual_appender.no_crash [OF TrueI assms(2,3)] by blast
  with assms(1) show ?thesis by (simp add: log_one_def)
qed

lemma log_loop_total:
  assumes "\<forall>i \<in> set is. \<exists>a. appenders st i = Some a \<and> ap_formatter a \<noteq> None"
    and "ev_logger ev \<noteq> None"
  shows "\<exists>st'. for_each (log_one env level ev) is st = Inr st'"
proof -
  have "\<exists>st'. for_each (log_one env level ev) is st = Inr st' \<and> log_frame st st'"
  proof (rule for_each_total [where I = "log_frame st"])
    fix i s
    assume "i \<in> set is" and frame: "log_frame st s"
    then obtain a where "appenders s i = Some a" "ap_formatter a \<noteq> None"
      using assms(1) log_frame_formatter [OF frame] by blast
    from log_one_total [OF this assms(2)] obtain s' where "log_one env level ev i s = Inr s'" by blast
    with log_one_frame [OF this] log_frame_trans [OF frame]
    show "\<exists>s'. log_one env level ev i s = Inr s' \<and> log_frame st s'" by blast
  qed simp
  then show ?thesis by blast
qed

text \<open>The cases of a log call, as rewriting rules.\<close>

lemma Logger_log_below:
  "loggers st l = Some g \<Longrightarrow> level < lg_level g \<Longrightarrow> Logger_log env l level ev st = Some (Inr st)"
  by (auto simp: Logger_log.simps)

lemma Logger_log_appenders:
  "loggers st l = Some g \<Longrightarrow> lg_level g \<le> level \<Longrightarrow> lg_appenders g \<noteq> [] \<Longrightarrow>
   Logger_log env l level ev st = Some (for_each (log_one env level ev) (lg_appenders g) st)"
  by (simp add: Logger_log.simps)

lemma Logger_log_root:
  "loggers st l = Some g \<Longrightarrow> lg_level g \<le> level \<Longrightarrow> lg_appenders g = [] \<Longrightarrow>
   Logger_log env l level ev st =
     (case lg_root g of Some r \<Rightarrow> Logger_log env r level ev st | None \<Rightarrow> Some (Inr st))"
  by (subst Logger_log.simps) simp

lemmas Logger_log_cases = Logger_log_below Logger_log_appenders Logger_log_root

lemma Logger_log_rootless:
  assumes "store_ok st" and "loggers st l = Some g" and "lg_root g = None" and "ev_logger ev \<noteq> None"
  shows "\<exists>st'. Logger_log env l level ev st = Some (Inr st') \<and> log_frame st st'"
proof -
  have "\<forall>i \<in> set (lg_appenders g). \<exists>a. appenders st i = Some a \<and> ap_formatter a \<noteq> None"
    using store_okD(2) [OF assms(1,2)] by (simp add: logger_ok_def)
  from log_loop_total [OF this assms(4)] obtain st' where
    loop: "for_each (log_one env level ev) (lg_appenders g) st = Inr st'" by blast
  consider "level < lg_level g" | "lg_level g \<le> level" "lg_appenders g \<noteq> []"
    | "lg_level g \<le> level" "lg_appenders g = []" by fastforce
  then show ?thesis
    by cases (use assms(2,3) loop log_loop_frame in \<open>auto simp: Logger_log_cases\<close>)
qed

lemma Logger_log_ok:
  assumes "store_ok st" and "loggers st l = Some g" and "ev_logger ev \<noteq> None"
  shows "\<exists>st'. Logger_log env l level ev st = Some (Inr st') \<and> log_frame st st' \<and> store_ok st'"
proof -
  have "\<exists>st'. Logger_log env l level ev st = Some (Inr st') \<and> log_frame st st'"
  proof (cases "lg_level g \<le> level \<and> lg_appenders g = []")
    case True
    show ?thesis
    proof (cases "lg_root g")
      case None
      with True assms(2) show ?thesis by (simp add: Logger_log_root)
    next
      case (Some r)
      with store_okD(2) [OF assms(1,2)] obtain h where "loggers st r = Some h" "lg_root h = None"
        by (auto simp: logger_ok_def)
      from Logger_log_rootless [OF assms(1) this assms(3)] True Some assms(2) show ?thesis
        by (simp add: Logger_log_root)
    qed
  next
    case False
    have "\<forall>i \<in> set (lg_appenders g). \<exists>a. appenders st i = Some a \<and> ap_formatter a \<noteq> None"
      using store_okD(2) [OF assms(1,2)] by (simp add: logger_ok_def)
    from log_loop_total [OF this assms(3)] obtain st' where
      loop: "for_each (log_one env level ev) (lg_appenders g) st = Inr st'" by blast
    show ?thesis
    proof (cases "lg_level g \<le> level")
      case True
      with False assms(2) loop log_loop_frame [OF loop] show ?thesis
        by (simp add: Logger_log_appenders)
    next
      case below: False
      with assms(2) show ?thesis by (simp add: Logger_log_below not_le)
    qed
  qed
  with log_frame_store_ok assms(1) show ?thesis by blast
qed

text \<open>
  C16: In a well-formed store a log call on any logger returns, directly or through the logging
  macros: the recursion through the root pointer ends, no null pointer is dereferenced, no
  logger is changed, and the store is well-formed again.
\<close>

theorem Logger_log_returns:
  assumes "store_ok st" and "loggers st l = Some g" and "ev_logger ev \<noteq> None"
  shows "(\<exists>st'. Logger_log env l level ev st = Some (Inr st')
      \<and> log_frame st st' \<and> store_ok st')
    \<and> (\<exists>st'. CHORD_LOG_LEVEL env site l level text st = Some (Inr st')
      \<and> log_frame st st' \<and> store_ok st')
    \<and> (\<exists>st'. CHORD_LOG_FMT_LEVEL env site l level printed st = Some (Inr st')
      \<and> log_frame st st' \<and> store_ok st')"
proof -
  note ok = Logger_log_ok [OF assms(1,2)]
  have "ev_logger (LogEvent_format printed (site_event site l level)) = Some l"
    by (simp add: site_event_def new_LogEvent_def LogEvent_format_def split: option.split)
  moreover have "ev_logger (site_event site l level\<lparr>ev_ss := text\<rparr>) = Some l"
    by (simp add: site_event_def new_LogEvent_def)
  ultimately show ?thesis
    using ok [OF assms(3), of env level]
      ok [of "site_event site l level\<lparr>ev_ss := text\<rparr>" env]
      ok [of "LogEvent_format printed (site_event site l level)" env] assms(1,2)
    by (auto simp: CHORD_LOG_LEVEL_def CHORD_LOG_FMT_LEVEL_def LogEventWrap_destroy_def)
qed

section \<open>What a log call writes\<close>

text \<open>
  An event below the logger's level changes nothing; a logger without appenders hands a
  passing event to its root, where the root's own level decides again.
\<close>

lemma Logger_log_filter_and_forward:
  assumes "loggers st l = Some g"
  shows "(level < lg_level g \<longrightarrow> Logger_log env l level ev st = Some (Inr st))
    \<and> (lg_level g \<le> level \<longrightarrow> lg_appenders g = [] \<longrightarrow> lg_root g = None \<longrightarrow>
         Logger_log env l level ev st = Some (Inr st))
    \<and> (\<forall>r h. lg_level g \<le> level \<longrightarrow> lg_appenders g = [] \<longrightarrow> lg_root g = Some r \<longrightarrow>
         loggers st r = Some h \<longrightarrow>
         Logger_log env l level ev st =
           (if level < lg_level h then Some (Inr st) else Logger_log env r level ev st))"
  using assms by (auto simp: Logger_log_cases)

text \<open>The text one appender contributes, and the effect of the loop when all go to standard output.\<close>

definition appender_output :: "fmt_env \<Rightarrow> Level \<Rightarrow> LogEvent \<Rightarrow> LogAppender \<Rightarrow> string" where
  "appender_output env level ev a =
     (if ap_level a \<le> level then
        (case appender_text env level ev a of Inl e \<Rightarrow> [] | Inr t \<Rightarrow> t) else [])"

definition output_at :: "log_env \<Rightarrow> Level \<Rightarrow> LogEvent \<Rightarrow> log_state \<Rightarrow> nat \<Rightarrow> string" where
  "output_at env level ev st i =
     (case appenders st i of
        None \<Rightarrow> [] | Some a \<Rightarrow> appender_output (fmt_env_of env st) level ev a)"

lemma log_one_stdout:
  assumes "appenders st i = Some a" and "ap_kind a = StdOutLogAppender"
    and "ap_formatter a \<noteq> None" and "ev_logger ev \<noteq> None"
  shows "log_one env level ev i st = Inr (print_st (output_at env level ev st i) st)"
proof -
  have same: "st\<lparr>appenders := (appenders st)(i \<mapsto> a), st_world := w\<rparr> = st\<lparr>st_world := w\<rparr>" for w
    using assms(1) by (simp add: fun_upd_idem)
  obtain f where f: "ap_formatter a = Some f" using assms(3) by blast
  obtain t where "format_all (fmt_env_of env st) level ev (m_items f) = Inr t"
    using format_all_total [OF assms(4)] by blast
  with f have "appender_text (fmt_env_of env st) level ev a = Inr t"
    by (simp add: appender_text_def LogFormatter_format_def)
  with assms same show ?thesis
    by (simp add: log_one_def appender_log_def StdOutLogAppender_log_def output_at_def
        appender_output_def print_st_def print_out_def)
qed

lemma fmt_env_of_print [simp]: "fmt_env_of env (print_st s st) = fmt_env_of env st"
  by (simp add: fmt_env_of_def print_st_def logger_name_def fun_eq_iff)

lemma output_at_print [simp]: "output_at env level ev (print_st s st) i = output_at env level ev st i"
  unfolding output_at_def fmt_env_of_print by (simp add: print_st_def)

lemma print_st_print [simp]: "print_st t (print_st s st) = print_st (s @ t) st"
  by (simp add: print_st_def print_out_def)

lemma print_st_Nil [simp]: "print_st [] st = st"
  by (simp add: print_st_def print_out_def)

lemma print_st_fields [simp]:
  "appenders (print_st s st) = appenders st" "loggers (print_st s st) = loggers st"
  by (simp_all add: print_st_def)

lemma log_loop_stdout:
  assumes "\<forall>i \<in> set is. \<exists>a. appenders st i = Some a \<and> ap_kind a = StdOutLogAppender
      \<and> ap_formatter a \<noteq> None" and "ev_logger ev \<noteq> None"
  shows "for_each (log_one env level ev) is st =
    Inr (print_st (concat (map (output_at env level ev st) is)) st)"
  using assms(1)
proof (induction "is" arbitrary: st)
  case (Cons i "is")
  from Cons.prems obtain a where "appenders st i = Some a" "ap_kind a = StdOutLogAppender"
    "ap_formatter a \<noteq> None" by auto
  from log_one_stdout [OF this assms(2)] Cons.IH [of "print_st (output_at env level ev st i) st"]
    Cons.prems
  show ?case by simp
qed simp

text \<open>
  C17: On a logger with at least one appender whose appenders all write to standard output, an
  event that reaches the logger's level prints the texts of the appenders whose level it reaches,
  in the order of the list, and changes nothing else; the logging macro with this logger does the
  same for the event it builds.
\<close>

theorem Logger_log_stdout:
  assumes "store_ok st" and "loggers st l = Some g" and "lg_appenders g \<noteq> []"
    and "\<forall>i \<in> set (lg_appenders g). \<exists>a. appenders st i = Some a \<and> ap_kind a = StdOutLogAppender"
    and "lg_level g \<le> level"
  shows "(\<forall>ev. ev_logger ev \<noteq> None \<longrightarrow> Logger_log env l level ev st =
      Some (Inr (print_st (concat (map (output_at env level ev st) (lg_appenders g))) st)))
    \<and> CHORD_LOG_LEVEL env site l level text st =
      Some (Inr (print_st (concat (map (output_at env level (site_event site l level\<lparr>ev_ss := text\<rparr>) st)
        (lg_appenders g))) st))"
proof -
  have "\<forall>i \<in> set (lg_appenders g). \<exists>a. appenders st i = Some a \<and> ap_kind a = StdOutLogAppender
      \<and> ap_formatter a \<noteq> None"
    using assms(4) store_okD(2) [OF assms(1,2)] by (fastforce simp: logger_ok_def)
  from log_loop_stdout [OF this] have log: "\<forall>ev. ev_logger ev \<noteq> None \<longrightarrow>
      Logger_log env l level ev st =
      Some (Inr (print_st (concat (map (output_at env level ev st) (lg_appenders g))) st))"
    using assms(2,3,5) by (simp add: Logger_log_appenders)
  moreover have "ev_level (site_event site l level\<lparr>ev_ss := text\<rparr>) = level"
    "ev_logger (site_event site l level\<lparr>ev_ss := text\<rparr>) = Some l"
    by (simp_all add: site_event_def new_LogEvent_def)
  ultimately show ?thesis
    using assms(2,5) by (simp add: CHORD_LOG_LEVEL_def LogEventWrap_destroy_def)
qed

section \<open>Formatters\<close>

lemma pass_formatter_idem [simp]: "pass_formatter f (pass_formatter f a) = pass_formatter f a"
  by (simp add: pass_formatter_def)

lemma pass_loop:
  "\<forall>i \<in> set is. appenders st i \<noteq> None \<Longrightarrow>
   for_each (\<lambda>i. upd_appender i (pass_formatter f)) is st =
     Inr (st\<lparr>appenders := (\<lambda>i. if i \<in> set is then map_option (pass_formatter f) (appenders st i)
                            else appenders st i)\<rparr>)"
proof (induction "is" arbitrary: st)
  case (Cons i "is")
  from Cons.prems obtain a where a: "appenders st i = Some a" by auto
  let ?st = "st\<lparr>appenders := (appenders st)(i \<mapsto> pass_formatter f a)\<rparr>"
  have "for_each (\<lambda>i. upd_appender i (pass_formatter f)) is ?st =
     Inr (?st\<lparr>appenders := (\<lambda>j. if j \<in> set is then map_option (pass_formatter f) (appenders ?st j)
                            else appenders ?st j)\<rparr>)"
    using Cons.prems by (intro Cons.IH) auto
  moreover have "(\<lambda>j. if j \<in> set is then map_option (pass_formatter f) (appenders ?st j)
        else appenders ?st j) =
      (\<lambda>j. if j \<in> set (i # is) then map_option (pass_formatter f) (appenders st j)
        else appenders st j)"
    using a by (auto simp: fun_eq_iff)
  ultimately show ?case using a by (simp add: upd_appender_Some)
qed simp

text \<open>
  Setting a logger's formatter. The logger and exactly those of its appenders that have no
  formatter of their own get it; appenders with their own keep it, and no other object changes.
\<close>

lemma Logger_setFormatter_eq:
  assumes "store_ok st" and "loggers st l = Some g"
  shows "Logger_setFormatter l val st =
    Inr (st\<lparr>loggers := (loggers st)(l \<mapsto> g\<lparr>lg_formatter := val\<rparr>),
            appenders := (\<lambda>i. case appenders st i of
                None \<Rightarrow> None
              | Some a \<Rightarrow> Some (if i \<in> set (lg_appenders g) \<and> \<not> ap_has_formatter a
                              then a\<lparr>ap_formatter := val\<rparr> else a))\<rparr>)"
proof -
  let ?st = "st\<lparr>loggers := (loggers st)(l \<mapsto> g\<lparr>lg_formatter := val\<rparr>)\<rparr>"
  have "\<forall>i \<in> set (lg_appenders g). appenders ?st i \<noteq> None"
    using store_okD(2) [OF assms] by (auto simp: logger_ok_def)
  from pass_loop [OF this, of val] show ?thesis
    using assms(2)
    by (auto simp: Logger_setFormatter_def pass_formatter_def fun_eq_iff split: option.splits)
qed

text \<open>
  Setting a formatter by pattern: a pattern with an error leaves every logger and every
  appender as it was (only a line is printed); any other pattern acts as setting the formatter
  built from it, which is then the logger's.
\<close>

lemma Logger_setFormatter_str_spec:
  assumes "store_ok st" and "loggers st l = Some g"
  shows "\<exists>st'. Logger_setFormatter_str l val st = Inr st' \<and>
    (if m_error (formatter_of val)
     then loggers st' = loggers st \<and> appenders st' = appenders st \<and> mgr_loggers st' = mgr_loggers st
     else Logger_setFormatter l (Some (formatter_of val)) (print_st (snd (new_LogFormatter val)) st)
            = Inr st'
          \<and> (\<exists>g'. loggers st' l = Some g' \<and> lg_formatter g' = Some (formatter_of val)))"
proof (cases "m_error (formatter_of val)")
  case True
  then show ?thesis
    using assms by (auto simp: Logger_setFormatter_str_def print_st_def split: prod.splits)
next
  case False
  have "store_ok (print_st (snd (new_LogFormatter val)) st)" using assms(1) by simp
  from Logger_setFormatter_eq [OF this, of l g "Some (formatter_of val)"] assms(2) False
  show ?thesis
    by (auto simp: Logger_setFormatter_str_def split: prod.splits)
qed

text \<open>
  A logger's appenders without a formatter of their own show the logger's formatter. Sharing an
  appender between loggers can break this; setting the formatter restores it.
\<close>

definition inherits :: "log_state \<Rightarrow> nat \<Rightarrow> bool" where
  "inherits st l \<longleftrightarrow>
     (\<forall>g i a. loggers st l = Some g \<longrightarrow> i \<in> set (lg_appenders g) \<longrightarrow> appenders st i = Some a \<longrightarrow>
        \<not> ap_has_formatter a \<longrightarrow> ap_formatter a = lg_formatter g)"

lemma Logger_addAppender_eq:
  assumes "loggers st l = Some g" and "appenders st i = Some a"
  shows "Logger_addAppender l (Some i) st =
    Inr (st\<lparr>appenders := (appenders st)(i \<mapsto>
              if ap_formatter a = None then a\<lparr>ap_formatter := lg_formatter g\<rparr> else a),
            loggers := (loggers st)(l \<mapsto> g\<lparr>lg_appenders := lg_appenders g @ [i]\<rparr>)\<rparr>)"
  using assms by (simp add: Logger_addAppender_def upd_appender_def upd_logger_def)

text \<open>
  C30: Formatter inheritance. \<open>addAppender\<close> puts the appender at the end of the logger's list, gives it
  the logger's formatter if it has none and otherwise leaves it alone. If the appenders of the
  logger showed its formatter before, unless they had their own, they do so after it exactly if
  the new one had no formatter, has its own, or carries the logger's: an appender that carries
  the formatter of another logger keeps it. Setting the logger's formatter always establishes it.
\<close>

theorem formatter_inheritance:
  assumes "store_ok st" and "loggers st l = Some g" and "appenders st i = Some a"
  shows "(\<exists>st' g' a'. Logger_addAppender l (Some i) st = Inr st'
        \<and> loggers st' l = Some g' \<and> lg_appenders g' = lg_appenders g @ [i]
        \<and> appenders st' i = Some a'
        \<and> ap_formatter a' = (if ap_formatter a = None then lg_formatter g else ap_formatter a)
        \<and> (inherits st l \<longrightarrow> (inherits st' l \<longleftrightarrow>
             ap_formatter a = None \<or> ap_has_formatter a \<or> ap_formatter a = lg_formatter g)))
    \<and> (\<exists>st'. Logger_setFormatter l val st = Inr st' \<and> inherits st' l)"
proof
  show "\<exists>st' g' a'. Logger_addAppender l (Some i) st = Inr st'
        \<and> loggers st' l = Some g' \<and> lg_appenders g' = lg_appenders g @ [i]
        \<and> appenders st' i = Some a'
        \<and> ap_formatter a' = (if ap_formatter a = None then lg_formatter g else ap_formatter a)
        \<and> (inherits st l \<longrightarrow> (inherits st' l \<longleftrightarrow>
             ap_formatter a = None \<or> ap_has_formatter a \<or> ap_formatter a = lg_formatter g))"
    using assms(2,3) by (auto simp: Logger_addAppender_eq inherits_def)
next
  show "\<exists>st'. Logger_setFormatter l val st = Inr st' \<and> inherits st' l"
    using Logger_setFormatter_eq [OF assms(1,2), of val] assms(2)
    by (auto simp: inherits_def split: option.splits if_splits)
qed

text \<open>
  A null pointer is accepted as a formatter: the next event that reaches an appender of the logger
  without its own formatter dereferences it.
\<close>

lemma null_formatter_crashes:
  assumes "store_ok st" and "loggers st l = Some g" and "lg_appenders g = i # is"
    and "appenders st i = Some a" and "\<not> ap_has_formatter a"
    and "lg_level g \<le> level" and "ap_level a \<le> level"
  shows "\<exists>st'. Logger_setFormatter l None st = Inr st'
    \<and> Logger_log env l level ev st' = Some (Inl Null_deref)"
proof -
  obtain st' where st': "Logger_setFormatter l None st = Inr st'"
    "loggers st' l = Some (g\<lparr>lg_formatter := None\<rparr>)" "appenders st' i = Some (a\<lparr>ap_formatter := None\<rparr>)"
    using Logger_setFormatter_eq [OF assms(1,2), of None] assms(3-5) by simp
  have "log_one env level ev i st' = Inl Null_deref"
    using st'(3) assms(7)
    by (simp add: log_one_def appender_log_def StdOutLogAppender_log_def FileLogAppender_log_def
        appender_text_def split: appender_kind.split prod.split)
  with st' assms(3,6) show ?thesis by (simp add: Logger_log_appenders)
qed

section \<open>Instances\<close>

text \<open>
  A store with the root logger 0 at level WARN, its standard output appender 1, and a logger 2
  without appenders under the root.
\<close>

definition sample_root :: Logger where
  "sample_root = \<lparr>lg_name = ''root'', lg_level = WARN, lg_formatter = Some sample_formatter,
     lg_appenders = [1], lg_root = None\<rparr>"

definition sample_child :: Logger where
  "sample_child = \<lparr>lg_name = ''net'', lg_level = DEBUG, lg_formatter = Some sample_formatter,
     lg_appenders = [], lg_root = Some 0\<rparr>"

definition sample_store :: log_state where
  "sample_store =
     \<lparr>loggers = [0 \<mapsto> sample_root, 2 \<mapsto> sample_child],
      appenders = [1 \<mapsto> new_StdOutLogAppender\<lparr>ap_formatter := Some sample_formatter\<rparr>,
                   3 \<mapsto> new_StdOutLogAppender],
      next_loc = 4, mgr_loggers = [(''net'', 2), (''root'', 0)], mgr_root = 0,
      st_world = sample_world\<rparr>"

definition sample_env :: log_env where
  "sample_env = \<lparr>le_now = (\<lambda>_. 1000), le_strftime = (\<lambda>_ _. [])\<rparr>"

definition sample_site :: log_site where
  "sample_site = \<lparr>ls_file = ''main.cc'', ls_line = 7, ls_thread = 1, ls_fiber = 0, ls_time = 1000\<rparr>"

lemma sample_store_ok: "store_ok sample_store"
  by (auto simp: store_ok_def logger_ok_def sample_store_def sample_root_def sample_child_def
      new_StdOutLogAppender_def new_appender_def split: if_splits)

lemma sample_loggers:
  "loggers sample_store 0 = Some sample_root" "loggers sample_store 2 = Some sample_child"
  by (simp_all add: sample_store_def)

theorem Logger_log_returns_witness:
  "\<exists>st'. CHORD_LOG_LEVEL sample_env sample_site 2 FATAL ''hi'' sample_store = Some (Inr st')
    \<and> store_ok st'"
  using Logger_log_returns [OF sample_store_ok sample_loggers(2), of sample_event]
  by (fastforce simp: sample_event_def new_LogEvent_def)

lemma Logger_log_filter_and_forward_witness:
  "Logger_log sample_env 0 INFO sample_event sample_store = Some (Inr sample_store)
   \<and> Logger_log sample_env 2 INFO sample_event sample_store = Some (Inr sample_store)
   \<and> Logger_log sample_env 2 FATAL sample_event sample_store
       = Logger_log sample_env 0 FATAL sample_event sample_store"
  using Logger_log_filter_and_forward [OF sample_loggers(1), of INFO sample_env sample_event]
    Logger_log_filter_and_forward [OF sample_loggers(2), of INFO sample_env sample_event]
    Logger_log_filter_and_forward [OF sample_loggers(2), of FATAL sample_env sample_event]
    sample_loggers(1)
  by (simp add: sample_root_def sample_child_def)

theorem Logger_log_stdout_witness:
  "\<exists>st'. CHORD_LOG_LEVEL sample_env sample_site 0 FATAL ''hi'' sample_store = Some (Inr st')
    \<and> w_stdout (st_world st') = ''x''"
proof -
  have root: "lg_appenders sample_root = [1]" "lg_level sample_root \<le> FATAL"
    by (simp_all add: sample_root_def)
  have "\<forall>i \<in> set (lg_appenders sample_root). \<exists>a. appenders sample_store i = Some a
      \<and> ap_kind a = StdOutLogAppender"
    by (simp add: root sample_store_def new_StdOutLogAppender_def new_appender_def)
  moreover have "lg_appenders sample_root \<noteq> []" using root by simp
  ultimately have "CHORD_LOG_LEVEL sample_env sample_site 0 FATAL ''hi'' sample_store =
      Some (Inr (print_st (concat (map (output_at sample_env FATAL
        (site_event sample_site 0 FATAL\<lparr>ev_ss := ''hi''\<rparr>) sample_store) [1])) sample_store))"
    using Logger_log_stdout [OF sample_store_ok sample_loggers(1)] root by metis
  then show ?thesis
    by (simp add: output_at_def appender_output_def appender_text_def LogFormatter_format_def
        sample_store_def sample_formatter_def new_StdOutLogAppender_def new_appender_def
        print_st_def print_out_def sample_world_def)
qed

lemma Logger_setFormatter_str_spec_witness:
  "\<exists>st' g'. Logger_setFormatter_str 0 ''%m'' sample_store = Inr st' \<and> loggers st' 0 = Some g'
    \<and> lg_formatter g' = Some (formatter_of ''%m'')"
proof -
  have "wf_pieces [Dir ''m'' None]" "render [Dir ''m'' None] = ''%m''"
    by (simp_all add: isalpha_def name_char_def render_def)
  with formatter_render [of "[Dir ''m'' None]"] have "\<not> m_error (formatter_of ''%m'')"
    by (simp add: known_piece_def s_format_items_def)
  with Logger_setFormatter_str_spec [OF sample_store_ok sample_loggers(1), of "''%m''"]
  show ?thesis by auto
qed

theorem formatter_inheritance_witness:
  "\<exists>st' a'. Logger_addAppender 0 (Some 3) sample_store = Inr st' \<and> inherits st' 0
    \<and> appenders st' 3 = Some a' \<and> ap_formatter a' = Some sample_formatter"
proof -
  have a: "appenders sample_store 3 = Some new_StdOutLogAppender" by (simp add: sample_store_def)
  have "inherits sample_store 0"
    by (auto simp: inherits_def sample_store_def sample_root_def split: if_splits)
  with formatter_inheritance [OF sample_store_ok sample_loggers(1) a, of None]
  show ?thesis by (auto simp: new_StdOutLogAppender_def new_appender_def sample_root_def)
qed

end
