(* ===== verification/Registry.thy ===== *)
theory Registry
  imports Chord_Prelude
begin

text \<open>
  The contract of a get-or-create registry: the logger manager (\<open>getLogger\<close>) and the
  configuration (\<open>Config::Lookup\<close> with a default value) both hand out the object of a name and
  create it the first time. The client lemmas are proved here once, and both components
  interpret the locale.
\<close>

locale registry =
  fixes find_entry :: "'s \<Rightarrow> 'k \<Rightarrow> 'v option"
    and acquire :: "'k \<Rightarrow> 's \<Rightarrow> 'v \<times> 's"
    and invar :: "'s \<Rightarrow> bool"
    and permitted :: "'s \<Rightarrow> 'k \<Rightarrow> bool"
  assumes acquired: "invar s \<Longrightarrow> permitted s k \<Longrightarrow> acquire k s = (v, s') \<Longrightarrow>
      invar s' \<and> find_entry s' = (find_entry s)(k \<mapsto> v)"
    and existing: "invar s \<Longrightarrow> permitted s k \<Longrightarrow> find_entry s k = Some w \<Longrightarrow>
      fst (acquire k s) = w"
    and still_permitted: "invar s \<Longrightarrow> permitted s k \<Longrightarrow> permitted s j \<Longrightarrow>
      acquire k s = (v, s') \<Longrightarrow> permitted s' j"
    and injective: "invar s \<Longrightarrow> find_entry s k = Some v \<Longrightarrow> find_entry s j = Some v \<Longrightarrow> k = j"
begin

text \<open>Acquiring a list of names one after the other.\<close>

fun acquire_all :: "'k list \<Rightarrow> 's \<Rightarrow> 's" where
  "acquire_all [] s = s"
| "acquire_all (k # ks) s = acquire_all ks (snd (acquire k s))"

lemma acquire_keeps:
  assumes "invar s" and "permitted s k" and "find_entry s j = Some w"
  shows "find_entry (snd (acquire k s)) j = Some w"
proof -
  obtain v s' where eq: "acquire k s = (v, s')" by fastforce
  with acquired [OF assms(1,2) eq] existing [OF assms(1,2)] assms(3) show ?thesis by auto
qed

lemma acquire_all_invar:
  "invar s \<Longrightarrow> \<forall>k \<in> set ks. permitted s k \<Longrightarrow> permitted s j \<Longrightarrow>
   invar (acquire_all ks s) \<and> permitted (acquire_all ks s) j"
proof (induction ks arbitrary: s)
  case (Cons k ks)
  obtain v s' where eq: "acquire k s = (v, s')" by fastforce
  have k: "permitted s k" using Cons.prems by simp
  from Cons.prems eq acquired [OF Cons.prems(1) k eq] still_permitted [OF Cons.prems(1) k _ eq]
    Cons.IH [of s'] show ?case by simp
qed simp

lemma acquire_all_keeps:
  "invar s \<Longrightarrow> \<forall>k \<in> set ks. permitted s k \<Longrightarrow> find_entry s j = Some w \<Longrightarrow>
   find_entry (acquire_all ks s) j = Some w"
proof (induction ks arbitrary: s)
  case (Cons k ks)
  obtain v s' where eq: "acquire k s = (v, s')" by fastforce
  have k: "permitted s k" using Cons.prems by simp
  from Cons.prems eq acquired [OF Cons.prems(1) k eq] still_permitted [OF Cons.prems(1) k _ eq]
    acquire_keeps [OF Cons.prems(1) k Cons.prems(3)] Cons.IH [of s'] show ?case by simp
qed simp

text \<open>The same name gives the same object, whatever was acquired in between.\<close>

lemma acquire_stable:
  assumes "invar s" and "permitted s k" and "\<forall>j \<in> set ks. permitted s j"
    and "acquire k s = (v, s')"
  shows "fst (acquire k (acquire_all ks s')) = v"
proof -
  have s': "invar s'" "find_entry s' k = Some v" using acquired [OF assms(1,2,4)] by auto
  have "\<forall>j \<in> set ks. permitted s' j" "permitted s' k"
    using still_permitted [OF assms(1,2) _ assms(4)] assms(2,3) by auto
  with s' acquire_all_invar [of s' ks k] acquire_all_keeps [of s' ks k v] show ?thesis
    by (intro existing) auto
qed

text \<open>Different names give different objects.\<close>

lemma acquire_distinct:
  assumes "invar s" and "permitted s k" and "permitted s j" and "k \<noteq> j"
    and "acquire k s = (v, s')" and "acquire j s' = (w, s'')"
  shows "v \<noteq> w"
proof
  assume "v = w"
  have s': "invar s'" "find_entry s' k = Some v" using acquired [OF assms(1,2,5)] by auto
  have "permitted s' j" using still_permitted [OF assms(1,2,3,5)] .
  from acquired [OF s'(1) this assms(6)] s'(2) assms(4) \<open>v = w\<close>
  have "invar s''" "find_entry s'' k = Some w" "find_entry s'' j = Some w" by auto
  with injective assms(4) show False by blast
qed

end

end
