(* ===== verification/Logger_Manager.thy ===== *)
theory Logger_Manager
  imports Logger_Laws Registry
begin

text \<open>
  The logger manager: its invariant, the steps a program can take through the public interface
  and the proof that every reachable state keeps the invariant, and the manager as an instance
  of the registry contract.
\<close>

section \<open>The manager's invariant\<close>

text \<open>
  The map holds the root under its name; every entry is a logger of that name, and every logger
  but the root falls back to the root.
\<close>

definition entry_ok :: "log_state \<Rightarrow> string \<Rightarrow> nat \<Rightarrow> bool" where
  "entry_ok st name l \<longleftrightarrow>
     (\<exists>g. loggers st l = Some g \<and> lg_name g = name
        \<and> lg_root g = (if l = mgr_root st then None else Some (mgr_root st)))"

definition mgr_ok :: "log_state \<Rightarrow> bool" where
  "mgr_ok st \<longleftrightarrow>
     store_ok st \<and> smap_ok (mgr_loggers st)
     \<and> map_of (mgr_loggers st) ''root'' = Some (mgr_root st)
     \<and> (\<forall>name l. map_of (mgr_loggers st) name = Some l \<longrightarrow> entry_ok st name l)"

lemma mgr_okD:
  assumes "mgr_ok st"
  shows "store_ok st" and "smap_ok (mgr_loggers st)"
    and "map_of (mgr_loggers st) ''root'' = Some (mgr_root st)"
    and "map_of (mgr_loggers st) name = Some l \<Longrightarrow> entry_ok st name l"
  using assms by (auto simp: mgr_ok_def)

lemma mgr_root_logger:
  assumes "mgr_ok st"
  obtains g where "loggers st (mgr_root st) = Some g" "lg_name g = ''root''" "lg_root g = None"
  using mgr_okD(4) [OF assms mgr_okD(3) [OF assms]] by (auto simp: entry_ok_def)

text \<open>Steps that keep names, root pointers and the manager's fields.\<close>

definition id_frame :: "log_state \<Rightarrow> log_state \<Rightarrow> bool" where
  "id_frame st st' \<longleftrightarrow>
     mgr_loggers st' = mgr_loggers st \<and> mgr_root st' = mgr_root st
     \<and> (\<forall>l g. loggers st l = Some g \<longrightarrow>
          (\<exists>g'. loggers st' l = Some g' \<and> lg_name g' = lg_name g \<and> lg_root g' = lg_root g))"

lemma id_frame_refl [simp]: "id_frame st st"
  by (simp add: id_frame_def)

lemma id_frame_trans: "id_frame s t \<Longrightarrow> id_frame t u \<Longrightarrow> id_frame s u"
  unfolding id_frame_def by metis

lemma mgr_ok_frame [inv_intros]:
  assumes "mgr_ok st" and "id_frame st st'" and "store_ok st'"
  shows "mgr_ok st'"
proof -
  have "entry_ok st' name l" if "entry_ok st name l" for name l
    using that assms(2) by (fastforce simp: entry_ok_def id_frame_def)
  with assms show ?thesis by (auto simp: mgr_ok_def id_frame_def)
qed

lemma log_frame_id_frame: "log_frame st st' \<Longrightarrow> id_frame st st'"
  by (simp add: log_frame_def id_frame_def)

section \<open>Every operation keeps the invariant\<close>

lemma new_Logger_ok:
  assumes "store_ok st" and "new_Logger name st = (l, st')"
  shows "store_ok st' \<and> id_frame st st' \<and> l = next_loc st
    \<and> loggers st' = (loggers st)(l \<mapsto> Logger_init name)"
proof -
  have st': "st' = st\<lparr>loggers := (loggers st)(next_loc st \<mapsto> Logger_init name),
      next_loc := next_loc st + 1,
      st_world := print_out (snd (new_LogFormatter default_pattern)) (st_world st)\<rparr>"
    and l: "l = next_loc st"
    using assms(2) by (auto simp: new_Logger_def)
  have fresh: "loggers st (next_loc st) = None" using store_ok_fresh [OF assms(1)] by simp
  have keep: "logger_ok st' g" if "logger_ok st g" for g
    using that fresh by (auto simp: st' logger_ok_def)
  have init: "logger_ok st' (Logger_init name)" by (simp add: logger_ok_def Logger_init_def)
  have "store_ok st'"
    using store_okD [OF assms(1)] keep init
    by (auto simp: store_ok_def st' less_Suc_eq)
  moreover have "id_frame st st'" using fresh by (auto simp: id_frame_def st')
  ultimately show ?thesis using l st' by simp
qed

lemma alloc_appender_ok:
  assumes "store_ok st" and "alloc_appender a st = (i, st')"
  shows "store_ok st' \<and> id_frame st st' \<and> i = next_loc st
    \<and> st' = st\<lparr>appenders := (appenders st)(i \<mapsto> a), next_loc := next_loc st + 1\<rparr>"
proof -
  have st': "st' = st\<lparr>appenders := (appenders st)(next_loc st \<mapsto> a), next_loc := next_loc st + 1\<rparr>"
    and i: "i = next_loc st"
    using assms(2) by (auto simp: alloc_appender_def)
  have fresh: "appenders st (next_loc st) = None" using store_ok_fresh [OF assms(1)] by simp
  have keep: "logger_ok st' g" if "logger_ok st g" for g
    using that fresh by (auto simp: st' logger_ok_def)
  have "store_ok st'"
    using store_okD [OF assms(1)] keep by (auto simp: store_ok_def st' less_Suc_eq)
  then show ?thesis using i st' by (simp add: id_frame_def)
qed

lemma make_appenders_ok:
  assumes "store_ok st"
  shows "make_StdOutLogAppender st = (i, st') \<Longrightarrow> store_ok st' \<and> id_frame st st'"
    and "make_FileLogAppender u fn st = (i, st') \<Longrightarrow> store_ok st' \<and> id_frame st st'"
proof -
  show "make_StdOutLogAppender st = (i, st') \<Longrightarrow> store_ok st' \<and> id_frame st st'"
    using alloc_appender_ok [OF assms] by (simp add: make_StdOutLogAppender_def)
  assume "make_FileLogAppender u fn st = (i, st')"
  then obtain a w where "alloc_appender a (st\<lparr>st_world := w\<rparr>) = (i, st')"
    by (auto simp: make_FileLogAppender_def split: prod.splits)
  moreover have "store_ok (st\<lparr>st_world := w\<rparr>)" using assms by simp
  ultimately have "store_ok st' \<and> id_frame (st\<lparr>st_world := w\<rparr>) st'"
    using alloc_appender_ok by blast
  then show "store_ok st' \<and> id_frame st st'" by (simp add: id_frame_def)
qed

lemma upd_logger_ok:
  assumes "store_ok st" and "upd_logger l f st = Inr st'"
    and "\<And>g. loggers st l = Some g \<Longrightarrow> logger_ok st g \<Longrightarrow>
      lg_name (f g) = lg_name g \<and> lg_root (f g) = lg_root g \<and> lg_formatter (f g) \<noteq> None
      \<and> set (lg_appenders (f g)) \<subseteq> set (lg_appenders g)"
  shows "store_ok st' \<and> id_frame st st'"
proof -
  obtain g where g: "loggers st l = Some g" and st': "st' = st\<lparr>loggers := (loggers st)(l \<mapsto> f g)\<rparr>"
    using assms(2) by (auto simp: upd_logger_def split: option.splits)
  note gok = store_okD(2) [OF assms(1) g]
  note f = assms(3) [OF g gok]
  have "store_ok st'"
    unfolding st' using f gok by (intro store_ok_write_logger [OF assms(1) g]) (auto simp: logger_ok_def)
  with f g st' show ?thesis by (auto simp: id_frame_def)
qed

lemma upd_appender_id_frame: "upd_appender i f st = Inr st' \<Longrightarrow> id_frame st st'"
  by (auto simp: upd_appender_def id_frame_def split: option.splits)

lemma Logger_setFormatter_ok:
  assumes "store_ok st" and "Logger_setFormatter l (Some f) st = Inr st'"
  shows "store_ok st' \<and> id_frame st st'"
proof -
  obtain g where g: "loggers st l = Some g"
    using assms(2) by (auto simp: Logger_setFormatter_def split: option.splits)
  let ?st = "st\<lparr>loggers := (loggers st)(l \<mapsto> g\<lparr>lg_formatter := Some f\<rparr>)\<rparr>"
  have ok: "store_ok ?st"
    using store_okD(2) [OF assms(1) g] by (intro store_ok_write_logger [OF assms(1) g])
      (auto simp: logger_ok_def)
  have frame: "id_frame st ?st" using g by (simp add: id_frame_def)
  have "for_each (\<lambda>i. upd_appender i (pass_formatter (Some f))) (lg_appenders g) ?st = Inr st'"
    using assms(2) g by (simp add: Logger_setFormatter_def)
  then show ?thesis
  proof (rule for_each_invariant [where I = "\<lambda>s. store_ok s \<and> id_frame st s"])
    fix i s s'
    assume s: "store_ok s \<and> id_frame st s" and upd: "upd_appender i (pass_formatter (Some f)) s = Inr s'"
    from s have "store_ok s'"
      by (intro store_ok_upd_appender [OF _ upd]) (auto simp: pass_formatter_def)
    with s id_frame_trans [OF _ upd_appender_id_frame [OF upd]] show "store_ok s' \<and> id_frame st s'"
      by blast
  qed (use ok frame in simp)
qed

lemma Logger_addAppender_ok:
  assumes "store_ok st" and "Logger_addAppender l i st = Inr st'"
  shows "store_ok st' \<and> id_frame st st'"
proof -
  obtain g j a where g: "loggers st l = Some g" and i: "i = Some j" and a: "appenders st j = Some a"
    using assms(2)
    by (auto simp: Logger_addAppender_def upd_appender_def split: option.splits prod.splits)
  let ?a = "if ap_formatter a = None then a\<lparr>ap_formatter := lg_formatter g\<rparr> else a"
  let ?st = "st\<lparr>appenders := (appenders st)(j \<mapsto> ?a)\<rparr>"
  let ?g = "g\<lparr>lg_appenders := lg_appenders g @ [j]\<rparr>"
  note gok = store_okD(2) [OF assms(1) g]
  have st': "st' = ?st\<lparr>loggers := (loggers ?st)(l \<mapsto> ?g)\<rparr>"
    using assms(2) i Logger_addAppender_eq [OF g a] by simp
  have st: "store_ok ?st" by (rule store_ok_write_appender [OF assms(1) a]) simp
  have "store_ok st'"
    unfolding st' using gok store_okD(2) [OF st, of l g] g
    by (intro store_ok_write_logger [OF st, of l g]) (auto simp: logger_ok_def)
  with g st' show ?thesis by (simp add: id_frame_def)
qed

text \<open>
  Steps through the public interface, used as it is meant: the formatter handed over is not a null
  pointer, which the setters accept but a later log dereferences (\<open>null_formatter_crashes\<close>), and the
  event of a log call carries a logger, as those of the macros do.
\<close>

inductive api_step :: "log_state \<Rightarrow> log_state \<Rightarrow> bool" where
  get_logger: "getLogger name st = (l, st') \<Longrightarrow> api_step st st'"
| new_logger: "new_Logger name st = (l, st') \<Longrightarrow> api_step st st'"
| new_stdout: "make_StdOutLogAppender st = (i, st') \<Longrightarrow> api_step st st'"
| new_file: "make_FileLogAppender u fn st = (i, st') \<Longrightarrow> api_step st st'"
| logger_level: "Logger_setLevel l v st = Inr st' \<Longrightarrow> api_step st st'"
| appender_level: "appender_setLevel i v st = Inr st' \<Longrightarrow> api_step st st'"
| appender_format: "appender_setFormatter i (Some f) st = Inr st' \<Longrightarrow> api_step st st'"
| logger_format: "Logger_setFormatter l (Some f) st = Inr st' \<Longrightarrow> api_step st st'"
| logger_pattern: "Logger_setFormatter_str l p st = Inr st' \<Longrightarrow> api_step st st'"
| add: "Logger_addAppender l i st = Inr st' \<Longrightarrow> api_step st st'"
| clear: "Logger_clearAppenders l st = Inr st' \<Longrightarrow> api_step st st'"
| del: "Logger_delAppender l i st = Inr st' \<Longrightarrow> api_step st st'"
| log: "ev_logger ev \<noteq> None \<Longrightarrow> Logger_log env l level ev st = Some (Inr st') \<Longrightarrow> api_step st st'"

inductive api_reachable :: "log_state \<Rightarrow> bool" where
  start: "new_LoggerManager w = Inr st \<Longrightarrow> api_reachable st"
| step: "api_reachable st \<Longrightarrow> api_step st st' \<Longrightarrow> api_reachable st'"

lemma set_erase_first: "set (erase_first i is) \<subseteq> set is"
  by (induction "is") auto

lemma getLogger_ok:
  assumes "mgr_ok st" and "getLogger name st = (l, st')"
  shows "mgr_ok st' \<and> map_of (mgr_loggers st') = (map_of (mgr_loggers st))(name \<mapsto> l)
    \<and> (\<forall>k g. loggers st k = Some g \<longrightarrow> loggers st' k = Some g)"
proof (cases "map_of (mgr_loggers st) name")
  case (Some k)
  with assms show ?thesis by (auto simp: getLogger_def fun_upd_idem)
next
  case None
  let ?g = "(Logger_init name)\<lparr>lg_root := Some (mgr_root st)\<rparr>"
  obtain st1 where st1: "new_Logger name st = (next_loc st, st1)"
    by (simp add: new_Logger_def)
  note ok1 = new_Logger_ok [OF mgr_okD(1) [OF assms(1)] st1]
  from ok1 have mgr1: "mgr_loggers st1 = mgr_loggers st" "mgr_root st1 = mgr_root st"
    by (simp_all add: id_frame_def)
  let ?st2 = "st1\<lparr>loggers := (loggers st1)(l \<mapsto> ?g)\<rparr>"
  have l: "l = next_loc st" and st': "st' = ?st2\<lparr>mgr_loggers := smap_put name l (mgr_loggers st)\<rparr>"
    using assms(2) None st1 mgr1 by (auto simp: getLogger_def)
  have fresh: "loggers st l = None" using store_ok_fresh [OF mgr_okD(1) [OF assms(1)]] l by simp
  obtain r where r: "loggers st (mgr_root st) = Some r" "lg_root r = None"
    using mgr_root_logger [OF assms(1)] by blast
  then have root_l: "mgr_root st \<noteq> l" using fresh by auto
  have others: "loggers st' k = loggers st k" if "k \<noteq> l" for k
    using that ok1 by (simp add: st' l)
  have store: "store_ok st'"
  proof -
    have keep: "logger_ok st' g" if "logger_ok st g" for g
      using that fresh others ok1 st1
      by (auto simp: logger_ok_def st' new_Logger_def)
    moreover have "logger_ok st' ?g"
      using r root_l others by (simp add: logger_ok_def Logger_init_def)
    ultimately show ?thesis
      using store_okD [OF mgr_okD(1) [OF assms(1)]] st1 l
      by (auto simp: store_ok_def st' new_Logger_def less_Suc_eq)
  qed
  have map: "map_of (mgr_loggers st') = (map_of (mgr_loggers st))(name \<mapsto> l)"
    using mgr_okD(2) [OF assms(1)] by (simp add: st')
  have root: "mgr_root st' = mgr_root st" using mgr1 by (simp add: st')
  have "entry_ok st' n k" if "map_of (mgr_loggers st') n = Some k" for n k
  proof (cases "n = name")
    case True
    with that map have "k = l" by simp
    with True root_l root show ?thesis by (simp add: entry_ok_def st' Logger_init_def)
  next
    case False
    with that map mgr_okD(4) [OF assms(1), of n k] have "entry_ok st n k" by simp
    moreover from this fresh have "k \<noteq> l" by (auto simp: entry_ok_def)
    ultimately show ?thesis using others [OF \<open>k \<noteq> l\<close>] root by (simp only: entry_ok_def)
  qed
  moreover have "smap_ok (mgr_loggers st')"
    using mgr_okD(2) [OF assms(1)] by (simp add: st' smap_ok_put)
  moreover have "name \<noteq> ''root''" using None mgr_okD(3) [OF assms(1)] by auto
  ultimately have "mgr_ok st'"
    using store map root mgr_okD(3) [OF assms(1)] by (simp add: mgr_ok_def)
  moreover have "\<forall>k g. loggers st k = Some g \<longrightarrow> loggers st' k = Some g"
    using others fresh by (metis option.distinct(1))
  ultimately show ?thesis using map by blast
qed

lemma api_step_ok:
  assumes "api_step st st'" and "mgr_ok st"
  shows "mgr_ok st'"
proof -
  note st = mgr_okD(1) [OF assms(2)]
  from assms(1) show ?thesis
  proof cases
    case get_logger
    with getLogger_ok assms(2) show ?thesis by blast
  next
    case new_logger
    with new_Logger_ok [OF st] mgr_ok_frame [OF assms(2)] show ?thesis by blast
  next
    case new_stdout
    with make_appenders_ok [OF st] mgr_ok_frame [OF assms(2)] show ?thesis by blast
  next
    case new_file
    with make_appenders_ok [OF st] mgr_ok_frame [OF assms(2)] show ?thesis by blast
  next
    case (logger_level l v)
    with upd_logger_ok [OF st] have "store_ok st' \<and> id_frame st st'"
      by (auto simp: Logger_setLevel_def logger_ok_def)
    with mgr_ok_frame [OF assms(2)] show ?thesis by blast
  next
    case (appender_level i v)
    then have upd: "upd_appender i (\<lambda>a. a\<lparr>ap_level := v\<rparr>) st = Inr st'"
      by (simp add: appender_setLevel_def)
    have "store_ok st'" by (rule store_ok_upd_appender [OF st upd]) simp
    with upd_appender_id_frame [OF upd] mgr_ok_frame [OF assms(2)] show ?thesis by blast
  next
    case (appender_format i f)
    then have upd: "upd_appender i (LogAppender_setFormatter (Some f)) st = Inr st'"
      by (simp add: appender_setFormatter_def)
    have "store_ok st'"
      by (rule store_ok_upd_appender [OF st upd]) (simp add: LogAppender_setFormatter_def Let_def)
    with upd_appender_id_frame [OF upd] mgr_ok_frame [OF assms(2)] show ?thesis by blast
  next
    case logger_format
    with Logger_setFormatter_ok [OF st] mgr_ok_frame [OF assms(2)] show ?thesis by blast
  next
    case (logger_pattern l p)
    then obtain g where g: "loggers st l = Some g"
      by (auto simp: Logger_setFormatter_str_def split: option.splits)
    have print: "store_ok (print_st s st)" "id_frame st (print_st s st)" for s
      using st by (simp_all add: id_frame_def print_st_def)
    show ?thesis
    proof (cases "m_error (formatter_of p)")
      case True
      with logger_pattern g have "\<exists>s. st' = print_st s st"
        by (auto simp: Logger_setFormatter_str_def split: prod.splits)
      with print mgr_ok_frame [OF assms(2)] show ?thesis by blast
    next
      case False
      with logger_pattern g have "Logger_setFormatter l (Some (formatter_of p))
          (print_st (snd (new_LogFormatter p)) st) = Inr st'"
        by (auto simp: Logger_setFormatter_str_def split: prod.splits)
      from Logger_setFormatter_ok [OF print(1) this] mgr_ok_frame [OF assms(2)]
        mgr_ok_frame [OF mgr_ok_frame [OF assms(2) print(2,1)]]
      show ?thesis by blast
    qed
  next
    case add
    with Logger_addAppender_ok [OF st] mgr_ok_frame [OF assms(2)] show ?thesis by blast
  next
    case (clear l)
    with upd_logger_ok [OF st] have "store_ok st' \<and> id_frame st st'"
      by (auto simp: Logger_clearAppenders_def logger_ok_def)
    with mgr_ok_frame [OF assms(2)] show ?thesis by blast
  next
    case (del l i)
    then have "upd_logger l (\<lambda>g. g\<lparr>lg_appenders := erase_first i (lg_appenders g)\<rparr>) st = Inr st'"
      by (simp add: Logger_delAppender_def)
    then have "store_ok st' \<and> id_frame st st'"
      by (rule upd_logger_ok [OF st]) (use set_erase_first in \<open>auto simp: logger_ok_def\<close>)
    with mgr_ok_frame [OF assms(2)] show ?thesis by blast
  next
    case (log ev env l level)
    then obtain g where "loggers st l = Some g"
      by (auto simp: Logger_log.simps split: option.splits)
    from Logger_log_ok [OF st this log(1), of env level] log(2)
    have "log_frame st st'" "store_ok st'" by simp_all
    with log_frame_id_frame mgr_ok_frame [OF assms(2)] show ?thesis by blast
  qed
qed

section \<open>The start\<close>

text \<open>The default pattern as pieces, so that its items follow from the grammar.\<close>

definition default_pieces :: "piece list" where
  "default_pieces =
     [Dir ''d'' (Some ''%Y-%m-%d %H:%M:%S''), Dir ''T'' None, Dir ''t'' None, Dir ''T'' None,
      Dir ''F'' None, Dir ''T'' None, Lit ''['', Dir ''p'' None, Lit '']'', Dir ''T'' None,
      Lit ''['', Dir ''c'' None, Lit '']'', Dir ''f'' None, Lit '':'', Dir ''l'' None,
      Dir ''T'' None, Dir ''m'' None, Dir ''n'' None]"

lemma render_default: "render default_pieces = default_pattern"
  by (simp add: default_pieces_def default_pattern_def render_def)

lemma wf_default: "wf_pieces default_pieces"
  by (simp add: default_pieces_def isalpha_def name_char_def)

lemma default_formatter:
  "snd (new_LogFormatter default_pattern) = []"
  "m_items (formatter_of default_pattern) =
     [DateTimeFormatItem ''%Y-%m-%d %H:%M:%S'', TabFormatItem, ThreadIdFormatItem, TabFormatItem,
      FiberIdFormatItem, TabFormatItem, StringFormatItem ''['', LevelFormatItem,
      StringFormatItem '']'', TabFormatItem, StringFormatItem ''['', NameFormatItem,
      StringFormatItem '']'', FilenameFormatItem, StringFormatItem '':'', LineFormatItem,
      TabFormatItem, MessageFormatItem, NewLineFormatItem]"
  "\<not> m_error (formatter_of default_pattern)"
  using formatter_render [OF wf_default] unfolding render_default
  by (simp_all add: default_pieces_def piece_item_def known_piece_def s_format_items_def
      new_DateTimeFormatItem_def)

definition default_formatter_opt :: "LogFormatter option" where
  "default_formatter_opt = Some (formatter_of default_pattern)"

lemma new_LoggerManager_eq:
  "new_LoggerManager w =
     Inr \<lparr>loggers = [0 \<mapsto> (Logger_init ''root'')\<lparr>lg_appenders := [1]\<rparr>],
          appenders = [1 \<mapsto> new_StdOutLogAppender\<lparr>ap_formatter := default_formatter_opt\<rparr>],
          next_loc = 2, mgr_loggers = [(''root'', 0)], mgr_root = 0, st_world = w\<rparr>"
  by (simp add: new_LoggerManager_def new_Logger_def make_StdOutLogAppender_def
      alloc_appender_def empty_state_def Logger_addAppender_def upd_appender_def upd_logger_def
      default_formatter(1) print_out_def logger_name_def Logger_init_def new_StdOutLogAppender_def
      new_appender_def default_formatter_opt_def)

lemma new_LoggerManager_ok:
  assumes "new_LoggerManager w = Inr st"
  shows "mgr_ok st"
  using assms unfolding new_LoggerManager_eq
  by (auto simp: mgr_ok_def store_ok_def logger_ok_def entry_ok_def Logger_init_def smap_ok_def
      default_formatter_opt_def split: if_splits)

lemma api_reachable_mgr_ok: "api_reachable st \<Longrightarrow> mgr_ok st"
  by (induction rule: api_reachable.induct) (auto intro: new_LoggerManager_ok api_step_ok)

text \<open>
  C3: Every state a program can reach from the manager's construction through the public
  operations, in any order and on any objects, as long as the formatters it hands over are not
  null pointers and the events it logs carry a logger, is well-formed: loggers have formatters, attached
  appenders exist and have formatters, the manager's map holds the root and under each name a
  logger of that name, and every logger but the root falls back to the root.
\<close>

theorem reachable_manager_invariant:
  "api_reachable st \<Longrightarrow> mgr_ok st \<and> store_ok st"
  using api_reachable_mgr_ok mgr_okD(1) by blast

section \<open>The manager as a registry\<close>

definition find_logger :: "log_state \<Rightarrow> string \<Rightarrow> nat option" where
  "find_logger st = map_of (mgr_loggers st)"

interpretation logger_registry: registry find_logger getLogger mgr_ok "\<lambda>st name. True"
proof unfold_locales
  fix st name l st'
  show "mgr_ok st \<Longrightarrow> True \<Longrightarrow> getLogger name st = (l, st') \<Longrightarrow>
      mgr_ok st' \<and> find_logger st' = (find_logger st)(name \<mapsto> l)"
    using getLogger_ok by (simp add: find_logger_def)
next
  fix st name l
  show "mgr_ok st \<Longrightarrow> True \<Longrightarrow> find_logger st name = Some l \<Longrightarrow> fst (getLogger name st) = l"
    by (simp add: find_logger_def getLogger_def)
next
  fix st name l name'
  assume st: "mgr_ok st" and "find_logger st name = Some l" "find_logger st name' = Some l"
  then have "entry_ok st name l" "entry_ok st name' l"
    by (simp_all add: find_logger_def mgr_okD(4) [OF st])
  then show "name = name'" by (auto simp: entry_ok_def)
qed simp_all

text \<open>
  C9: The manager hands out one logger per name. Asking for a name again, after asking for any
  other names, gives the same logger; two names give two loggers; and a logger made for a new
  name starts at level DEBUG with the default layout, without appenders, under the root.
\<close>

theorem getLogger_unique:
  assumes "mgr_ok st" and "getLogger name st = (l, st1)"
  shows "fst (getLogger name (fold (\<lambda>n s. snd (getLogger n s)) names st1)) = l
    \<and> (\<forall>other. other \<noteq> name \<longrightarrow> fst (getLogger other st1) \<noteq> l)
    \<and> (map_of (mgr_loggers st) name = None \<longrightarrow>
         loggers st1 l = Some ((Logger_init name)\<lparr>lg_root := Some (mgr_root st)\<rparr>))"
proof (intro conjI allI impI)
  have fold: "fold (\<lambda>n s. snd (getLogger n s)) names s = logger_registry.acquire_all names s" for s
    by (induction names arbitrary: s) simp_all
  show "fst (getLogger name (fold (\<lambda>n s. snd (getLogger n s)) names st1)) = l"
    unfolding fold using logger_registry.acquire_stable [OF assms(1) TrueI _ assms(2)] by simp
next
  fix other
  assume "other \<noteq> name"
  moreover obtain k st2 where "getLogger other st1 = (k, st2)" by fastforce
  ultimately show "fst (getLogger other st1) \<noteq> l"
    using logger_registry.acquire_distinct [OF assms(1) TrueI TrueI _ assms(2)] by force
next
  assume "map_of (mgr_loggers st) name = None"
  with assms(2) show "loggers st1 l = Some ((Logger_init name)\<lparr>lg_root := Some (mgr_root st)\<rparr>)"
    by (auto simp: getLogger_def new_Logger_def)
qed

section \<open>Instances\<close>

text \<open>The state after construction, and after asking for the logger "net".\<close>

definition start_state :: log_state where
  "start_state =
     \<lparr>loggers = [0 \<mapsto> (Logger_init ''root'')\<lparr>lg_appenders := [1]\<rparr>],
      appenders = [1 \<mapsto> new_StdOutLogAppender\<lparr>ap_formatter := default_formatter_opt\<rparr>],
      next_loc = 2, mgr_loggers = [(''root'', 0)], mgr_root = 0, st_world = sample_world\<rparr>"

lemma start_state_new: "new_LoggerManager sample_world = Inr start_state"
  by (simp add: new_LoggerManager_eq start_state_def)

lemma start_state_ok: "mgr_ok start_state"
  using new_LoggerManager_ok [OF start_state_new] .

theorem reachable_manager_invariant_witness:
  "api_reachable (snd (getLogger ''net'' start_state)) \<and> mgr_ok (snd (getLogger ''net'' start_state))"
proof -
  have "api_step start_state (snd (getLogger ''net'' start_state))"
    using api_step.get_logger [of "''net''" start_state] by (metis prod.collapse)
  with api_reachable.start [OF start_state_new]
  have reach: "api_reachable (snd (getLogger ''net'' start_state))" by (rule api_reachable.step)
  with reachable_manager_invariant [OF reach] show ?thesis by blast
qed

theorem getLogger_unique_witness:
  "fst (getLogger ''net'' start_state) = 2
   \<and> fst (getLogger ''net'' (snd (getLogger ''http'' (snd (getLogger ''net'' start_state))))) = 2
   \<and> fst (getLogger ''http'' (snd (getLogger ''net'' start_state))) \<noteq> 2"
proof -
  have two: "fst (getLogger ''net'' start_state) = 2"
    by (simp add: getLogger_def start_state_def new_Logger_def)
  then have "getLogger ''net'' start_state = (2, snd (getLogger ''net'' start_state))"
    by (metis prod.collapse)
  from getLogger_unique [OF start_state_ok this, of "[''http'']"] two show ?thesis by simp
qed

end
