(* ===== verification/Config_Var.thy ===== *)
theory Config_Var
  imports Log_Level
begin

text \<open>
  One configuration variable: \<open>ConfigVarBase\<close> and \<open>ConfigVar<T>\<close> of \<open>chord/config.h\<close>,
  lines 52-73 and 311-407. The type parameter is the type variable \<open>'v\<close> of the values; the
  functors \<open>FromStr\<close> and \<open>ToStr\<close> of the instance and its \<open>typeid\<close> name are a record. The
  rest of the program, which listeners may change, is the type variable \<open>'s\<close>; it does not
  contain the variable itself, whose lock is held while the listeners run. Locks are the subject
  of theory \<open>Locks\<close>.
\<close>

section \<open>State\<close>

record 'v type_ops =
  t_name :: string
  t_from :: "string \<Rightarrow> exn + 'v"
  t_to :: "'v \<Rightarrow> exn + string"

type_synonym ('v, 's) on_change_cb = "'v \<Rightarrow> 'v \<Rightarrow> 's \<Rightarrow> 's outcome"

record ('v, 's) ConfigVar =
  cv_name :: string
  cv_description :: string
  cv_type :: "'v type_ops"
  cv_val :: 'v
  cv_cbs :: "(64 word \<times> ('v, 's) on_change_cb) list"

text \<open>
  What the configuration code calls elsewhere: sending a line to the root logger, and the
  \<open>typeid\<close> name of \<open>std::string\<close>.
\<close>

record 's host =
  h_log :: "Level \<Rightarrow> string \<Rightarrow> 's \<Rightarrow> 's"
  h_string_type :: string

definition lower :: "string \<Rightarrow> string" where
  "lower s = map tolower s"

definition new_ConfigVar ::
  "'v type_ops \<Rightarrow> string \<Rightarrow> 'v \<Rightarrow> string \<Rightarrow> ('v, 's) ConfigVar" where
  "new_ConfigVar T name default_value description =
     \<lparr>cv_name = lower name, cv_description = description, cv_type = T, cv_val = default_value,
      cv_cbs = []\<rparr>"

section \<open>Operations\<close>

fun run_listeners ::
  "(64 word \<times> ('v, 's) on_change_cb) list \<Rightarrow> 'v \<Rightarrow> 'v \<Rightarrow> 's \<Rightarrow> 's outcome" where
  "run_listeners [] old new s = Returns s"
| "run_listeners (i # cbs) old new s =
     (case snd i old new s of
        Returns s' \<Rightarrow> run_listeners cbs old new s'
      | Throws e s' \<Rightarrow> Throws e s'
      | Crashes c \<Rightarrow> Crashes c)"

definition setValue ::
  "'v \<Rightarrow> ('v, 's) ConfigVar \<Rightarrow> 's \<Rightarrow> (('v, 's) ConfigVar \<times> 's) outcome" where
  "setValue val v s =
     (if val = cv_val v then Returns (v, s)
      else case run_listeners (cv_cbs v) (cv_val v) val s of
          Returns s' \<Rightarrow> Returns (v\<lparr>cv_val := val\<rparr>, s')
        | Throws e s' \<Rightarrow> Throws e (v, s')
        | Crashes c \<Rightarrow> Crashes c)"

definition getValue :: "('v, 's) ConfigVar \<Rightarrow> 'v" where
  "getValue v = cv_val v"

definition from_error :: "'s host \<Rightarrow> string \<Rightarrow> string \<Rightarrow> 's \<Rightarrow> 's" where
  "from_error H what val =
     h_log H ERROR (''ConfigVar::toString exception'' @ what @ ''convert: '' @ h_string_type H
       @ '' - '' @ val)"

text \<open>
  \<open>fromString\<close>. The result of the call is the first component; a \<open>std::exception\<close> of the
  conversion or of a listener is caught and reported.
\<close>

definition fromString ::
  "'s host \<Rightarrow> string \<Rightarrow> ('v, 's) ConfigVar \<Rightarrow> 's \<Rightarrow> (bool \<times> ('v, 's) ConfigVar \<times> 's) outcome"
where
  "fromString H val v s =
     (case t_from (cv_type v) val of
        Inl (Std_exception what) \<Rightarrow> Returns (False, v, from_error H what val s)
      | Inl Other_exception \<Rightarrow> Throws Other_exception (False, v, s)
      | Inr x \<Rightarrow>
          (case setValue x v s of
             Returns (v', s') \<Rightarrow> Returns (False, v', s')
           | Throws (Std_exception what) (v', s') \<Rightarrow>
               Returns (False, v', from_error H what val s')
           | Throws Other_exception (v', s') \<Rightarrow> Throws Other_exception (False, v', s')
           | Crashes c \<Rightarrow> Crashes c))"

text \<open>\<open>toString\<close>; the result of the call is the first component.\<close>

definition toString :: "'s host \<Rightarrow> ('v, 's) ConfigVar \<Rightarrow> 's \<Rightarrow> (string \<times> 's) outcome" where
  "toString H v s =
     (case t_to (cv_type v) (cv_val v) of
        Inr txt \<Rightarrow> Returns (txt, s)
      | Inl (Std_exception what) \<Rightarrow>
          Returns ([], h_log H ERROR (''ConfigVar::toString exception'' @ what @ ''convert: ''
                         @ t_name (cv_type v) @ ''to string'') s)
      | Inl Other_exception \<Rightarrow> Throws Other_exception ([], s))"

text \<open>
  Listeners. The counter \<open>s_fun_id\<close> is a static variable of the member function, shared by all
  variables of one type; it is passed in and out.
\<close>

definition addListener ::
  "('v, 's) on_change_cb \<Rightarrow> 64 word \<Rightarrow> ('v, 's) ConfigVar \<Rightarrow> 64 word \<times> 64 word \<times> ('v, 's) ConfigVar"
where
  "addListener cb s_fun_id v =
     (let k = s_fun_id + 1 in (k, k, v\<lparr>cv_cbs := smap_put k cb (cv_cbs v)\<rparr>))"

definition delListener :: "64 word \<Rightarrow> ('v, 's) ConfigVar \<Rightarrow> ('v, 's) ConfigVar" where
  "delListener key v = v\<lparr>cv_cbs := smap_erase key (cv_cbs v)\<rparr>"

definition getListener :: "64 word \<Rightarrow> ('v, 's) ConfigVar \<Rightarrow> ('v, 's) on_change_cb option" where
  "getListener key v = map_of (cv_cbs v) key"

definition clearListener :: "('v, 's) ConfigVar \<Rightarrow> ('v, 's) ConfigVar" where
  "clearListener v = v\<lparr>cv_cbs := []\<rparr>"

section \<open>Setting a value\<close>

lemma run_listeners_append:
  "run_listeners (xs @ ys) old new s =
     (case run_listeners xs old new s of
        Returns s' \<Rightarrow> run_listeners ys old new s'
      | Throws e s' \<Rightarrow> Throws e s'
      | Crashes c \<Rightarrow> Crashes c)"
  by (induction xs arbitrary: s) (auto split: outcome.splits)

text \<open>Listeners that cannot fail act as state transformers, applied in list order.\<close>

lemma run_listeners_total:
  "\<forall>(k, cb) \<in> set cbs. \<forall>s. cb old new s = Returns (eff k s) \<Longrightarrow>
   run_listeners cbs old new s = Returns (fold (\<lambda>(k, cb). eff k) cbs s)"
  by (induction cbs arbitrary: s) auto

text \<open>The listeners in front of a key, in the order of the keys.\<close>

definition keys_below :: "64 word \<Rightarrow> ('v, 's) ConfigVar \<Rightarrow> 64 word list" where
  "keys_below k v = sorted_list_of_set {j. j < k \<and> getListener j v \<noteq> None}"

definition all_keys :: "('v, 's) ConfigVar \<Rightarrow> 64 word list" where
  "all_keys v = sorted_list_of_set {j. getListener j v \<noteq> None}"

lemma sorted_keys: "sorted_wrt (<) (ks :: 'a :: linorder list) \<Longrightarrow> sorted_list_of_set (set ks) = ks"
  by (rule sorted_list_of_set.idem_if_sorted_distinct) (auto simp: strict_sorted_iff)

lemma fold_keys: "fold (\<lambda>(k, cb). eff k) cbs s = fold eff (map fst cbs) s"
  by (induction cbs arbitrary: s) auto

lemma listener_keys: "{j. getListener j v \<noteq> None} = fst ` set (cv_cbs v)"
  by (auto simp: getListener_def map_of_eq_None_iff)

lemma listener_in:
  "smap_ok (cv_cbs v) \<Longrightarrow> getListener k v = Some cb \<longleftrightarrow> (k, cb) \<in> set (cv_cbs v)"
  by (auto simp: getListener_def smap_ok_def strict_sorted_iff)

lemma listeners_split:
  assumes "smap_ok (cv_cbs v)" and "getListener k v = Some cb"
  obtains pre post where "cv_cbs v = pre @ (k, cb) # post" and "map fst pre = keys_below k v"
proof -
  from assms obtain pre post where cbs: "cv_cbs v = pre @ (k, cb) # post"
    by (auto simp: listener_in in_set_conv_decomp)
  with assms(1) have sorted: "sorted_wrt (<) (map fst pre)" "\<forall>j \<in> fst ` set pre. j < k"
    "\<forall>j \<in> fst ` set post. k < j"
    by (auto simp: smap_ok_def sorted_wrt_append)
  have "{j. j < k \<and> getListener j v \<noteq> None} = {j. getListener j v \<noteq> None} \<inter> {j. j < k}" by auto
  also have "\<dots> = set (map fst pre)"
    unfolding listener_keys cbs using sorted(2,3) by (auto simp: order.asym)
  finally show ?thesis using that [OF cbs] sorted_keys [OF sorted(1)] by (simp add: keys_below_def)
qed

text \<open>
  C19: \<open>setValue\<close>. An equal value changes nothing and calls no listener. For a different value the
  listeners are called with the old and the new value, in the order of their keys. If all return,
  the value is stored. If one throws, the listeners of smaller keys have run, those of larger keys
  have not, the exception goes on and the variable still holds the old value: the store comes
  after the listeners. In either case the name, the type and the listeners stay.
\<close>

theorem setValue_notifies:
  assumes "smap_ok (cv_cbs v)"
  shows "setValue (cv_val v) v s = Returns (v, s)
    \<and> (val \<noteq> cv_val v \<longrightarrow>
         (\<forall>j cb. getListener j v = Some cb \<longrightarrow> (\<forall>s. cb (cv_val v) val s = Returns (eff j s))) \<longrightarrow>
         setValue val v s = Returns (v\<lparr>cv_val := val\<rparr>, fold eff (all_keys v) s))
    \<and> (\<forall>k cb e s'. val \<noteq> cv_val v \<longrightarrow> getListener k v = Some cb \<longrightarrow>
         (\<forall>j c. j < k \<longrightarrow> getListener j v = Some c \<longrightarrow> (\<forall>s. c (cv_val v) val s = Returns (eff j s))) \<longrightarrow>
         cb (cv_val v) val (fold eff (keys_below k v) s) = Throws e s' \<longrightarrow>
         setValue val v s = Throws e (v, s'))"
proof (intro conjI allI impI)
  show "setValue (cv_val v) v s = Returns (v, s)" by (simp add: setValue_def)
next
  assume new: "val \<noteq> cv_val v"
    and "\<forall>j cb. getListener j v = Some cb \<longrightarrow> (\<forall>s. cb (cv_val v) val s = Returns (eff j s))"
  then have "\<forall>(k, cb) \<in> set (cv_cbs v). \<forall>s. cb (cv_val v) val s = Returns (eff k s)"
    using listener_in [OF assms] by auto
  moreover have "map fst (cv_cbs v) = all_keys v"
    using assms sorted_keys [of "map fst (cv_cbs v)"]
    unfolding all_keys_def listener_keys by (simp add: smap_ok_def)
  ultimately show "setValue val v s = Returns (v\<lparr>cv_val := val\<rparr>, fold eff (all_keys v) s)"
    using new run_listeners_total [of "cv_cbs v"] by (simp add: setValue_def fold_keys)
next
  fix k cb e s'
  assume new: "val \<noteq> cv_val v" and k: "getListener k v = Some cb"
    and less: "\<forall>j c. j < k \<longrightarrow> getListener j v = Some c \<longrightarrow> (\<forall>s. c (cv_val v) val s = Returns (eff j s))"
    and throw: "cb (cv_val v) val (fold eff (keys_below k v) s) = Throws e s'"
  from listeners_split [OF assms k] obtain pre post where
    cbs: "cv_cbs v = pre @ (k, cb) # post" "map fst pre = keys_below k v" .
  have "\<forall>(j, c) \<in> set pre. j < k \<and> getListener j v = Some c"
    using assms cbs(1) listener_in [OF assms] by (auto simp: smap_ok_def sorted_wrt_append)
  with less have "\<forall>(j, c) \<in> set pre. \<forall>s. c (cv_val v) val s = Returns (eff j s)" by fastforce
  from run_listeners_total [OF this] throw cbs have
    "run_listeners (cv_cbs v) (cv_val v) val s = Throws e s'"
    by (simp add: run_listeners_append fold_keys)
  with new show "setValue val v s = Throws e (v, s')" by (simp add: setValue_def)
qed

text \<open>
  A listener that throws stops the change: the listeners before it have run, those after it
  have not, and the variable keeps its old value; \<open>fromString\<close> reports a \<open>std::exception\<close>
  from a listener and leaves the variable as it was.
\<close>

lemma setValue_listener_throws:
  assumes "cv_cbs v = pre @ (k, cb) # post"
    and "\<forall>(k, cb) \<in> set pre. \<forall>s. cb (cv_val v) val s = Returns (eff k s)"
    and "cb (cv_val v) val (fold (\<lambda>(k, cb). eff k) pre s) = Throws e s'"
    and "val \<noteq> cv_val v"
  shows "setValue val v s = Throws e (v, s')
    \<and> (\<forall>H txt what. t_from (cv_type v) txt = Inr val \<longrightarrow> e = Std_exception what \<longrightarrow>
         fromString H txt v s = Returns (False, v, from_error H what txt s'))"
proof -
  have "run_listeners (cv_cbs v) (cv_val v) val s = Throws e s'"
    using assms(1,3) run_listeners_total [OF assms(2)] by (simp add: run_listeners_append)
  with assms(4) have "setValue val v s = Throws e (v, s')" by (simp add: setValue_def)
  then show ?thesis by (simp add: fromString_def)
qed

lemma setValue_keeps:
  "setValue val v s = Returns (v', s') \<Longrightarrow> v' = v\<lparr>cv_val := val\<rparr>"
  "setValue val v s = Throws e (v', s') \<Longrightarrow> v' = v"
  by (auto simp: setValue_def split: if_splits outcome.splits)

text \<open>
  \<open>fromString\<close> answers false whenever it returns, also after it has stored the new value;
  the value it leaves is the converted one, or the old one when the conversion or a listener
  failed, and nothing else of the variable changes.
\<close>

lemma fromString_result:
  assumes "fromString H txt v s = Returns (b, v', s')"
  shows "\<not> b \<and> (v' = v \<or> (\<exists>x. t_from (cv_type v) txt = Inr x \<and> v' = v\<lparr>cv_val := x\<rparr>))
    \<and> (\<forall>x t. t_from (cv_type v) txt = Inr x \<longrightarrow> setValue x v s = Returns t \<longrightarrow>
         v' = v\<lparr>cv_val := x\<rparr>)
    \<and> (\<forall>what. t_from (cv_type v) txt = Inl (Std_exception what) \<longrightarrow>
         v' = v \<and> s' = from_error H what txt s)"
proof (cases "t_from (cv_type v) txt")
  case (Inl e)
  with assms show ?thesis by (cases e) (auto simp: fromString_def)
next
  case (Inr x)
  show ?thesis
  proof (cases "setValue x v s")
    case (Returns t)
    obtain v1 s1 where "t = (v1, s1)" by (cases t)
    with Returns Inr assms setValue_keeps(1) [of x v s v1 s1] show ?thesis
      by (auto simp: fromString_def)
  next
    case (Throws e t)
    obtain v1 s1 where "t = (v1, s1)" by (cases t)
    with Throws Inr assms setValue_keeps(2) [of x v s e v1 s1] show ?thesis
      by (cases e) (auto simp: fromString_def)
  next
    case (Crashes c)
    with Inr assms show ?thesis by (simp add: fromString_def)
  qed
qed

section \<open>Listeners\<close>

text \<open>The keys in use were handed out: none is above the counter.\<close>

definition listeners_ok :: "64 word \<Rightarrow> ('v, 's) ConfigVar \<Rightarrow> bool" where
  "listeners_ok s_fun_id v \<longleftrightarrow>
     smap_ok (cv_cbs v) \<and> (\<forall>k \<in> fst ` set (cv_cbs v). k \<le> s_fun_id)"

text \<open>
  C32: As long as the 64-bit counter has not wrapped, a new listener gets a key above all keys in
  use, is appended behind the listeners that are there (so it is called last) and is found under
  its key, and deleting that key restores the variable; the key order is kept.
\<close>

theorem addListener_fresh:
  assumes "listeners_ok c v" and "c \<noteq> - 1" and "addListener cb c v = (k, c', v')"
  shows "c < k \<and> c' = k \<and> cv_cbs v' = cv_cbs v @ [(k, cb)]
    \<and> getListener k v' = Some cb \<and> (\<forall>j. j \<noteq> k \<longrightarrow> getListener j v' = getListener j v)
    \<and> delListener k v' = v \<and> listeners_ok c' v' \<and> cv_val v' = cv_val v"
proof -
  have lt: "c < c + 1" using assms(2)
    by (metis inc_less_eq_triv_imp linorder_less_linear word_le_less_eq)
  have k: "k = c + 1" "c' = k" and v': "v' = v\<lparr>cv_cbs := smap_put k cb (cv_cbs v)\<rparr>"
    using assms(3) by (auto simp: addListener_def Let_def)
  have above: "\<forall>j \<in> fst ` set (cv_cbs v). j < k"
    using assms(1) lt k by (auto simp: listeners_ok_def)
  have cbs: "cv_cbs v' = cv_cbs v @ [(k, cb)]"
    using smap_put_greatest [OF above] by (simp add: v')
  have ok: "smap_ok (cv_cbs v)" using assms(1) by (simp add: listeners_ok_def)
  have "filter (\<lambda>e. fst e \<noteq> k) (cv_cbs v) = cv_cbs v"
    using above by (intro filter_True) auto
  then have "delListener k v' = v" by (simp add: delListener_def cbs smap_erase_def) (simp add: v')
  moreover have "listeners_ok c' v'"
    using ok above smap_ok_put [OF ok, of k cb] k by (auto simp: listeners_ok_def v' set_keys_smap_put)
  moreover have "getListener j v' = ((\<lambda>j. getListener j v)(k \<mapsto> cb)) j" for j
    using map_of_smap_put [OF ok] by (simp add: getListener_def v')
  ultimately show ?thesis using lt k cbs by (auto simp: v')
qed

section \<open>Instances\<close>

text \<open>A variable of decimal digits whose two listeners record what they saw; the second may throw.\<close>

definition sample_type :: "nat type_ops" where
  "sample_type = \<lparr>t_name = ''i'',
     t_from = (\<lambda>s. if s = ''7'' then Inr 7 else Inl (Std_exception ''bad cast'')),
     t_to = (\<lambda>n. Inr (dec_nat n))\<rparr>"

definition sample_host :: "nat list host" where
  "sample_host = \<lparr>h_log = (\<lambda>l t s. 0 # s), h_string_type = ''string''\<rparr>"

definition record_cb :: "(nat, nat list) on_change_cb" where
  "record_cb old new s = Returns (new # old # s)"

definition throw_cb :: "(nat, nat list) on_change_cb" where
  "throw_cb old new s = Throws (Std_exception ''refused'') s"

definition sample_var :: "(nat, nat list) ConfigVar" where
  "sample_var = (new_ConfigVar sample_type ''Port'' 5 [])\<lparr>cv_cbs := [(1, record_cb)]\<rparr>"

theorem setValue_notifies_witness:
  "setValue 7 (sample_var\<lparr>cv_cbs := [(1, record_cb), (2, throw_cb)]\<rparr>) [] =
     Throws (Std_exception ''refused'') (sample_var\<lparr>cv_cbs := [(1, record_cb), (2, throw_cb)]\<rparr>, [7, 5])
   \<and> setValue 5 sample_var [] = Returns (sample_var, [])"
proof -
  let ?v = "sample_var\<lparr>cv_cbs := [(1, record_cb), (2, throw_cb)]\<rparr>"
  have old: "cv_val ?v = 5" "cv_val sample_var = 5" by (simp_all add: sample_var_def new_ConfigVar_def)
  have ok: "smap_ok (cv_cbs ?v)" "smap_ok (cv_cbs sample_var)"
    by (simp_all add: sample_var_def smap_ok_def)
  have get: "getListener 2 ?v = Some throw_cb" "getListener j ?v = Some c \<Longrightarrow> j < 2 \<Longrightarrow> c = record_cb \<and> j = 1"
    for j c
    by (auto simp: getListener_def split: if_splits)
  have "{j. j < 2 \<and> getListener j ?v \<noteq> None} = set [1 :: 64 word]"
    by (auto simp: getListener_def split: if_splits)
  then have below: "keys_below 2 ?v = [1]"
    unfolding keys_below_def by (metis sorted_keys sorted_wrt1)
  have less: "\<forall>j c. j < 2 \<longrightarrow> getListener j ?v = Some c \<longrightarrow>
      (\<forall>s. c (cv_val ?v) 7 s = Returns ((\<lambda>j s. 7 # 5 # s) j s))"
    using get(2) old(1) by (metis record_cb_def)
  have "throw_cb (cv_val ?v) 7 (fold (\<lambda>j s. 7 # 5 # s) (keys_below 2 ?v) []) =
      Throws (Std_exception ''refused'') [7, 5]"
    by (simp add: throw_cb_def below)
  with setValue_notifies [OF ok(1), where val = 7 and eff = "\<lambda>j s. 7 # 5 # s" and s = "[]"] get(1) less old(1)
  have "setValue 7 ?v [] = Throws (Std_exception ''refused'') (?v, [7, 5])" by auto
  moreover from setValue_notifies [OF ok(2)] old(2) have "setValue 5 sample_var [] = Returns (sample_var, [])"
    by metis
  ultimately show ?thesis by blast
qed

lemma setValue_listener_throws_witness:
  "fromString sample_host ''7'' (sample_var\<lparr>cv_cbs := [(1, record_cb), (2, throw_cb)]\<rparr>) [] =
     Returns (False, sample_var\<lparr>cv_cbs := [(1, record_cb), (2, throw_cb)]\<rparr>, [0, 7, 5])"
proof -
  let ?v = "sample_var\<lparr>cv_cbs := [(1, record_cb), (2, throw_cb)]\<rparr>"
  have "cv_cbs ?v = [(1, record_cb)] @ (2, throw_cb) # []" by simp
  moreover have "\<forall>(k, cb) \<in> set [(1, record_cb)]. \<forall>s. cb (cv_val ?v) 7 s =
      Returns ((\<lambda>k s. 7 # 5 # s) k s)"
    by (simp add: sample_var_def record_cb_def new_ConfigVar_def)
  moreover have "throw_cb (cv_val ?v) 7 (fold (\<lambda>(k, cb). (\<lambda>k s. 7 # 5 # s) k) [(1, record_cb)] []) =
      Throws (Std_exception ''refused'') [7, 5]"
    by (simp add: throw_cb_def)
  moreover have "7 \<noteq> cv_val ?v" by (simp add: sample_var_def new_ConfigVar_def)
  ultimately have "\<forall>H txt what. t_from (cv_type ?v) txt = Inr 7 \<longrightarrow>
      Std_exception ''refused'' = Std_exception what \<longrightarrow>
      fromString H txt ?v [] = Returns (False, ?v, from_error H what txt [7, 5])"
    using setValue_listener_throws [where v = ?v and val = 7 and s = "[]" and s' = "[7, 5]" and k = 2
        and cb = throw_cb and post = "[]" and pre = "[(1, record_cb)]"
        and eff = "\<lambda>k s. 7 # 5 # s" and e = "Std_exception ''refused''"] by blast
  moreover have "t_from (cv_type ?v) ''7'' = Inr 7"
    by (simp add: sample_var_def new_ConfigVar_def sample_type_def)
  ultimately show ?thesis by (simp add: from_error_def sample_host_def)
qed

lemma fromString_result_witness:
  "\<exists>v' s'. fromString sample_host ''7'' sample_var [] = Returns (False, v', s') \<and> cv_val v' = 7"
proof -
  have r: "fromString sample_host ''7'' sample_var [] =
      Returns (False, sample_var\<lparr>cv_val := 7\<rparr>, [7, 5])"
    by (simp add: fromString_def setValue_def sample_var_def sample_type_def new_ConfigVar_def
        record_cb_def)
  with fromString_result [OF r] show ?thesis by simp
qed

theorem addListener_fresh_witness:
  "(case addListener throw_cb 1 sample_var of (k, c, v) \<Rightarrow>
      k = 2 \<and> cv_cbs v = [(1, record_cb), (2, throw_cb)] \<and> delListener 2 v = sample_var)"
proof -
  have "listeners_ok 1 sample_var" by (simp add: listeners_ok_def sample_var_def smap_ok_def)
  moreover have "(1 :: 64 word) \<noteq> - 1" by simp
  moreover obtain v where add: "addListener throw_cb 1 sample_var = (2, 2, v)"
    by (simp add: addListener_def)
  ultimately have "cv_cbs v = cv_cbs sample_var @ [(2, throw_cb)] \<and> delListener 2 v = sample_var"
    using addListener_fresh by blast
  then show ?thesis by (simp add: add) (simp add: sample_var_def)
qed

end
