(* ===== verification/Config_Registry.thy ===== *)
theory Config_Registry
  imports Config_Var Yaml_Node Registry
begin

text \<open>
  The configuration: the map of all variables, \<open>Lookup\<close> and \<open>LookupBase\<close>
  (\<open>chord/config.h\<close>, lines 410-480; \<open>chord/config.cpp\<close>, lines 64-79) and loading from YAML
  (\<open>chord/config.cpp\<close>, lines 12-62). A variable belongs to exactly one name of the map, so the
  name serves as the pointer to it.
\<close>

section \<open>State\<close>

text \<open>
  \<open>cfg_datas\<close> is \<open>GetDatas()\<close>; \<open>cfg_host\<close> is the rest of the program. A dynamic cast to
  \<open>ConfigVar<T>\<close> succeeds when the variable's type name is that of \<open>T\<close>.
\<close>

record ('v, 's) config =
  cfg_datas :: "string \<Rightarrow> ('v, 's) ConfigVar option"
  cfg_host :: 's

definition valid_chars :: string where
  "valid_chars = ''abcefghijklmnopqrstuvwxyz._012345678''"

definition valid_name :: "string \<Rightarrow> bool" where
  "valid_name name \<longleftrightarrow> find_first_not_of name valid_chars = None"

definition cfg_log :: "'s host \<Rightarrow> Level \<Rightarrow> string \<Rightarrow> ('v, 's) config \<Rightarrow> ('v, 's) config" where
  "cfg_log H level text cfg = cfg\<lparr>cfg_host := h_log H level text (cfg_host cfg)\<rparr>"

lemma cfg_log_fields [simp]:
  "cfg_datas (cfg_log H level text cfg) = cfg_datas cfg"
  by (simp add: cfg_log_def)

section \<open>Lookup\<close>

text \<open>
  \<open>Lookup<T>(name, default_value, description)\<close>: the pointer it returns (\<open>None\<close> for a null
  pointer) or the exception it throws, and the new state.
\<close>

definition Lookup ::
  "'s host \<Rightarrow> 'v type_ops \<Rightarrow> string \<Rightarrow> 'v \<Rightarrow> string \<Rightarrow> ('v, 's) config
     \<Rightarrow> (exn + string option) \<times> ('v, 's) config"
where
  "Lookup H T name default_value description cfg =
     (case cfg_datas cfg name of
        Some v \<Rightarrow>
          if t_name (cv_type v) = t_name T then
            (Inr (Some name), cfg_log H INFO (''Lookup name = '' @ name @ ''exists'') cfg)
          else
            (case toString H v (cfg_host cfg) of
               Returns (txt, s) \<Rightarrow>
                 (Inr None,
                  cfg_log H ERROR (''Lookup name = '' @ name @ ''exists but type not'' @ t_name T
                    @ ''real_type = '' @ t_name (cv_type v) @ '' '' @ txt) (cfg\<lparr>cfg_host := s\<rparr>))
             | Throws e (txt, s) \<Rightarrow> (Inl e, cfg\<lparr>cfg_host := s\<rparr>)
             | Crashes c \<Rightarrow> (Inr None, cfg))
      | None \<Rightarrow>
          if find_first_not_of name valid_chars \<noteq> None then
            (Inl (Std_exception name), cfg_log H ERROR (''Lookup name invalid'' @ name) cfg)
          else
            (Inr (Some name),
             cfg\<lparr>cfg_datas := (cfg_datas cfg)(name \<mapsto> new_ConfigVar T name default_value description)\<rparr>))"

text \<open>\<open>Lookup<T>(name)\<close> and \<open>LookupBase(name)\<close> only read.\<close>

definition Lookup_existing :: "'v type_ops \<Rightarrow> string \<Rightarrow> ('v, 's) config \<Rightarrow> string option" where
  "Lookup_existing T name cfg =
     (case cfg_datas cfg name of
        None \<Rightarrow> None
      | Some v \<Rightarrow> if t_name (cv_type v) = t_name T then Some name else None)"

definition LookupBase :: "string \<Rightarrow> ('v, 's) config \<Rightarrow> string option" where
  "LookupBase name cfg = (case cfg_datas cfg name of None \<Rightarrow> None | Some v \<Rightarrow> Some name)"

text \<open>
  \<open>Visit\<close>: the callback is run on every variable. The hash map's iteration order is not
  specified, so the sequence of names is a parameter.
\<close>

definition Visit ::
  "string list \<Rightarrow> (string \<Rightarrow> ('v, 's) config \<Rightarrow> crash + ('v, 's) config) \<Rightarrow> ('v, 's) config
     \<Rightarrow> crash + ('v, 's) config" where
  "Visit order cb cfg = for_each cb order cfg"

section \<open>Loading from YAML\<close>

definition child_name :: "string \<Rightarrow> yaml \<Rightarrow> string" where
  "child_name prefix k = (if prefix = [] then Scalar_of k else prefix @ ''.'' @ Scalar_of k)"

text \<open>\<open>ListAllMember\<close>, with its output list and the program state the error lines go to.\<close>

lemma yaml_entry_size [termination_simp]:
  "(k, v) \<in> set es \<Longrightarrow> size v < Suc (size_list (size_prod size size) es)"
  by (induction es) auto

fun ListAllMember ::
  "yaml_lib \<Rightarrow> 's host \<Rightarrow> string \<Rightarrow> yaml \<Rightarrow> (string \<times> yaml) list \<times> 's \<Rightarrow> (string \<times> yaml) list \<times> 's"
where
  "ListAllMember Y H prefix node (output, s) =
     (if find_first_not_of prefix valid_chars \<noteq> None then
        (output, h_log H ERROR (''Config invalid name : '' @ prefix @ '' : '' @ y_emit Y node) s)
      else
        (let acc = (output @ [(prefix, node)], s)
         in case node of
              YMap es \<Rightarrow> fold (\<lambda>(k, v) acc. ListAllMember Y H (child_name prefix k) v acc) es acc
            | _ \<Rightarrow> acc))"

declare ListAllMember.simps [simp del]

text \<open>The call \<open>var->fromString(text)\<close> on the variable of a name.\<close>

definition var_fromString ::
  "'s host \<Rightarrow> string \<Rightarrow> string \<Rightarrow> ('v, 's) config \<Rightarrow> ('v, 's) config outcome" where
  "var_fromString H name text cfg =
     (case cfg_datas cfg name of
        None \<Rightarrow> Crashes Null_deref
      | Some v \<Rightarrow>
          (case fromString H text v (cfg_host cfg) of
             Returns (_, v', s') \<Rightarrow>
               Returns (cfg\<lparr>cfg_datas := (cfg_datas cfg)(name \<mapsto> v'), cfg_host := s'\<rparr>)
           | Throws e (_, v', s') \<Rightarrow>
               Throws e (cfg\<lparr>cfg_datas := (cfg_datas cfg)(name \<mapsto> v'), cfg_host := s'\<rparr>)
           | Crashes c \<Rightarrow> Crashes c))"

definition node_text :: "yaml_lib \<Rightarrow> yaml \<Rightarrow> string" where
  "node_text Y node = (if IsScalar node then Scalar_of node else y_emit Y node)"

definition load_one ::
  "yaml_lib \<Rightarrow> 's host \<Rightarrow> string \<times> yaml \<Rightarrow> ('v, 's) config \<Rightarrow> ('v, 's) config outcome" where
  "load_one Y H i cfg =
     (if fst i = [] then Returns cfg
      else case LookupBase (lower (fst i)) cfg of
          None \<Rightarrow> Returns cfg
        | Some var \<Rightarrow> var_fromString H var (node_text Y (snd i)) cfg)"

fun load_nodes ::
  "yaml_lib \<Rightarrow> 's host \<Rightarrow> (string \<times> yaml) list \<Rightarrow> ('v, 's) config \<Rightarrow> ('v, 's) config outcome" where
  "load_nodes Y H [] cfg = Returns cfg"
| "load_nodes Y H (i # is) cfg =
     (case load_one Y H i cfg of
        Returns cfg' \<Rightarrow> load_nodes Y H is cfg'
      | Throws e cfg' \<Rightarrow> Throws e cfg'
      | Crashes c \<Rightarrow> Crashes c)"

definition LoadFromYaml ::
  "yaml_lib \<Rightarrow> 's host \<Rightarrow> yaml \<Rightarrow> ('v, 's) config \<Rightarrow> ('v, 's) config outcome" where
  "LoadFromYaml Y H root cfg =
     (case ListAllMember Y H [] root ([], cfg_host cfg) of
        (all_nodes, s) \<Rightarrow> load_nodes Y H all_nodes (cfg\<lparr>cfg_host := s\<rparr>))"

section \<open>Names\<close>

lemma valid_name_iff: "valid_name name \<longleftrightarrow> set name \<subseteq> set valid_chars"
  by (simp add: valid_name_def find_first_not_of_None)

lemma valid_chars_lower: "c \<in> set valid_chars \<Longrightarrow> tolower c = c"
  by (auto simp: valid_chars_def tolower_def)

lemma valid_name_lower: "valid_name name \<Longrightarrow> lower name = name"
  unfolding lower_def using valid_chars_lower by (intro map_idI) (auto simp: valid_name_iff)

text \<open>
  C33: The set of permitted characters lacks the letter \<open>d\<close> and the digit \<open>9\<close>: registering a
  variable under a new name that contains one of them throws \<open>std::invalid_argument\<close> and
  registers nothing, although every other lower-case letter and digit is accepted.
\<close>

theorem names_with_d_or_9_rejected:
  "(\<forall>name. CHR ''d'' \<in> set name \<or> CHR ''9'' \<in> set name \<longrightarrow> cfg_datas cfg name = None \<longrightarrow>
      Lookup H T name x desc cfg =
        (Inl (Std_exception name), cfg_log H ERROR (''Lookup name invalid'' @ name) cfg))
   \<and> (\<forall>name. set name \<subseteq> set ''abcefghijklmnopqrstuvwxyz._012345678'' \<longrightarrow> cfg_datas cfg name = None \<longrightarrow>
      Lookup H T name x desc cfg =
        (Inr (Some name), cfg\<lparr>cfg_datas := (cfg_datas cfg)(name \<mapsto> new_ConfigVar T name x desc)\<rparr>))"
proof (intro conjI allI impI)
  fix name :: string
  assume "CHR ''d'' \<in> set name \<or> CHR ''9'' \<in> set name" "cfg_datas cfg name = None"
  moreover have "CHR ''d'' \<notin> set valid_chars" "CHR ''9'' \<notin> set valid_chars"
    by (simp_all add: valid_chars_def)
  ultimately show "Lookup H T name x desc cfg =
        (Inl (Std_exception name), cfg_log H ERROR (''Lookup name invalid'' @ name) cfg)"
    by (auto simp: Lookup_def find_first_not_of_None)
next
  fix name :: string
  assume "set name \<subseteq> set ''abcefghijklmnopqrstuvwxyz._012345678''" "cfg_datas cfg name = None"
  then have "find_first_not_of name valid_chars = None"
    unfolding find_first_not_of_None valid_chars_def by simp
  with \<open>cfg_datas cfg name = None\<close> show "Lookup H T name x desc cfg =
        (Inr (Some name), cfg\<lparr>cfg_datas := (cfg_datas cfg)(name \<mapsto> new_ConfigVar T name x desc)\<rparr>)"
    by (simp add: Lookup_def)
qed

section \<open>The registry of variables\<close>

text \<open>Every variable is stored under its own name, which is permitted; its listeners are in key order.\<close>

definition config_ok :: "('v, 's) config \<Rightarrow> bool" where
  "config_ok cfg \<longleftrightarrow>
     (\<forall>name v. cfg_datas cfg name = Some v \<longrightarrow>
        cv_name v = name \<and> valid_name name \<and> smap_ok (cv_cbs v))"

lemma config_okD:
  "config_ok cfg \<Longrightarrow> cfg_datas cfg name = Some v \<Longrightarrow>
   cv_name v = name \<and> valid_name name \<and> smap_ok (cv_cbs v)"
  by (simp add: config_ok_def)

lemma config_ok_log [simp]: "config_ok (cfg_log H level text cfg) = config_ok cfg"
  by (simp add: config_ok_def)

lemma config_ok_host [simp]: "config_ok (cfg\<lparr>cfg_host := s\<rparr>) = config_ok cfg"
  by (simp add: config_ok_def)

lemma config_ok_write [inv_intros]:
  "config_ok cfg \<Longrightarrow> valid_name name \<Longrightarrow> cv_name v = name \<Longrightarrow> smap_ok (cv_cbs v) \<Longrightarrow>
   config_ok (cfg\<lparr>cfg_datas := (cfg_datas cfg)(name \<mapsto> v)\<rparr>)"
  by (simp add: config_ok_def)

lemma Lookup_new:
  "cfg_datas cfg name = None \<Longrightarrow> valid_name name \<Longrightarrow>
   Lookup H T name x desc cfg =
     (Inr (Some name), cfg\<lparr>cfg_datas := (cfg_datas cfg)(name \<mapsto> new_ConfigVar T name x desc)\<rparr>)"
  by (simp add: Lookup_def valid_name_def)

lemma Lookup_same_type:
  "cfg_datas cfg name = Some v \<Longrightarrow> t_name (cv_type v) = t_name T \<Longrightarrow>
   Lookup H T name x desc cfg =
     (Inr (Some name), cfg_log H INFO (''Lookup name = '' @ name @ ''exists'') cfg)"
  by (simp add: Lookup_def)

lemma Lookup_datas:
  "cfg_datas (snd (Lookup H T name x desc cfg)) =
     (if cfg_datas cfg name = None \<and> valid_name name
      then (cfg_datas cfg)(name \<mapsto> new_ConfigVar T name x desc) else cfg_datas cfg)"
  by (auto simp: Lookup_def valid_name_def split: option.splits outcome.splits prod.splits)

lemma new_ConfigVar_fields [simp]:
  "cv_name (new_ConfigVar T name x desc) = lower name"
  "cv_cbs (new_ConfigVar T name x desc) = []"
  "cv_val (new_ConfigVar T name x desc) = x"
  "cv_type (new_ConfigVar T name x desc) = T"
  by (simp_all add: new_ConfigVar_def)

lemma Lookup_ok:
  assumes "config_ok cfg"
  shows "config_ok (snd (Lookup H T name x desc cfg))"
  using assms unfolding config_ok_def Lookup_datas
  by (auto simp: valid_name_lower split: if_splits)

text \<open>The pointer of a name, and the names a program may look up as variables of type \<open>T\<close>.\<close>

definition find_var :: "('v, 's) config \<Rightarrow> string \<Rightarrow> (exn + string option) option" where
  "find_var cfg name = map_option (\<lambda>v. Inr (Some name)) (cfg_datas cfg name)"

definition permitted_as :: "'v type_ops \<Rightarrow> ('v, 's) config \<Rightarrow> string \<Rightarrow> bool" where
  "permitted_as T cfg name \<longleftrightarrow>
     valid_name name \<and> (\<forall>v. cfg_datas cfg name = Some v \<longrightarrow> t_name (cv_type v) = t_name T)"

interpretation config_registry:
  registry find_var "\<lambda>name. Lookup H T name (x name) (desc name)" config_ok "permitted_as T"
  for H :: "'s host" and T :: "'v type_ops" and x desc
proof unfold_locales
  fix cfg :: "('v, 's) config" and name r cfg'
  assume ok: "config_ok cfg" and perm: "permitted_as T cfg name"
    and eq: "Lookup H T name (x name) (desc name) cfg = (r, cfg')"
  show "config_ok cfg' \<and> find_var cfg' = (find_var cfg)(name \<mapsto> r)"
  proof (cases "cfg_datas cfg name")
    case None
    with eq perm Lookup_new [OF None] Lookup_ok [OF ok, of H T name "x name" "desc name"]
    show ?thesis by (auto simp: permitted_as_def find_var_def fun_eq_iff)
  next
    case (Some v)
    with perm have "t_name (cv_type v) = t_name T" by (simp add: permitted_as_def)
    from Lookup_same_type [OF Some this] eq ok Some show ?thesis
      by (auto simp: find_var_def fun_eq_iff)
  qed
next
  fix cfg :: "('v, 's) config" and name w
  assume "config_ok cfg" and "permitted_as T cfg name" and "find_var cfg name = Some w"
  then show "fst (Lookup H T name (x name) (desc name) cfg) = w"
    by (auto simp: find_var_def permitted_as_def Lookup_same_type)
next
  fix cfg :: "('v, 's) config" and name other r cfg'
  assume "permitted_as T cfg name" "permitted_as T cfg other"
    and "Lookup H T name (x name) (desc name) cfg = (r, cfg')"
  then have "cfg' = snd (Lookup H T name (x name) (desc name) cfg)" by simp
  with \<open>permitted_as T cfg other\<close> show "permitted_as T cfg' other"
    unfolding permitted_as_def by (simp only: Lookup_datas) (auto split: if_splits)
next
  fix cfg :: "('v, 's) config" and name other w
  assume "find_var cfg name = Some w" "find_var cfg other = Some w"
  then show "name = other" by (auto simp: find_var_def)
qed

text \<open>
  C23: \<open>Lookup\<close> with a default. A new valid name is registered with the default value and
  without listeners; a name that exists keeps its variable whatever the default is, and the
  caller gets it if the type is the same and a null pointer if it is not; no other name is
  touched; and looking the name up again, after looking up any other valid names of the same
  type, gives the same pointer.
\<close>

theorem Lookup_get_or_create:
  assumes "config_ok cfg" and "Lookup H T name x desc cfg = (r, cfg')"
  shows "config_ok cfg' \<and> (\<forall>j. j \<noteq> name \<longrightarrow> cfg_datas cfg' j = cfg_datas cfg j)
    \<and> (case cfg_datas cfg name of
         Some v \<Rightarrow> cfg_datas cfg' name = Some v
           \<and> (if t_name (cv_type v) = t_name T then r = Inr (Some name)
              else r = Inr None \<or> r = Inl Other_exception)
       | None \<Rightarrow> valid_name name \<longrightarrow>
           r = Inr (Some name) \<and> LookupBase name cfg' = Some name
           \<and> cfg_datas cfg' name = Some (new_ConfigVar T name x desc))
    \<and> (permitted_as T cfg name \<longrightarrow> (\<forall>j \<in> set js. permitted_as T cfg j) \<longrightarrow>
         fst (Lookup H T name x desc (fold (\<lambda>j c. snd (Lookup H T j x desc c)) js cfg')) = r)"
proof (intro conjI allI impI)
  have cfg': "cfg' = snd (Lookup H T name x desc cfg)" using assms(2) by simp
  show "config_ok cfg'" unfolding cfg' by (rule Lookup_ok [OF assms(1)])
  show "cfg_datas cfg' j = cfg_datas cfg j" if "j \<noteq> name" for j
    unfolding cfg' Lookup_datas using that by simp
  show "case cfg_datas cfg name of
         Some v \<Rightarrow> cfg_datas cfg' name = Some v
           \<and> (if t_name (cv_type v) = t_name T then r = Inr (Some name)
              else r = Inr None \<or> r = Inl Other_exception)
       | None \<Rightarrow> valid_name name \<longrightarrow>
           r = Inr (Some name) \<and> LookupBase name cfg' = Some name
           \<and> cfg_datas cfg' name = Some (new_ConfigVar T name x desc)"
  proof (cases "cfg_datas cfg name")
    case None
    then show ?thesis using assms(2) by (auto simp: Lookup_new LookupBase_def)
  next
    case (Some v)
    moreover have "cfg_datas cfg' name = Some v" unfolding cfg' Lookup_datas using Some by simp
    ultimately show ?thesis
      using assms(2) by (auto simp: Lookup_def toString_def split: sum.splits exn.splits if_splits)
  qed
next
  assume "permitted_as T cfg name" and "\<forall>j \<in> set js. permitted_as T cfg j"
  moreover have "fold (\<lambda>j c. snd (Lookup H T j x desc c)) js c =
      config_registry.acquire_all H T (\<lambda>_. x) (\<lambda>_. desc) js c" for c :: "('a, 'b) config"
    by (induction js arbitrary: c) simp_all
  ultimately show
    "fst (Lookup H T name x desc (fold (\<lambda>j c. snd (Lookup H T j x desc c)) js cfg')) = r"
    using config_registry.acquire_stable [OF assms(1), of T name js H "\<lambda>_. x" "\<lambda>_. desc"] assms(2)
    by simp
qed

section \<open>What is listed\<close>

text \<open>
  The nodes listed below a prefix: the node itself under its prefix, and what is listed below the
  entries of a map, as long as the prefix is a valid name.
\<close>

fun members :: "string \<Rightarrow> yaml \<Rightarrow> (string \<times> yaml) list" where
  "members prefix node =
     (if valid_name prefix then
        (prefix, node) #
          (case node of
             YMap es \<Rightarrow> concat (map (\<lambda>(k, v). members (child_name prefix k) v) es)
           | _ \<Rightarrow> [])
      else [])"

declare members.simps [simp del]

lemma ListAllMember_members:
  "fst (ListAllMember Y H prefix node acc) = fst acc @ members prefix node"
proof (induction Y H prefix node acc rule: ListAllMember.induct)
  case (1 Y H prefix node outp s)
  show ?case
  proof (cases "valid_name prefix")
    case True
    then have ok: "find_first_not_of prefix valid_chars = None" by (simp add: valid_name_def)
    show ?thesis
    proof (cases "\<exists>es. node = YMap es")
      case True
      then obtain es where node: "node = YMap es" by blast
      have step: "fst (ListAllMember Y H (child_name prefix k) v acc) =
          fst acc @ members (child_name prefix k) v" if "(k, v) \<in> set es" for k v acc
        using "1" [of "(outp @ [(prefix, node)], s)" es "(k, v)" k v acc]
          ok node that by simp
      have "fst (fold (\<lambda>(k, v) acc. ListAllMember Y H (child_name prefix k) v acc) es acc) =
          fst acc @ concat (map (\<lambda>(k, v). members (child_name prefix k) v) es)" for acc
        using step by (induction es arbitrary: acc) auto
      then show ?thesis
        using ok \<open>valid_name prefix\<close> node
        by (simp add: ListAllMember.simps [of Y H prefix "YMap es"] members.simps [of prefix "YMap es"])
    next
      case False
      then show ?thesis
        using ok \<open>valid_name prefix\<close>
        by (auto simp: ListAllMember.simps [of Y H prefix node] members.simps [of prefix node]
            split: yaml.splits)
    qed
  next
    case False
    then show ?thesis
      by (simp add: valid_name_def ListAllMember.simps [of Y H prefix node]
          members.simps [of prefix node])
  qed
qed

inductive listed :: "string \<Rightarrow> yaml \<Rightarrow> string \<Rightarrow> yaml \<Rightarrow> bool" where
  here: "valid_name p \<Longrightarrow> listed p n p n"
| below: "valid_name p \<Longrightarrow> (k, v) \<in> set es \<Longrightarrow> listed (child_name p k) v q m \<Longrightarrow> listed p (YMap es) q m"

inductive_cases listed_mapE: "listed p (YMap es) q m"
inductive_simps listed_scalar: "listed p (YScalar t) q m"

lemma listed_valid: "listed p n q m \<Longrightarrow> valid_name p \<and> valid_name q"
  by (induction rule: listed.induct) simp_all

lemma members_listed: "(q, m) \<in> set (members p n) \<longleftrightarrow> listed p n q m"
proof
  show "(q, m) \<in> set (members p n) \<Longrightarrow> listed p n q m"
  proof (induction p n rule: members.induct)
    case (1 p n)
    from "1.prems" have p: "valid_name p"
      by (simp add: members.simps [of p n] split: if_splits)
    consider "q = p" "m = n"
      | es k v where "n = YMap es" "(k, v) \<in> set es" "(q, m) \<in> set (members (child_name p k) v)"
      using "1.prems" p by (auto simp: members.simps [of p n] split: yaml.splits)
    then show ?case
    proof cases
      case 1
      with p show ?thesis by (simp add: listed.here)
    next
      case 2
      with "1.IH" [OF p 2(1) 2(2) refl] p show ?thesis by (auto intro: listed.below)
    qed
  qed
next
  show "listed p n q m \<Longrightarrow> (q, m) \<in> set (members p n)"
  proof (induction rule: listed.induct)
    case (here p n)
    then show ?case by (simp add: members.simps [of p n])
  next
    case (below p k v es q m)
    then show ?case by (force simp: members.simps [of p "YMap es"])
  qed
qed

text \<open>
  C29: \<open>ListAllMember\<close> appends to its output exactly the nodes that can be reached through map
  entries with every name on the way valid, each under its dotted name. So every listed name is
  valid and equals its lower-case form: a key with an upper-case letter is dropped with
  everything below it before \<open>LoadFromYaml\<close> lower-cases the names.
\<close>

theorem ListAllMember_lists:
  "fst (ListAllMember Y H prefix node (out, s)) = out @ members prefix node
   \<and> (\<forall>q m. (q, m) \<in> set (members prefix node) \<longleftrightarrow> listed prefix node q m)
   \<and> (\<forall>(q, m) \<in> set (members prefix node). valid_name q \<and> lower q = q)"
  using ListAllMember_members [of Y H prefix node "(out, s)"] members_listed listed_valid
    valid_name_lower by auto

section \<open>What loading changes\<close>

lemma load_one_cases:
  assumes "load_one Y H (key, n) cfg = Returns cfg'" and "valid_name key"
  shows "cfg_datas cfg' = cfg_datas cfg \<and> (key = [] \<or> cfg_datas cfg key = None)
    \<or> (\<exists>v b v' s'. key \<noteq> [] \<and> cfg_datas cfg key = Some v
         \<and> fromString H (node_text Y n) v (cfg_host cfg) = Returns (b, v', s')
         \<and> cfg_datas cfg' = (cfg_datas cfg)(key \<mapsto> v'))"
  using assms
  by (auto simp: load_one_def LookupBase_def var_fromString_def valid_name_lower
      split: if_splits option.splits outcome.splits)

text \<open>
  Variables without listeners whose conversion fails, if it does, with a \<open>std::exception\<close>:
  loading always returns, and what it leaves in a variable depends on the texts of its name.
\<close>

definition plain_var :: "('v, 's) ConfigVar \<Rightarrow> bool" where
  "plain_var v \<longleftrightarrow> cv_cbs v = []
     \<and> (\<forall>txt e. t_from (cv_type v) txt = Inl e \<longrightarrow> (\<exists>what. e = Std_exception what))"

definition take_text :: "('v, 's) ConfigVar \<Rightarrow> string \<Rightarrow> 'v \<Rightarrow> 'v" where
  "take_text v txt x = (case t_from (cv_type v) txt of Inl e \<Rightarrow> x | Inr y \<Rightarrow> y)"

definition texts_of :: "yaml_lib \<Rightarrow> (string \<times> yaml) list \<Rightarrow> string \<Rightarrow> string list" where
  "texts_of Y is name = map (\<lambda>i. node_text Y (snd i)) (filter (\<lambda>i. fst i = name \<and> name \<noteq> []) is)"

definition given :: "yaml_lib \<Rightarrow> (string \<times> yaml) list \<Rightarrow> string \<Rightarrow> ('v, 's) ConfigVar \<Rightarrow> ('v, 's) ConfigVar"
where
  "given Y is name v = v\<lparr>cv_val := fold (take_text v) (texts_of Y is name) (cv_val v)\<rparr>"

lemma fromString_plain:
  assumes "plain_var v"
  shows "\<exists>s'. fromString H txt v s = Returns (False, v\<lparr>cv_val := take_text v txt (cv_val v)\<rparr>, s')"
proof (cases "t_from (cv_type v) txt")
  case (Inl e)
  with assms obtain what where "e = Std_exception what" by (auto simp: plain_var_def)
  with Inl show ?thesis by (simp add: fromString_def take_text_def)
next
  case (Inr x)
  with assms show ?thesis by (simp add: fromString_def setValue_def plain_var_def take_text_def)
qed

lemma plain_var_val: "plain_var (v\<lparr>cv_val := x\<rparr>) = plain_var v"
  "take_text (v\<lparr>cv_val := x\<rparr>) = take_text v"
  by (simp_all add: plain_var_def take_text_def fun_eq_iff)

lemma load_one_plain:
  assumes "\<forall>v \<in> ran (cfg_datas cfg). plain_var v" and "valid_name (fst i)"
  shows "\<exists>cfg'. load_one Y H i cfg = Returns cfg'
    \<and> (\<forall>name. cfg_datas cfg' name = map_option (given Y [i] name) (cfg_datas cfg name))"
proof (cases "fst i = [] \<or> cfg_datas cfg (fst i) = None")
  case True
  then have "load_one Y H i cfg = Returns cfg"
    using valid_name_lower [OF assms(2)] by (auto simp: load_one_def LookupBase_def)
  moreover have "cfg_datas cfg name = map_option (given Y [i] name) (cfg_datas cfg name)" for name
    using True by (cases "cfg_datas cfg name") (auto simp: given_def texts_of_def)
  ultimately show ?thesis by blast
next
  case False
  then obtain v where v: "fst i \<noteq> []" "cfg_datas cfg (fst i) = Some v" by auto
  with assms(1) have "plain_var v" by (auto simp: ran_def)
  from fromString_plain [OF this] obtain s' where
    "fromString H (node_text Y (snd i)) v (cfg_host cfg) =
       Returns (False, v\<lparr>cv_val := take_text v (node_text Y (snd i)) (cv_val v)\<rparr>, s')" by blast
  with v valid_name_lower [OF assms(2)] have "load_one Y H i cfg = Returns (cfg\<lparr>cfg_datas := (cfg_datas cfg)
      (fst i \<mapsto> v\<lparr>cv_val := take_text v (node_text Y (snd i)) (cv_val v)\<rparr>), cfg_host := s'\<rparr>)"
    by (simp add: load_one_def LookupBase_def var_fromString_def)
  moreover have "((cfg_datas cfg)(fst i \<mapsto> v\<lparr>cv_val := take_text v (node_text Y (snd i)) (cv_val v)\<rparr>)) name =
      map_option (given Y [i] name) (cfg_datas cfg name)" for name
    using v by (cases "cfg_datas cfg name") (auto simp: given_def texts_of_def)
  ultimately show ?thesis by simp
qed

lemma fold_fixed: "\<forall>t \<in> set ts. f t y = y \<Longrightarrow> fold f ts y = y"
  by (induction ts) simp_all

lemma load_nodes_plain:
  assumes "\<forall>v \<in> ran (cfg_datas cfg). plain_var v" and "\<forall>i \<in> set is. valid_name (fst i)"
  shows "\<exists>cfg'. load_nodes Y H is cfg = Returns cfg'
    \<and> (\<forall>name. cfg_datas cfg' name = map_option (given Y is name) (cfg_datas cfg name))"
  using assms
proof (induction "is" arbitrary: cfg)
  case Nil
  have "cfg_datas cfg name = map_option (given Y [] name) (cfg_datas cfg name)" for name
    by (cases "cfg_datas cfg name") (simp_all add: given_def texts_of_def)
  then show ?case by simp
next
  case (Cons i "is")
  from load_one_plain [OF Cons.prems(1)] Cons.prems(2) obtain cfg1 where one:
    "load_one Y H i cfg = Returns cfg1"
    "\<And>name. cfg_datas cfg1 name = map_option (given Y [i] name) (cfg_datas cfg name)" by fastforce
  have "\<forall>v \<in> ran (cfg_datas cfg1). plain_var v"
  proof
    fix v assume "v \<in> ran (cfg_datas cfg1)"
    then obtain name w where "cfg_datas cfg name = Some w" "v = given Y [i] name w"
      by (auto simp: ran_def one(2))
    with Cons.prems(1) show "plain_var v" by (auto simp: given_def plain_var_val ran_def)
  qed
  from Cons.IH [OF this] Cons.prems(2) obtain cfg' where rest: "load_nodes Y H is cfg1 = Returns cfg'"
    "\<And>name. cfg_datas cfg' name = map_option (given Y is name) (cfg_datas cfg1 name)" by auto
  have "given Y is name (given Y [i] name v) = given Y (i # is) name v" for name v
    by (simp add: given_def plain_var_val texts_of_def)
  then have "cfg_datas cfg' name = map_option (given Y (i # is) name) (cfg_datas cfg name)" for name
    by (cases "cfg_datas cfg name") (simp_all add: rest(2) one(2))
  with one(1) rest(1) show ?case by auto
qed

text \<open>
  C7: Loading a document into variables without listeners, whose conversions fail, if they do, with
  a \<open>std::exception\<close>. The call returns; no variable is added or removed; and every variable ends
  with the last text listed under its name that its type converts, or with its old value if there
  is none: texts that do not convert, the members of other names and the empty name change
  nothing, and name, type and description of the variables stay.
\<close>

theorem LoadFromYaml_sets:
  assumes "config_ok cfg" and "\<forall>v \<in> ran (cfg_datas cfg). plain_var v"
  shows "\<exists>cfg'. LoadFromYaml Y H root cfg = Returns cfg' \<and> config_ok cfg'
    \<and> dom (cfg_datas cfg') = dom (cfg_datas cfg)
    \<and> (\<forall>name v. cfg_datas cfg name = Some v \<longrightarrow>
         cfg_datas cfg' name = Some (given Y (members [] root) name v)
         \<and> ((\<forall>m. \<not> listed [] root name m) \<longrightarrow> cfg_datas cfg' name = Some v)
         \<and> (\<forall>before m after x. name \<noteq> [] \<longrightarrow> members [] root = before @ (name, m) # after \<longrightarrow>
              t_from (cv_type v) (node_text Y m) = Inr x \<longrightarrow>
              (\<forall>n. (name, n) \<in> set after \<longrightarrow> (\<exists>e. t_from (cv_type v) (node_text Y n) = Inl e)) \<longrightarrow>
              cfg_datas cfg' name = Some (v\<lparr>cv_val := x\<rparr>)))"
proof -
  obtain s where s: "ListAllMember Y H [] root ([], cfg_host cfg) = (members [] root, s)"
    using ListAllMember_members [of Y H "[]" root "([], cfg_host cfg)"] by (metis append_Nil fst_conv surj_pair)
  have valid: "\<forall>i \<in> set (members [] root). valid_name (fst i)"
    using members_listed listed_valid by fastforce
  from load_nodes_plain [OF _ valid, of "cfg\<lparr>cfg_host := s\<rparr>" Y H] assms(2) obtain cfg' where
    load: "load_nodes Y H (members [] root) (cfg\<lparr>cfg_host := s\<rparr>) = Returns cfg'"
    and datas: "\<And>name. cfg_datas cfg' name = map_option (given Y (members [] root) name) (cfg_datas cfg name)"
    by auto
  have unlisted: "given Y (members [] root) name v = v" if "\<forall>m. \<not> listed [] root name m" for name v
  proof -
    have "texts_of Y (members [] root) name = []"
      using that members_listed [of name _ "[]" root] by (auto simp: texts_of_def filter_empty_conv)
    then show ?thesis by (simp add: given_def)
  qed
  have last: "given Y (members [] root) name v = v\<lparr>cv_val := x\<rparr>"
    if "name \<noteq> []" "members [] root = before @ (name, m) # after" "t_from (cv_type v) (node_text Y m) = Inr x"
      "\<forall>n. (name, n) \<in> set after \<longrightarrow> (\<exists>e. t_from (cv_type v) (node_text Y n) = Inl e)"
    for name v before m after x
  proof -
    have "fold (take_text v) (texts_of Y after name) y = y" for y
      by (rule fold_fixed) (use that(4) in \<open>auto simp: texts_of_def take_text_def\<close>)
    with that(1-3) show ?thesis by (simp add: given_def texts_of_def take_text_def)
  qed
  have "config_ok cfg'"
    using assms(1) datas by (auto simp: config_ok_def given_def)
  moreover have "dom (cfg_datas cfg') = dom (cfg_datas cfg)" by (auto simp: dom_def datas)
  moreover have "LoadFromYaml Y H root cfg = Returns cfg'" using s load by (simp add: LoadFromYaml_def)
  moreover have each: "cfg_datas cfg' name = Some (given Y (members [] root) name v)"
    if "cfg_datas cfg name = Some v" for name v
    by (simp add: datas that)
  moreover have "cfg_datas cfg' name = Some v"
    if "cfg_datas cfg name = Some v" "\<forall>m. \<not> listed [] root name m" for name v
    using each [OF that(1)] unlisted [OF that(2)] by simp
  moreover have "cfg_datas cfg' name = Some (v\<lparr>cv_val := x\<rparr>)"
    if "cfg_datas cfg name = Some v" "name \<noteq> []" "members [] root = before @ (name, m) # after"
      "t_from (cv_type v) (node_text Y m) = Inr x"
      "\<forall>n. (name, n) \<in> set after \<longrightarrow> (\<exists>e. t_from (cv_type v) (node_text Y n) = Inl e)"
    for name v before m after x
    using each [OF that(1)] last [OF that(2-5)] by (rule HOL.trans [OF _ arg_cong [of _ _ Some]])
  ultimately show ?thesis by blast
qed

section \<open>Instances\<close>

definition sample_config :: "(nat, nat list) config" where
  "sample_config =
     \<lparr>cfg_datas = [''port'' \<mapsto> new_ConfigVar sample_type ''port'' 5 []], cfg_host = []\<rparr>"

lemma sample_valid: "valid_name ''port''" "valid_name ''net.port''" "valid_name []"
  by (simp_all add: valid_name_iff valid_chars_def)

lemma sample_config_ok: "config_ok sample_config"
  using sample_valid by (simp add: config_ok_def sample_config_def valid_name_lower)

theorem names_with_d_or_9_rejected_witness:
  "fst (Lookup sample_host sample_type ''id'' 1 [] sample_config) = Inl (Std_exception ''id'')
   \<and> fst (Lookup sample_host sample_type ''port9'' 1 [] sample_config) = Inl (Std_exception ''port9'')
   \<and> fst (Lookup sample_host sample_type ''port8'' 1 [] sample_config) = Inr (Some ''port8'')"
  using names_with_d_or_9_rejected [of sample_config sample_host sample_type 1 "[]"]
  by (simp add: sample_config_def)

theorem Lookup_get_or_create_witness:
  "(case Lookup sample_host sample_type ''net.port'' 80 [] sample_config of
      (r, cfg') \<Rightarrow> r = Inr (Some ''net.port'') \<and> config_ok cfg'
        \<and> cfg_datas cfg' ''net.port'' = Some (new_ConfigVar sample_type ''net.port'' 80 [])
        \<and> fst (Lookup sample_host sample_type ''net.port'' 80 []
             (snd (Lookup sample_host sample_type ''port'' 80 [] cfg'))) = r)"
proof -
  obtain r cfg' where l: "Lookup sample_host sample_type ''net.port'' 80 [] sample_config = (r, cfg')"
    by fastforce
  have none: "cfg_datas sample_config ''net.port'' = None" by (simp add: sample_config_def)
  have "permitted_as sample_type sample_config ''net.port''"
    "permitted_as sample_type sample_config ''port''"
    using sample_valid by (simp_all add: permitted_as_def sample_config_def)
  with Lookup_get_or_create [OF sample_config_ok l, of "[''port'']"] none sample_valid l
  show ?thesis by simp
qed

definition sample_doc :: yaml where
  "sample_doc = YMap [(YScalar ''port'', YScalar ''7''), (YScalar ''Net'', YMap [(YScalar ''port'', YNull)])]"

lemma sample_members: "members [] sample_doc = [([], sample_doc), (''port'', YScalar ''7'')]"
proof -
  have "\<not> valid_name ''Net''" by (simp add: valid_name_iff valid_chars_def)
  then show ?thesis
    using sample_valid
    by (simp add: sample_doc_def members.simps [of "[]"] members.simps [of "''port''"]
        members.simps [of "''Net''"] child_name_def)
qed

definition sample_yaml :: yaml_lib where
  "sample_yaml =
     \<lparr>y_Load = (\<lambda>s. Inr (YScalar s)), y_emit = (\<lambda>n. []),
      y_index = (\<lambda>n i. case n of YSeq xs \<Rightarrow> Inr (xs ! i) | _ \<Rightarrow> Inl (Std_exception [])),
      y_get = (\<lambda>n k. case n of YMap es \<Rightarrow> Inr (map_of es (YScalar k)) | YNull \<Rightarrow> Inr None
                             | _ \<Rightarrow> Inl (Std_exception [])),
      y_as_string = (\<lambda>n. case n of YScalar s \<Rightarrow> Inr s | _ \<Rightarrow> Inl (Std_exception [])),
      y_pairs = (\<lambda>n. case n of YMap es \<Rightarrow> Inr (map (\<lambda>(k, v). (Scalar_of k, v)) es)
                              | YSeq xs \<Rightarrow> Inl (Std_exception []) | _ \<Rightarrow> Inr [])\<rparr>"

theorem ListAllMember_lists_witness:
  "fst (ListAllMember sample_yaml sample_host [] sample_doc ([], [])) =
     [([], sample_doc), (''port'', YScalar ''7'')]
   \<and> lower ''port'' = ''port'' \<and> listed [] sample_doc ''port'' (YScalar ''7'')"
  using ListAllMember_lists [of sample_yaml sample_host "[]" sample_doc "[]" "[]"]
  by (auto simp: sample_members)

theorem LoadFromYaml_sets_witness:
  "\<exists>cfg'. LoadFromYaml sample_yaml sample_host sample_doc sample_config = Returns cfg'
    \<and> config_ok cfg' \<and> map_option cv_val (cfg_datas cfg' ''port'') = Some 7"
proof -
  let ?v = "new_ConfigVar sample_type ''port'' 5 []"
  have plain: "\<forall>v \<in> ran (cfg_datas sample_config). plain_var v"
    by (auto simp: sample_config_def plain_var_def sample_type_def ran_def split: if_splits)
  have v: "cfg_datas sample_config ''port'' = Some ?v" by (simp add: sample_config_def)
  have "\<exists>cfg'. LoadFromYaml sample_yaml sample_host sample_doc sample_config = Returns cfg' \<and> config_ok cfg'
      \<and> cfg_datas cfg' ''port'' = Some (given sample_yaml (members [] sample_doc) ''port'' ?v)"
    using LoadFromYaml_sets [OF sample_config_ok plain, of sample_yaml sample_host sample_doc]
    by (elim exE conjE, intro exI conjI) (assumption, assumption, simp only: v)
  then obtain cfg' where "LoadFromYaml sample_yaml sample_host sample_doc sample_config = Returns cfg'"
    "config_ok cfg'" "cfg_datas cfg' ''port'' = Some (given sample_yaml (members [] sample_doc) ''port'' ?v)"
    by blast
  then show ?thesis
    by (simp add: sample_members given_def texts_of_def take_text_def node_text_def sample_type_def)
qed

end
