(* ===== verification/Log_Config.thy ===== *)
theory Log_Config
  imports Logger_Manager Config_Registry
begin

text \<open>
  The logging configuration (\<open>chord/logger.cpp\<close>, lines 655-886): the definitions \<open>LogDefine\<close>
  and \<open>LogAppenderDefine\<close>, their conversion from and to YAML text, and the listener of
  \<open>LogIniter\<close> that applies a changed set of definitions to the loggers.
\<close>

section \<open>Definitions\<close>

record LogAppenderDefine =
  lad_type :: nat
  lad_level :: Level
  lad_formatter :: string
  lad_file :: string

record LogDefine =
  ld_name :: string
  ld_level :: Level
  ld_formatter :: string
  ld_appenders :: "LogAppenderDefine list"

definition new_LogAppenderDefine :: LogAppenderDefine where
  "new_LogAppenderDefine =
     \<lparr>lad_type = 0, lad_level = UNKNOWN, lad_formatter = [], lad_file = []\<rparr>"

definition new_LogDefine :: LogDefine where
  "new_LogDefine = \<lparr>ld_name = [], ld_level = UNKNOWN, ld_formatter = [], ld_appenders = []\<rparr>"

text \<open>The two \<open>operator==\<close>.\<close>

definition LogAppenderDefine_eq :: "LogAppenderDefine \<Rightarrow> LogAppenderDefine \<Rightarrow> bool" where
  "LogAppenderDefine_eq a b \<longleftrightarrow>
     lad_type a = lad_type b \<and> lad_level a = lad_level b \<and> lad_formatter a = lad_formatter b
     \<and> lad_file a = lad_file b"

definition LogDefine_eq :: "LogDefine \<Rightarrow> LogDefine \<Rightarrow> bool" where
  "LogDefine_eq a b \<longleftrightarrow>
     ld_name a = ld_name b \<and> ld_level a = ld_level b \<and> ld_formatter a = ld_formatter b
     \<and> list_all2 LogAppenderDefine_eq (ld_appenders a) (ld_appenders b)"

lemma LogAppenderDefine_eq_iff [simp]: "LogAppenderDefine_eq = (=)"
  by (auto simp: LogAppenderDefine_eq_def fun_eq_iff)

lemma LogDefine_eq_iff [simp]: "LogDefine_eq a b \<longleftrightarrow> a = b"
  by (auto simp: LogDefine_eq_def list.rel_eq)

text \<open>
  \<open>std::set<LogDefine>\<close> is ordered by \<open>operator<\<close>, which compares the names: a list sorted
  by \<open>ld_name\<close>, with \<open>oset_insert\<close> and \<open>oset_find\<close>.
\<close>

type_synonym define_set = "LogDefine list"

definition set_insert :: "LogDefine \<Rightarrow> define_set \<Rightarrow> define_set" where
  "set_insert = oset_insert ld_name"

definition set_find :: "LogDefine \<Rightarrow> define_set \<Rightarrow> LogDefine option" where
  "set_find = oset_find ld_name"

section \<open>From YAML\<close>

text \<open>
  One appender of a logger: \<open>None\<close> when the loop goes on without adding it. The second
  component is the line printed to \<open>std::cout\<close> (the line is lost in the model when a later
  conversion throws).
\<close>

definition get_string :: "yaml_lib \<Rightarrow> yaml \<Rightarrow> string \<Rightarrow> exn + string option" where
  "get_string Y n k =
     sum_bind (y_get Y n k)
       (\<lambda>m. case m of None \<Rightarrow> Inr None | Some v \<Rightarrow> sum_bind (y_as_string Y v) (\<lambda>s. Inr (Some s)))"

definition config_error :: "yaml_lib \<Rightarrow> string \<Rightarrow> yaml \<Rightarrow> string" where
  "config_error Y what n = ''log config error: '' @ what @ '' is null '' @ y_emit Y n @ newline"

definition appender_from_node ::
  "yaml_lib \<Rightarrow> yaml \<Rightarrow> exn + LogAppenderDefine option \<times> string" where
  "appender_from_node Y a =
     sum_bind (get_string Y a ''type'') (\<lambda>t.
       case t of
         None \<Rightarrow> Inr (None, config_error Y ''appender'' a)
       | Some type \<Rightarrow>
           if type = ''FileLogAppender'' then
             sum_bind (get_string Y a ''file'') (\<lambda>f.
               case f of
                 None \<Rightarrow> Inr (None, config_error Y ''file appender'' a)
               | Some file \<Rightarrow>
                   sum_bind (get_string Y a ''formatter'') (\<lambda>fm.
                     Inr (Some (new_LogAppenderDefine\<lparr>lad_type := 1, lad_file := file,
                                 lad_formatter := (case fm of None \<Rightarrow> [] | Some s \<Rightarrow> s)\<rparr>), [])))
           else if type = ''StdoutLogAppender'' then
             Inr (Some (new_LogAppenderDefine\<lparr>lad_type := 2\<rparr>), [])
           else Inr (Some new_LogAppenderDefine, config_error Y ''appender'' a))"

definition add_appender_at ::
  "yaml_lib \<Rightarrow> yaml \<Rightarrow> nat \<Rightarrow> LogDefine \<times> string \<Rightarrow> exn + LogDefine \<times> string" where
  "add_appender_at Y as x = (\<lambda>(ld, out).
     sum_bind (y_index Y as x) (\<lambda>a.
     sum_bind (appender_from_node Y a) (\<lambda>(lad, line).
       Inr (case lad of
              None \<Rightarrow> ld
            | Some l \<Rightarrow> ld\<lparr>ld_appenders := ld_appenders ld @ [l]\<rparr>, out @ line))))"

definition define_at ::
  "yaml_lib \<Rightarrow> yaml \<Rightarrow> nat \<Rightarrow> define_set \<times> string \<Rightarrow> exn + define_set \<times> string" where
  "define_at Y node i = (\<lambda>(vec, out).
     sum_bind (y_index Y node i) (\<lambda>n.
     sum_bind (get_string Y n ''name'') (\<lambda>nm.
       case nm of
         None \<Rightarrow> Inr (vec, out @ config_error Y ''name'' n)
       | Some name \<Rightarrow>
           sum_bind (get_string Y n ''level'') (\<lambda>lv.
           sum_bind (get_string Y n ''formatter'') (\<lambda>fm.
             let ld = new_LogDefine\<lparr>ld_name := name,
                        ld_level := FromString (case lv of None \<Rightarrow> [] | Some s \<Rightarrow> s),
                        ld_formatter := (case fm of None \<Rightarrow> [] | Some s \<Rightarrow> s)\<rparr>
             in sum_bind (y_get Y n ''appenders'') (\<lambda>as.
                  sum_bind
                    (case as of
                       None \<Rightarrow> Inr (ld, out)
                     | Some asn \<Rightarrow>
                         for_each (add_appender_at Y asn) [0..<node_size asn] (ld, out))
                    (\<lambda>(ld', out'). Inr (set_insert ld' vec, out'))))))))"

text \<open>\<open>LexicalCast<std::string, std::set<LogDefine>>\<close>.\<close>

definition defines_from_string :: "yaml_lib \<Rightarrow> string \<Rightarrow> exn + define_set \<times> string" where
  "defines_from_string Y v =
     sum_bind (y_Load Y v) (\<lambda>node. for_each (define_at Y node) [0..<node_size node] ([], []))"

section \<open>To YAML\<close>

definition appender_define_node :: "LogAppenderDefine \<Rightarrow> yaml" where
  "appender_define_node a =
     (let n1 = (if lad_type a = 1 then
                  node_put ''file'' (YScalar (lad_file a))
                    (node_put ''type'' (YScalar ''FileLogAppender'') YNull)
                else if lad_type a = 2 then node_put ''type'' (YScalar ''StdoutLogAppender'') YNull
                else YNull);
          n2 = (if lad_level a \<noteq> UNKNOWN then node_put ''level'' (YScalar (ToString (lad_level a))) n1
                else n1)
      in if lad_formatter a \<noteq> [] then node_put ''formatter'' (YScalar (lad_formatter a)) n2 else n2)"

definition define_node :: "LogDefine \<Rightarrow> yaml" where
  "define_node i =
     (let n1 = node_put ''name'' (YScalar (ld_name i)) YNull;
          n2 = (if ld_level i = UNKNOWN then node_put ''level'' (YScalar (ToString (ld_level i))) n1
                else n1);
          n3 = (if ld_formatter i \<noteq> [] then node_put ''formatter'' (YScalar (ld_formatter i)) n2
                else n2)
      in fold (\<lambda>a n. node_put ''appenders''
                 (node_push (appender_define_node a)
                   (case map_of (node_entries n) (YScalar ''appenders'') of
                      None \<Rightarrow> YNull | Some m \<Rightarrow> m)) n)
           (ld_appenders i) n3)"

text \<open>\<open>LexicalCast<std::set<LogDefine>, std::string>\<close>.\<close>

definition defines_node :: "define_set \<Rightarrow> yaml" where
  "defines_node v = fold (\<lambda>i node. node_push (define_node i) node) v YNull"

definition defines_to_string :: "yaml_lib \<Rightarrow> define_set \<Rightarrow> string" where
  "defines_to_string Y v = y_emit Y (defines_node v)"

section \<open>The listener\<close>

text \<open>
  Applying one appender definition. \<open>uninit\<close> is the indeterminate \<open>m_lastTime\<close> of a new file
  appender; any type other than 1 and 2 leaves the pointer null.
\<close>

definition make_defined :: "64 word \<Rightarrow> LogAppenderDefine \<Rightarrow> log_state \<Rightarrow> nat option \<times> log_state" where
  "make_defined uninit a st =
     (if lad_type a = 1 then
        (case make_FileLogAppender uninit (lad_file a) st of (i, st') \<Rightarrow> (Some i, st'))
      else if lad_type a = 2 then
        (case make_StdOutLogAppender st of (i, st') \<Rightarrow> (Some i, st'))
      else (None, st))"

definition set_defined_formatter :: "string \<Rightarrow> LogAppenderDefine \<Rightarrow> nat \<Rightarrow> log_state \<Rightarrow> log_state may_crash"
where
  "set_defined_formatter name a ap st =
     (if lad_formatter a \<noteq> [] then
        (case new_LogFormatter (lad_formatter a) of
           (fmt, out) \<Rightarrow>
             if \<not> m_error fmt then appender_setFormatter ap (Some fmt) (print_st out st)
             else Inr (print_st (''log name='' @ name @ ''appender type='' @ dec_nat (lad_type a)
                        @ ''formatter'' @ lad_formatter a @ ''invalid'' @ newline) (print_st out st)))
      else Inr st)"

definition add_defined ::
  "64 word \<Rightarrow> string \<Rightarrow> nat \<Rightarrow> LogAppenderDefine \<Rightarrow> log_state \<Rightarrow> log_state may_crash" where
  "add_defined uninit name logger a st =
     (case make_defined uninit a st of
        (None, st') \<Rightarrow> Inl Null_deref
      | (Some ap, st') \<Rightarrow>
          sum_bind (appender_setLevel ap (lad_level a) st') (\<lambda>st1.
          sum_bind (set_defined_formatter name a ap st1)
            (Logger_addAppender logger (Some ap))))"

text \<open>One definition of the new set: \<open>logger\<close> stays null when the old set holds an equal one.\<close>

definition pick_logger :: "define_set \<Rightarrow> LogDefine \<Rightarrow> log_state \<Rightarrow> nat option \<times> log_state" where
  "pick_logger old_value i st =
     (case set_find i old_value of
        None \<Rightarrow> (case getLogger (ld_name i) st of (l, st') \<Rightarrow> (Some l, st'))
      | Some it \<Rightarrow>
          if \<not> LogDefine_eq i it then (case getLogger (ld_name i) st of (l, st') \<Rightarrow> (Some l, st'))
          else (None, st))"

definition configure_logger :: "64 word \<Rightarrow> LogDefine \<Rightarrow> nat \<Rightarrow> log_state \<Rightarrow> log_state may_crash" where
  "configure_logger uninit i logger st =
     sum_bind (Logger_setLevel logger (ld_level i) st) (\<lambda>st1.
     sum_bind (if ld_formatter i \<noteq> [] then Logger_setFormatter_str logger (ld_formatter i) st1
               else Inr st1) (\<lambda>st2.
     sum_bind (Logger_clearAppenders logger st2)
       (for_each (add_defined uninit (ld_name i) logger) (ld_appenders i))))"

definition apply_define :: "64 word \<Rightarrow> define_set \<Rightarrow> LogDefine \<Rightarrow> log_state \<Rightarrow> log_state may_crash" where
  "apply_define uninit old_value i st =
     (case pick_logger old_value i st of
        (None, st') \<Rightarrow> Inl Null_deref
      | (Some logger, st') \<Rightarrow> configure_logger uninit i logger st')"

text \<open>One definition of the old set: a logger that is gone gets level 100 and no appenders.\<close>

abbreviation too_high :: Level where "too_high \<equiv> Level 100"

definition retire_define :: "define_set \<Rightarrow> LogDefine \<Rightarrow> log_state \<Rightarrow> log_state may_crash" where
  "retire_define new_value i st =
     (case set_find i new_value of
        None \<Rightarrow>
          (case getLogger (ld_name i) st of
             (logger, st') \<Rightarrow>
               sum_bind (Logger_setLevel logger too_high st') (Logger_clearAppenders logger))
      | Some it \<Rightarrow> Inr st)"

definition apply_defines ::
  "64 word \<Rightarrow> define_set \<Rightarrow> define_set \<Rightarrow> log_state \<Rightarrow> log_state may_crash" where
  "apply_defines uninit old_value new_value st =
     sum_bind (for_each (apply_define uninit old_value) new_value st)
       (for_each (retire_define new_value) old_value)"

text \<open>The listener: a line to the root logger, then the two loops.\<close>

definition as_outcome :: "'s may_crash option \<Rightarrow> 's outcome" where
  "as_outcome r =
     (case r of
        None \<Rightarrow> Crashes Deadlock
      | Some (Inl c) \<Rightarrow> Crashes c
      | Some (Inr s) \<Rightarrow> Returns s)"

definition conf_listener ::
  "log_env \<Rightarrow> log_site \<Rightarrow> 64 word \<Rightarrow> (define_set, log_state) on_change_cb" where
  "conf_listener env site uninit old_value new_value st =
     (case CHORD_LOG_LEVEL env site (mgr_root st) INFO ''on_logger_conf_changed'' st of
        Some (Inr st') \<Rightarrow> as_outcome (Some (apply_defines uninit old_value new_value st'))
      | r \<Rightarrow> as_outcome r)"

text \<open>The variable \<open>g_log_defines\<close>, registered as "logs", with the listener installed.\<close>

definition log_define_type :: "yaml_lib \<Rightarrow> string \<Rightarrow> define_set type_ops" where
  "log_define_type Y type_id =
     \<lparr>t_name = type_id, t_from = (\<lambda>v. map_sum (\<lambda>e. e) fst (defines_from_string Y v)),
      t_to = (\<lambda>v. Inr (defines_to_string Y v))\<rparr>"

definition install_log_conf ::
  "log_env \<Rightarrow> log_site \<Rightarrow> 64 word \<Rightarrow> yaml_lib \<Rightarrow> string \<Rightarrow> log_state host
     \<Rightarrow> (define_set, log_state) config \<Rightarrow> (define_set, log_state) config" where
  "install_log_conf env site uninit Y type_id H cfg =
     (case Lookup H (log_define_type Y type_id) ''logs'' [] ''logs config'' cfg of
        (_, cfg') \<Rightarrow>
          (case cfg_datas cfg' ''logs'' of
             None \<Rightarrow> cfg'
           | Some v \<Rightarrow>
               (case addListener (conf_listener env site uninit) 0 v of
                  (_, _, v') \<Rightarrow> cfg'\<lparr>cfg_datas := (cfg_datas cfg')(''logs'' \<mapsto> v')\<rparr>)))"

end
