(* ===== verification/Log_Config_Laws.thy ===== *)
theory Log_Config_Laws
  imports Log_Config
begin

text \<open>
  What the logging configuration does: when the listener of \<open>LogIniter\<close> ends the process, what
  the loggers look like after it has run, and what survives a trip through YAML text.
\<close>

section \<open>When the listener fails\<close>

lemma for_each_stuck:
  assumes "x \<in> set xs" and "\<And>s. \<exists>e. f x s = Inl e"
  shows "\<exists>e. for_each f xs s = Inl e"
  using assms(1)
proof (induction xs arbitrary: s)
  case (Cons y ys)
  show ?case
  proof (cases "f y s")
    case (Inr t)
    with assms(2) [of s] Cons.prems have "x \<in> set ys" by (cases "x = y") auto
    with Cons.IH Inr show ?thesis by simp
  qed simp
qed simp

text \<open>Calls whose only crash is a null pointer.\<close>

definition null_only :: "'a may_crash \<Rightarrow> bool" where
  "null_only r \<longleftrightarrow> (\<forall>e. r = Inl e \<longrightarrow> e = Null_deref)"

named_theorems null_intros "calls whose only crash is a null pointer"

lemma null_only_basic [null_intros]: "null_only (Inr a)" "null_only (Inl Null_deref)"
  by (simp_all add: null_only_def)

lemma null_only_bind [null_intros]:
  "null_only r \<Longrightarrow> (\<And>a. null_only (f a)) \<Longrightarrow> null_only (sum_bind r f)"
  by (cases r) (auto simp: null_only_def)

lemma null_only_for_each [null_intros]:
  "(\<And>x s. null_only (f x s)) \<Longrightarrow> null_only (for_each f xs s)"
  by (induction xs arbitrary: s) (auto intro: null_intros)

lemma null_only_upd [null_intros]: "null_only (upd_logger l f st)" "null_only (upd_appender i h st)"
  by (simp_all add: upd_logger_def upd_appender_def null_only_basic split: option.split)

lemma null_only_Logger_ops [null_intros]:
  "null_only (Logger_setLevel l v st)"
  "null_only (Logger_clearAppenders l st)"
  "null_only (Logger_addAppender l i st)"
  "null_only (Logger_setFormatter l f st)"
  "null_only (appender_setLevel j v st)"
  "null_only (appender_setFormatter j f st)"
  by (auto simp: Logger_setLevel_def Logger_clearAppenders_def Logger_addAppender_def
      Logger_setFormatter_def appender_setLevel_def appender_setFormatter_def
      split: option.split intro!: null_intros)

lemma null_only_Logger_setFormatter_str [null_intros]: "null_only (Logger_setFormatter_str l v st)"
  by (auto simp: Logger_setFormatter_str_def split: option.split prod.split intro!: null_intros)

lemma null_only_add_defined [null_intros]: "null_only (add_defined u n l a st)"
  by (auto simp: add_defined_def set_defined_formatter_def
      split: option.split prod.split intro!: null_intros)

lemma null_only_configure_logger [null_intros]: "null_only (configure_logger u i l st)"
  by (auto simp: configure_logger_def intro!: null_intros)

lemma null_only_apply_define [null_intros]: "null_only (apply_define u old i st)"
  by (auto simp: apply_define_def split: option.split prod.split intro!: null_intros)

text \<open>The appender types the listener can build.\<close>

definition known_type :: "LogAppenderDefine \<Rightarrow> bool" where
  "known_type a \<longleftrightarrow> lad_type a = 1 \<or> lad_type a = 2"

text \<open>A definition the listener cannot apply: it was there before, or it has such an appender.\<close>

definition fatal_define :: "define_set \<Rightarrow> LogDefine \<Rightarrow> bool" where
  "fatal_define old i \<longleftrightarrow> set_find i old = Some i \<or> (\<exists>a \<in> set (ld_appenders i). \<not> known_type a)"

lemma add_defined_unknown: "\<not> known_type a \<Longrightarrow> add_defined u n l a st = Inl Null_deref"
  by (simp add: known_type_def add_defined_def make_defined_def)

lemma configure_logger_unknown:
  assumes "a \<in> set (ld_appenders i)" and "\<not> known_type a"
  shows "\<exists>e. configure_logger u i l st = Inl e"
proof -
  have "\<exists>e. for_each (add_defined u (ld_name i) l) (ld_appenders i) s = Inl e" for s
    by (rule for_each_stuck [OF assms(1)]) (simp add: add_defined_unknown [OF assms(2)])
  then show ?thesis
    unfolding configure_logger_def sum_bind_def by (simp split: sum.split)
qed

lemma apply_define_fatal:
  assumes "fatal_define old i"
  shows "\<exists>e. apply_define u old i st = Inl e"
proof (cases "set_find i old = Some i")
  case True
  then show ?thesis by (simp add: apply_define_def pick_logger_def)
next
  case False
  with assms obtain a where "a \<in> set (ld_appenders i)" "\<not> known_type a"
    by (auto simp: fatal_define_def)
  from configure_logger_unknown [OF this] show ?thesis
    by (auto simp: apply_define_def split: prod.split option.split)
qed

lemma apply_defines_fatal:
  assumes "i \<in> set new" and "fatal_define old i"
  shows "apply_defines u old new st = Inl Null_deref"
proof -
  obtain e where e: "for_each (apply_define u old) new st = Inl e"
    using for_each_stuck [where f = "apply_define u old", OF assms(1)]
      apply_define_fatal [OF assms(2)] by blast
  moreover have "null_only (for_each (apply_define u old) new st)" by (intro null_intros)
  ultimately show ?thesis by (simp add: apply_defines_def null_only_def)
qed

section \<open>What one definition changes\<close>

text \<open>
  \<open>foreign st l i\<close>: the appender \<open>i\<close> exists and does not hang in logger \<open>l\<close>. Working on logger
  \<open>l\<close> leaves every other logger and every foreign appender as it is, and foreign.
\<close>

definition foreign :: "log_state \<Rightarrow> nat \<Rightarrow> nat \<Rightarrow> bool" where
  "foreign st l i \<longleftrightarrow>
     appenders st i \<noteq> None \<and> (\<forall>g. loggers st l = Some g \<longrightarrow> i \<notin> set (lg_appenders g))"

definition works_on :: "nat \<Rightarrow> log_state \<Rightarrow> log_state \<Rightarrow> bool" where
  "works_on l st st' \<longleftrightarrow>
     (\<forall>k. k \<noteq> l \<longrightarrow> loggers st' k = loggers st k) \<and> mgr_root st' = mgr_root st
     \<and> (\<forall>n k. map_of (mgr_loggers st) n = Some k \<longrightarrow> map_of (mgr_loggers st') n = Some k)
     \<and> (\<forall>i. foreign st l i \<longrightarrow> foreign st' l i \<and> appenders st' i = appenders st i)"

lemma works_on_refl [simp]: "works_on l st st"
  by (simp add: works_on_def)

lemma works_on_trans: "works_on l s t \<Longrightarrow> works_on l t u \<Longrightarrow> works_on l s u"
  unfolding works_on_def by metis

lemma works_on_write:
  assumes "loggers st l = Some g" and "set (lg_appenders g') \<subseteq> set (lg_appenders g)"
  shows "works_on l st (st\<lparr>loggers := (loggers st)(l \<mapsto> g')\<rparr>)"
  using assms by (auto simp: works_on_def foreign_def)

lemma works_on_print [simp]: "works_on l st (print_st s st)"
  by (simp add: works_on_def foreign_def print_st_def)

lemma id_frame_print [simp]: "id_frame st (print_st s st)"
  by (simp add: id_frame_def print_st_def)

lemma works_on_setFormatter:
  assumes "store_ok st" and "loggers st l = Some g" and "Logger_setFormatter l f st = Inr st'"
  shows "works_on l st st' \<and> loggers st' l = Some (g\<lparr>lg_formatter := f\<rparr>)"
  using assms(2,3) unfolding Logger_setFormatter_eq [OF assms(1,2)]
  by (auto simp: works_on_def foreign_def split: option.split)

section \<open>Attaching the appenders of a definition\<close>

text \<open>The appender a definition asks for, on a logger with formatter \<open>f\<close>.\<close>

definition appender_as :: "LogAppenderDefine \<Rightarrow> LogFormatter option \<Rightarrow> LogAppender \<Rightarrow> bool" where
  "appender_as a f ap \<longleftrightarrow>
     (case ap_kind ap of
        StdOutLogAppender \<Rightarrow> lad_type a = 2
      | FileLogAppender fp \<Rightarrow> lad_type a = 1 \<and> m_filename fp = lad_file a)
     \<and> ap_level ap = lad_level a
     \<and> (if lad_formatter a \<noteq> [] \<and> \<not> m_error (formatter_of (lad_formatter a))
        then ap_has_formatter ap \<and> ap_formatter ap = Some (formatter_of (lad_formatter a))
        else \<not> ap_has_formatter ap \<and> ap_formatter ap = f)"

lemma reopen_filename: "reopen fp w = (b, fp', w') \<Longrightarrow> m_filename fp' = m_filename fp"
  by (auto simp: reopen_def Let_def split: prod.splits)

lemma make_defined_known:
  assumes "known_type a"
  shows "\<exists>ap w. make_defined u a st =
      (Some (next_loc st),
       st\<lparr>appenders := (appenders st)(next_loc st \<mapsto> ap), next_loc := next_loc st + 1, st_world := w\<rparr>)
    \<and> (case ap_kind ap of
        StdOutLogAppender \<Rightarrow> lad_type a = 2
      | FileLogAppender fp \<Rightarrow> lad_type a = 1 \<and> m_filename fp = lad_file a)
    \<and> \<not> ap_has_formatter ap \<and> ap_formatter ap = None"
proof (cases "lad_type a = 2")
  case True
  have "make_defined u a st =
      (Some (next_loc st),
       st\<lparr>appenders := (appenders st)(next_loc st \<mapsto> new_StdOutLogAppender),
          next_loc := next_loc st + 1, st_world := st_world st\<rparr>)"
    using True by (simp add: make_defined_def make_StdOutLogAppender_def alloc_appender_def)
  with True show ?thesis
    by (intro exI [of _ new_StdOutLogAppender] exI [of _ "st_world st"])
      (simp add: new_StdOutLogAppender_def new_appender_def)
next
  case False
  with assms have type: "lad_type a = 1" by (simp add: known_type_def)
  obtain b fp w where re: "reopen \<lparr>m_filename = lad_file a, m_filestream = closed_stream,
      m_lastTime = u\<rparr> (st_world st) = (b, fp, w)"
    by (metis prod_cases3)
  from reopen_filename [OF re] have "m_filename fp = lad_file a" by simp
  moreover have "make_defined u a st =
      (Some (next_loc st),
       st\<lparr>appenders := (appenders st)(next_loc st \<mapsto> new_appender (FileLogAppender fp)),
          next_loc := next_loc st + 1, st_world := w\<rparr>)"
    using type re
    by (simp add: make_defined_def make_FileLogAppender_def new_FileLogAppender_def alloc_appender_def)
  ultimately show ?thesis using type
    by (intro exI [of _ "new_appender (FileLogAppender fp)"] exI [of _ w])
      (simp add: new_appender_def)
qed

text \<open>The formatter of its own that a definition gives its appender.\<close>

definition own_formatter :: "LogAppenderDefine \<Rightarrow> LogAppender \<Rightarrow> LogAppender" where
  "own_formatter a ap =
     (if lad_formatter a \<noteq> [] \<and> \<not> m_error (formatter_of (lad_formatter a))
      then ap\<lparr>ap_formatter := Some (formatter_of (lad_formatter a)), ap_has_formatter := True\<rparr>
      else ap)"

lemma set_defined_formatter_eq:
  assumes "appenders st i = Some ap"
  shows "\<exists>w. set_defined_formatter n a i st =
    Inr (st\<lparr>appenders := (appenders st)(i \<mapsto> own_formatter a ap), st_world := w\<rparr>)"
proof -
  obtain fmt out where fmt: "new_LogFormatter (lad_formatter a) = (fmt, out)" by fastforce
  have same: "st\<lparr>st_world := w\<rparr> = st\<lparr>appenders := (appenders st)(i \<mapsto> ap), st_world := w\<rparr>" for w
    using assms by (intro log_state.equality) (simp_all add: fun_upd_idem)
  consider "lad_formatter a = []" | "lad_formatter a \<noteq> []" "m_error fmt"
    | "lad_formatter a \<noteq> []" "\<not> m_error fmt" by blast
  then show ?thesis
  proof cases
    case 1
    then have "set_defined_formatter n a i st = Inr (st\<lparr>st_world := st_world st\<rparr>)"
      by (simp add: set_defined_formatter_def)
    then have "set_defined_formatter n a i st =
        Inr (st\<lparr>appenders := (appenders st)(i \<mapsto> ap), st_world := st_world st\<rparr>)"
      by (simp only: same)
    with 1 show ?thesis by (intro exI [of _ "st_world st"]) (simp add: own_formatter_def)
  next
    case 2
    then have "\<exists>w. set_defined_formatter n a i st = Inr (st\<lparr>st_world := w\<rparr>)"
      using fmt by (simp add: set_defined_formatter_def print_st_def) blast
    with 2 same fmt show ?thesis by (auto simp: own_formatter_def)
  next
    case 3
    then have "set_defined_formatter n a i st =
        Inr (print_st out st\<lparr>appenders := (appenders st)(i \<mapsto> own_formatter a ap)\<rparr>)"
      using fmt assms
      by (simp add: set_defined_formatter_def appender_setFormatter_def upd_appender_Some
          LogAppender_setFormatter_def own_formatter_def)
    moreover have "print_st out st\<lparr>appenders := (appenders st)(i \<mapsto> own_formatter a ap)\<rparr> =
        st\<lparr>appenders := (appenders st)(i \<mapsto> own_formatter a ap),
           st_world := print_out out (st_world st)\<rparr>"
      by (rule log_state.equality) (simp_all add: print_st_def)
    ultimately show ?thesis by auto
  qed
qed

text \<open>One appender: it is new, it matches its definition, and it is the last of the list.\<close>

lemma add_defined_eq:
  assumes "known_type a" and "loggers st l = Some g"
  shows "\<exists>ap w. add_defined u n l a st =
      Inr (st\<lparr>loggers := (loggers st)(l \<mapsto> g\<lparr>lg_appenders := lg_appenders g @ [next_loc st]\<rparr>),
              appenders := (appenders st)(next_loc st \<mapsto> ap), next_loc := next_loc st + 1,
              st_world := w\<rparr>)
    \<and> appender_as a (lg_formatter g) ap"
proof -
  obtain ap w where made: "make_defined u a st =
      (Some (next_loc st),
       st\<lparr>appenders := (appenders st)(next_loc st \<mapsto> ap), next_loc := next_loc st + 1, st_world := w\<rparr>)"
    and ap: "case ap_kind ap of
        StdOutLogAppender \<Rightarrow> lad_type a = 2
      | FileLogAppender fp \<Rightarrow> lad_type a = 1 \<and> m_filename fp = lad_file a"
      "\<not> ap_has_formatter ap" "ap_formatter ap = None"
    using make_defined_known [OF assms(1), of u st] by blast
  let ?i = "next_loc st"
  let ?s = "st\<lparr>appenders := (appenders st)(?i \<mapsto> ap), next_loc := ?i + 1, st_world := w\<rparr>"
  let ?ap1 = "ap\<lparr>ap_level := lad_level a\<rparr>"
  let ?s1 = "?s\<lparr>appenders := (appenders ?s)(?i \<mapsto> ?ap1)\<rparr>"
  let ?ap2 = "own_formatter a ?ap1"
  let ?ap = "if ap_formatter ?ap2 = None then ?ap2\<lparr>ap_formatter := lg_formatter g\<rparr> else ?ap2"
  let ?g = "g\<lparr>lg_appenders := lg_appenders g @ [?i]\<rparr>"
  have level: "appender_setLevel ?i (lad_level a) ?s = Inr ?s1"
    by (simp add: appender_setLevel_def upd_appender_def)
  obtain w2 where fmt: "set_defined_formatter n a ?i ?s1 =
      Inr (?s1\<lparr>appenders := (appenders ?s1)(?i \<mapsto> ?ap2), st_world := w2\<rparr>)" (is "_ = Inr ?s2")
    using set_defined_formatter_eq [of ?s1 ?i ?ap1 n a] by auto
  have "Logger_addAppender l (Some ?i) ?s2 =
      Inr (?s2\<lparr>appenders := (appenders ?s2)(?i \<mapsto> ?ap), loggers := (loggers ?s2)(l \<mapsto> ?g)\<rparr>)"
    using assms(2) by (intro Logger_addAppender_eq) simp_all
  moreover have "?s2\<lparr>appenders := (appenders ?s2)(?i \<mapsto> ?ap), loggers := (loggers ?s2)(l \<mapsto> ?g)\<rparr> =
      st\<lparr>loggers := (loggers st)(l \<mapsto> ?g), appenders := (appenders st)(?i \<mapsto> ?ap),
         next_loc := ?i + 1, st_world := w2\<rparr>"
    by (rule log_state.equality) simp_all
  ultimately have "add_defined u n l a st =
      Inr (st\<lparr>loggers := (loggers st)(l \<mapsto> ?g), appenders := (appenders st)(?i \<mapsto> ?ap),
              next_loc := ?i + 1, st_world := w2\<rparr>)"
    unfolding add_defined_def made by (simp only: prod.case option.case level fmt sum_bind_simps)
  moreover have "appender_as a (lg_formatter g) ?ap"
    using ap by (simp add: appender_as_def own_formatter_def)
  ultimately show ?thesis by blast
qed

lemma add_defined_store_ok:
  assumes "store_ok st" and "loggers st l = Some g" and "appender_as a (lg_formatter g) ap"
  shows "store_ok (st\<lparr>loggers := (loggers st)(l \<mapsto> g\<lparr>lg_appenders := lg_appenders g @ [next_loc st]\<rparr>),
      appenders := (appenders st)(next_loc st \<mapsto> ap), next_loc := next_loc st + 1, st_world := w\<rparr>)"
proof -
  let ?i = "next_loc st"
  let ?s = "st\<lparr>st_world := w, appenders := (appenders st)(?i \<mapsto> ap), next_loc := ?i + 1\<rparr>"
  let ?g = "g\<lparr>lg_appenders := lg_appenders g @ [?i]\<rparr>"
  note gok = store_okD(2) [OF assms(1,2)]
  have s: "store_ok ?s"
    using alloc_appender_ok [of "st\<lparr>st_world := w\<rparr>" ap ?i ?s] assms(1)
    by (simp add: alloc_appender_def)
  have "ap_formatter ap \<noteq> None"
    using assms(3) gok by (auto simp: appender_as_def logger_ok_def split: if_splits)
  with store_okD(2) [OF s, of l g] assms(2) gok
  have "store_ok (?s\<lparr>loggers := (loggers ?s)(l \<mapsto> ?g)\<rparr>)"
    by (intro store_ok_write_logger [OF s, of l g]) (auto simp: logger_ok_def)
  moreover have "?s\<lparr>loggers := (loggers ?s)(l \<mapsto> ?g)\<rparr> =
      st\<lparr>loggers := (loggers st)(l \<mapsto> ?g), appenders := (appenders st)(?i \<mapsto> ap),
         next_loc := ?i + 1, st_world := w\<rparr>"
    by (rule log_state.equality) simp_all
  ultimately show ?thesis by (simp only:)
qed

text \<open>The appenders of logger \<open>g\<close> in state \<open>st\<close> are those of the definitions \<open>as\<close>.\<close>

definition appenders_as ::
  "log_state \<Rightarrow> LogFormatter option \<Rightarrow> LogAppenderDefine list \<Rightarrow> nat list \<Rightarrow> bool" where
  "appenders_as st f as is \<longleftrightarrow>
     list_all2 (\<lambda>a i. \<exists>ap. appenders st i = Some ap \<and> appender_as a f ap) as is"

lemma attach_all:
  assumes "store_ok st" and "loggers st l = Some g" and "\<forall>a \<in> set as. known_type a"
  shows "\<exists>st' is. for_each (add_defined u n l) as st = Inr st' \<and> store_ok st'
    \<and> loggers st' = (loggers st)(l \<mapsto> g\<lparr>lg_appenders := lg_appenders g @ is\<rparr>)
    \<and> mgr_loggers st' = mgr_loggers st \<and> mgr_root st' = mgr_root st
    \<and> (\<forall>i. appenders st i \<noteq> None \<longrightarrow> appenders st' i = appenders st i)
    \<and> appenders_as st' (lg_formatter g) as is \<and> (\<forall>i \<in> set is. appenders st i = None)"
  using assms
proof (induction as arbitrary: st g)
  case Nil
  then show ?case by (intro exI [of _ st] exI [of _ "[]"]) (simp add: fun_upd_idem appenders_as_def)
next
  case (Cons a as)
  let ?g = "g\<lparr>lg_appenders := lg_appenders g @ [next_loc st]\<rparr>"
  from Cons.prems(3) have "known_type a" by simp
  from add_defined_eq [OF this Cons.prems(2), of u n] obtain ap w
    where one: "add_defined u n l a st =
      Inr (st\<lparr>loggers := (loggers st)(l \<mapsto> ?g), appenders := (appenders st)(next_loc st \<mapsto> ap),
              next_loc := next_loc st + 1, st_world := w\<rparr>)" (is "_ = Inr ?s")
      and ap: "appender_as a (lg_formatter g) ap" by blast
  note s = add_defined_store_ok [OF Cons.prems(1,2) ap, of w]
  have "loggers ?s l = Some ?g" "\<forall>a \<in> set as. known_type a" using Cons.prems(3) by simp_all
  from Cons.IH [OF s this]
  obtain st' "is" where st': "for_each (add_defined u n l) as ?s = Inr st'" "store_ok st'"
    "loggers st' = (loggers ?s)(l \<mapsto> ?g\<lparr>lg_appenders := lg_appenders ?g @ is\<rparr>)"
    "mgr_loggers st' = mgr_loggers ?s" "mgr_root st' = mgr_root ?s"
    "\<forall>i. appenders ?s i \<noteq> None \<longrightarrow> appenders st' i = appenders ?s i"
    "appenders_as st' (lg_formatter ?g) as is" "\<forall>i \<in> set is. appenders ?s i = None"
    by (elim exE conjE)
  have fresh: "appenders st (next_loc st) = None" using store_ok_fresh [OF Cons.prems(1)] by simp
  have "appenders st' (next_loc st) = Some ap" using st'(6) by simp
  with st'(7) ap have "appenders_as st' (lg_formatter g) (a # as) (next_loc st # is)"
    by (simp add: appenders_as_def)
  moreover have "\<forall>i. appenders st i \<noteq> None \<longrightarrow> appenders st' i = appenders st i"
    using st'(6) fresh by auto
  moreover have "\<forall>i \<in> set (next_loc st # is). appenders st i = None"
    using st'(8) fresh by (auto split: if_splits)
  ultimately show ?case
    using one st'(1-5) by (intro exI [of _ st'] exI [of _ "next_loc st # is"]) simp
qed

section \<open>Configuring one logger\<close>

text \<open>
  Logger \<open>l\<close> is as definition \<open>i\<close> asks; \<open>f\<close> is the formatter it has when the definition names none,
  or one that does not parse.
\<close>

definition logger_as :: "log_state \<Rightarrow> LogFormatter option \<Rightarrow> LogDefine \<Rightarrow> nat \<Rightarrow> bool" where
  "logger_as st f i l \<longleftrightarrow>
     (\<exists>g. loggers st l = Some g \<and> lg_level g = ld_level i
        \<and> lg_formatter g =
            (if ld_formatter i \<noteq> [] \<and> \<not> m_error (formatter_of (ld_formatter i))
             then Some (formatter_of (ld_formatter i)) else f)
        \<and> appenders_as st (lg_formatter g) (ld_appenders i) (lg_appenders g))"

lemma setFormatter_str_works:
  assumes "store_ok st" and "loggers st l = Some g"
  shows "\<exists>st'. (if p \<noteq> [] then Logger_setFormatter_str l p st else Inr st) = Inr st' \<and> store_ok st'
    \<and> id_frame st st' \<and> works_on l st st'
    \<and> loggers st' l = Some (g\<lparr>lg_formatter := if p \<noteq> [] \<and> \<not> m_error (formatter_of p)
        then Some (formatter_of p) else lg_formatter g\<rparr>)"
proof (cases "p \<noteq> [] \<and> \<not> m_error (formatter_of p)")
  case True
  let ?s = "print_st (snd (new_LogFormatter p)) st"
  obtain st' where st': "Logger_setFormatter l (Some (formatter_of p)) ?s = Inr st'"
    using Logger_setFormatter_eq [of ?s l g] assms by simp
  have "store_ok ?s" "loggers ?s l = Some g" using assms by simp_all
  from works_on_setFormatter [OF this st'] Logger_setFormatter_ok [OF this(1) st']
    works_on_trans [OF works_on_print] id_frame_trans [OF id_frame_print]
  have "store_ok st'" "id_frame st st'" "works_on l st st'"
    "loggers st' l = Some (g\<lparr>lg_formatter := Some (formatter_of p)\<rparr>)" by blast+
  moreover have "Logger_setFormatter_str l p st = Inr st'"
    using assms(2) st' True by (cases "new_LogFormatter p") (simp add: Logger_setFormatter_str_def)
  ultimately show ?thesis using True by simp
next
  case False
  have "\<exists>s. (if p \<noteq> [] then Logger_setFormatter_str l p st else Inr st) = Inr (print_st s st)"
  proof (cases "p = []")
    case True
    then show ?thesis by (metis print_st_Nil)
  next
    case err: False
    with False assms(2) show ?thesis
      by (auto simp: Logger_setFormatter_str_def split: prod.split)
  qed
  with assms False show ?thesis by auto
qed

text \<open>No other logger shares an appender with logger \<open>l\<close>.\<close>

definition exclusive :: "log_state \<Rightarrow> nat \<Rightarrow> bool" where
  "exclusive st l \<longleftrightarrow>
     (\<forall>g k h. loggers st l = Some g \<longrightarrow> k \<noteq> l \<longrightarrow> loggers st k = Some h \<longrightarrow>
        set (lg_appenders g) \<inter> set (lg_appenders h) = {})"

lemma write_logger_works:
  assumes "store_ok st" and "loggers st l = Some g"
    and "lg_name g' = lg_name g" and "lg_root g' = lg_root g" and "lg_formatter g' = lg_formatter g"
    and "set (lg_appenders g') \<subseteq> set (lg_appenders g)"
  shows "store_ok (st\<lparr>loggers := (loggers st)(l \<mapsto> g')\<rparr>)"
    and "id_frame st (st\<lparr>loggers := (loggers st)(l \<mapsto> g')\<rparr>)"
    and "works_on l st (st\<lparr>loggers := (loggers st)(l \<mapsto> g')\<rparr>)"
  using upd_logger_ok [OF assms(1), of l "\<lambda>_. g'"] upd_logger_Some [OF assms(2), of "\<lambda>_. g'"]
    assms works_on_write [OF assms(2,6)] by (auto simp: logger_ok_def)

lemma attach_all_works:
  assumes "store_ok st" and "loggers st l = Some g" and "lg_appenders g = []"
    and "\<forall>a \<in> set as. known_type a"
  shows "\<exists>st' is. for_each (add_defined u n l) as st = Inr st' \<and> store_ok st' \<and> id_frame st st'
    \<and> works_on l st st' \<and> loggers st' l = Some (g\<lparr>lg_appenders := is\<rparr>)
    \<and> appenders_as st' (lg_formatter g) as is \<and> exclusive st' l"
proof -
  from attach_all [OF assms(1,2,4), where u = u and n = n, unfolded assms(3) append_Nil] obtain st' "is"
    where st': "for_each (add_defined u n l) as st = Inr st'" "store_ok st'"
      "loggers st' = (loggers st)(l \<mapsto> g\<lparr>lg_appenders := is\<rparr>)"
      "mgr_loggers st' = mgr_loggers st" "mgr_root st' = mgr_root st"
      "\<forall>i. appenders st i \<noteq> None \<longrightarrow> appenders st' i = appenders st i"
      "appenders_as st' (lg_formatter g) as is" "\<forall>i \<in> set is. appenders st i = None"
    by (elim exE conjE)
  have "works_on l st st'"
    using st' unfolding works_on_def foreign_def by auto
  moreover have "id_frame st st'"
    using st'(3-5) assms(2) by (auto simp: id_frame_def)
  moreover have "exclusive st' l"
    unfolding exclusive_def
  proof (intro allI impI)
    fix g' k h
    assume "loggers st' l = Some g'" "k \<noteq> l" "loggers st' k = Some h"
    with st'(3) have "g' = g\<lparr>lg_appenders := is\<rparr>" and k: "loggers st k = Some h" by auto
    moreover have "\<forall>i \<in> set (lg_appenders h). appenders st i \<noteq> None"
      using store_okD(2) [OF assms(1) k] by (auto simp: logger_ok_def)
    ultimately show "set (lg_appenders g') \<inter> set (lg_appenders h) = {}" using st'(8) by auto
  qed
  ultimately show ?thesis using st' by (intro exI [of _ st'] exI [of _ "is"]) simp
qed

lemma configure_logger_works:
  assumes "store_ok st" and "loggers st l = Some g" and "\<forall>a \<in> set (ld_appenders i). known_type a"
  shows "\<exists>st'. configure_logger u i l st = Inr st' \<and> store_ok st' \<and> id_frame st st'
    \<and> works_on l st st' \<and> logger_as st' (lg_formatter g) i l \<and> exclusive st' l"
proof -
  let ?g1 = "g\<lparr>lg_level := ld_level i\<rparr>"
  let ?s1 = "st\<lparr>loggers := (loggers st)(l \<mapsto> ?g1)\<rparr>"
  have s1: "store_ok ?s1" "id_frame st ?s1" "works_on l st ?s1" "loggers ?s1 l = Some ?g1"
    using write_logger_works [OF assms(1,2), of ?g1] by simp_all
  let ?f = "if ld_formatter i \<noteq> [] \<and> \<not> m_error (formatter_of (ld_formatter i))
    then Some (formatter_of (ld_formatter i)) else lg_formatter g"
  let ?g2 = "?g1\<lparr>lg_formatter := ?f\<rparr>"
  have "lg_formatter ?g1 = lg_formatter g" by simp
  with setFormatter_str_works [OF s1(1,4), of "ld_formatter i"] obtain s2
    where s2: "(if ld_formatter i \<noteq> [] then Logger_setFormatter_str l (ld_formatter i) ?s1
        else Inr ?s1) = Inr s2" "store_ok s2" "id_frame ?s1 s2" "works_on l ?s1 s2"
      "loggers s2 l = Some ?g2" by metis
  let ?g3 = "?g2\<lparr>lg_appenders := []\<rparr>"
  let ?s3 = "s2\<lparr>loggers := (loggers s2)(l \<mapsto> ?g3)\<rparr>"
  have s3: "store_ok ?s3" "id_frame s2 ?s3" "works_on l s2 ?s3" "loggers ?s3 l = Some ?g3"
    using write_logger_works [OF s2(2,5), of ?g3] by simp_all
  have "lg_appenders ?g3 = []" by simp
  from attach_all_works [OF s3(1,4) this assms(3), of u "ld_name i"] obtain st' "is"
    where st': "for_each (add_defined u (ld_name i) l) (ld_appenders i) ?s3 = Inr st'"
      "store_ok st'" "id_frame ?s3 st'" "works_on l ?s3 st'"
      "loggers st' l = Some (?g3\<lparr>lg_appenders := is\<rparr>)"
      "appenders_as st' (lg_formatter ?g3) (ld_appenders i) is" "exclusive st' l"
    by (elim exE conjE)
  have "Logger_setLevel l (ld_level i) st = Inr ?s1"
    using assms(2) by (simp add: Logger_setLevel_def upd_logger_def)
  moreover have "Logger_clearAppenders l s2 = Inr ?s3"
    using s2(5) by (simp add: Logger_clearAppenders_def upd_logger_def)
  ultimately have "configure_logger u i l st = Inr st'"
    using s2(1) st'(1) by (simp add: configure_logger_def)
  moreover have "id_frame st st'"
    using id_frame_trans [OF s1(2)] id_frame_trans [OF s2(3)] id_frame_trans [OF s3(2) st'(3)] by blast
  moreover have "works_on l st st'"
    using works_on_trans [OF s1(3)] works_on_trans [OF s2(4)] works_on_trans [OF s3(3) st'(4)] by blast
  moreover have "logger_as st' (lg_formatter g) i l"
    using st'(5,6) by (simp add: logger_as_def)
  ultimately show ?thesis using st'(2,7) by blast
qed

section \<open>All definitions\<close>

text \<open>What the manager holds under a name is kept by work on another logger.\<close>

definition named_as :: "log_state \<Rightarrow> LogDefine \<Rightarrow> bool" where
  "named_as st i \<longleftrightarrow>
     (\<exists>l f. map_of (mgr_loggers st) (ld_name i) = Some l \<and> logger_as st f i l \<and> exclusive st l)"

definition retired :: "log_state \<Rightarrow> string \<Rightarrow> bool" where
  "retired st name \<longleftrightarrow>
     (\<exists>l g. map_of (mgr_loggers st) name = Some l \<and> loggers st l = Some g
        \<and> lg_level g = too_high \<and> lg_appenders g = [])"

lemma exclusive_foreign:
  assumes "store_ok st" and "exclusive st k" and "loggers st k = Some g" and "k \<noteq> l"
    and "j \<in> set (lg_appenders g)"
  shows "foreign st l j"
proof -
  have "appenders st j \<noteq> None"
    using store_okD(2) [OF assms(1,3)] assms(5) by (auto simp: logger_ok_def)
  with assms(2-5) show ?thesis unfolding foreign_def exclusive_def by (metis disjoint_iff)
qed

lemma named_as_kept:
  assumes "store_ok st" and "named_as st i" and "works_on l st st'"
    and "map_of (mgr_loggers st) (ld_name i) \<noteq> Some l"
  shows "named_as st' i"
proof -
  obtain k f where k: "map_of (mgr_loggers st) (ld_name i) = Some k" "logger_as st f i k"
    "exclusive st k" using assms(2) by (auto simp: named_as_def)
  from k(1) assms(4) have kl: "k \<noteq> l" by auto
  obtain g where g: "loggers st k = Some g" using k(2) by (auto simp: logger_as_def)
  note works = assms(3) [unfolded works_on_def]
  have foreign: "\<forall>j \<in> set (lg_appenders g). foreign st l j"
    using exclusive_foreign [OF assms(1) k(3) g kl] by blast
  with works have same: "\<forall>j \<in> set (lg_appenders g). appenders st' j = appenders st j \<and> foreign st' l j"
    by blast
  have "appenders_as st' (lg_formatter g) as (lg_appenders g)"
    if "appenders_as st (lg_formatter g) as (lg_appenders g)" for as
    using that same unfolding appenders_as_def by (auto simp: list_all2_conv_all_nth)
  with k(2) g works kl have "logger_as st' f i k" by (auto simp: logger_as_def)
  moreover have "exclusive st' k"
    unfolding exclusive_def
  proof (intro allI impI)
    fix g' m h
    assume m: "loggers st' k = Some g'" "m \<noteq> k" "loggers st' m = Some h"
    with works kl g have g': "g' = g" by auto
    show "set (lg_appenders g') \<inter> set (lg_appenders h) = {}"
    proof (cases "m = l")
      case True
      with same m(3) g' show ?thesis by (auto simp: foreign_def)
    next
      case False
      with works m(3) have "loggers st m = Some h" by simp
      with k(3) g g' m(2) show ?thesis by (auto simp: exclusive_def)
    qed
  qed
  ultimately show ?thesis using k(1) works by (auto simp: named_as_def)
qed

lemma retired_kept:
  assumes "retired st name" and "works_on l st st'" and "map_of (mgr_loggers st) name \<noteq> Some l"
  shows "retired st' name"
proof -
  obtain k g where k: "map_of (mgr_loggers st) name = Some k" "loggers st k = Some g"
    "lg_level g = too_high" "lg_appenders g = []" using assms(1) by (auto simp: retired_def)
  with assms(2,3) have "loggers st' k = Some g" "map_of (mgr_loggers st') name = Some k"
    unfolding works_on_def by auto
  with k show ?thesis by (auto simp: retired_def)
qed

lemma getLogger_works:
  assumes "mgr_ok st" and "getLogger name st = (l, st')"
  shows "works_on l st st'"
proof (cases "map_of (mgr_loggers st) name")
  case (Some k)
  with assms(2) show ?thesis by (simp add: getLogger_def)
next
  case None
  let ?g = "(Logger_init name)\<lparr>lg_root := Some (mgr_root st)\<rparr>"
  from None assms(2) have l: "l = next_loc st" and st': "loggers st' = (loggers st)(l \<mapsto> ?g)"
    "appenders st' = appenders st" "mgr_root st' = mgr_root st"
    by (auto simp: getLogger_def new_Logger_def)
  have "map_of (mgr_loggers st') = (map_of (mgr_loggers st))(name \<mapsto> l)"
    using getLogger_ok [OF assms] by blast
  moreover have "loggers st l = None" using store_ok_fresh [OF mgr_okD(1) [OF assms(1)]] l by simp
  ultimately show ?thesis using None st' by (auto simp: works_on_def foreign_def Logger_init_def)
qed

lemma mgr_entry:
  "mgr_ok st \<Longrightarrow> map_of (mgr_loggers st) n = Some l \<Longrightarrow> \<exists>g. loggers st l = Some g"
  using mgr_okD(4) by (fastforce simp: entry_ok_def)

text \<open>Different names, different loggers.\<close>

lemma names_distinct:
  assumes "mgr_ok st" and "map_of (mgr_loggers st) n = Some l" and "map_of (mgr_loggers st) m = Some l"
  shows "n = m"
  using mgr_okD(4) [OF assms(1,2)] mgr_okD(4) [OF assms(1,3)] by (auto simp: entry_ok_def)

lemma other_name:
  assumes "mgr_ok st'" and "works_on l st st'" and "map_of (mgr_loggers st') n = Some l" and "m \<noteq> n"
  shows "map_of (mgr_loggers st) m \<noteq> Some l"
proof
  assume "map_of (mgr_loggers st) m = Some l"
  with assms(2) have "map_of (mgr_loggers st') m = Some l" by (simp add: works_on_def)
  from names_distinct [OF assms(1) this assms(3)] assms(4) show False by blast
qed

text \<open>
  The frame: loggers under other names than those of \<open>N\<close> are the same objects with the same level,
  formatter and list of appenders, and no logger is made under such a name.
\<close>

definition others_kept :: "string set \<Rightarrow> log_state \<Rightarrow> log_state \<Rightarrow> bool" where
  "others_kept N st st' \<longleftrightarrow>
     (\<forall>name. name \<notin> N \<longrightarrow> find_logger st' name = find_logger st name
        \<and> (\<forall>l. find_logger st name = Some l \<longrightarrow> loggers st' l = loggers st l))"

lemma others_kept_refl [simp]: "others_kept N st st"
  by (simp add: others_kept_def)

lemma others_kept_trans: "others_kept N s t \<Longrightarrow> others_kept N t u \<Longrightarrow> others_kept N s u"
  unfolding others_kept_def by metis

lemma others_kept_mono: "others_kept N s t \<Longrightarrow> N \<subseteq> M \<Longrightarrow> others_kept M s t"
  unfolding others_kept_def by blast

lemma others_kept_log: "log_frame st st' \<Longrightarrow> others_kept N st st'"
  by (simp add: others_kept_def log_frame_def find_logger_def)

lemma others_kept_works:
  assumes "mgr_ok st'" and "works_on l st st'"
    and "map_of (mgr_loggers st') = (map_of (mgr_loggers st))(n \<mapsto> l)"
  shows "others_kept {n} st st'"
  unfolding others_kept_def find_logger_def
proof (intro allI impI conjI)
  fix m assume "m \<notin> {n}"
  then have m: "m \<noteq> n" by simp
  with assms(3) show "map_of (mgr_loggers st') m = map_of (mgr_loggers st) m" by simp
  fix k assume "map_of (mgr_loggers st) m = Some k"
  moreover from other_name [OF assms(1,2) _ m] assms(3) this have "k \<noteq> l" by auto
  ultimately show "loggers st' k = loggers st k" using assms(2) by (simp add: works_on_def)
qed

text \<open>A definition that can be applied: it is new or changed, and its appenders can be built.\<close>

lemma apply_define_works:
  assumes "mgr_ok st" and "\<not> fatal_define old i"
  shows "\<exists>st' l. apply_define u old i st = Inr st' \<and> mgr_ok st' \<and> works_on l st st'
    \<and> map_of (mgr_loggers st') = (map_of (mgr_loggers st))(ld_name i \<mapsto> l) \<and> named_as st' i"
proof -
  obtain l st1 where get: "getLogger (ld_name i) st = (l, st1)" by fastforce
  from assms(2) have changed: "set_find i old \<noteq> Some i" and known: "\<forall>a \<in> set (ld_appenders i). known_type a"
    by (auto simp: fatal_define_def)
  from changed get have pick: "pick_logger old i st = (Some l, st1)"
    by (auto simp: pick_logger_def split: option.split)
  note st1 = getLogger_ok [OF assms(1) get]
  from st1 have name: "map_of (mgr_loggers st1) (ld_name i) = Some l" by simp
  with st1 obtain g where g: "loggers st1 l = Some g" using mgr_entry by blast
  from configure_logger_works [OF _ g known, of u] st1 mgr_okD(1) obtain st'
    where st': "configure_logger u i l st1 = Inr st'" "store_ok st'" "id_frame st1 st'"
      "works_on l st1 st'" "logger_as st' (lg_formatter g) i l" "exclusive st' l" by blast
  have names: "map_of (mgr_loggers st') = (map_of (mgr_loggers st))(ld_name i \<mapsto> l)"
    using st1 st'(3) by (simp add: id_frame_def)
  with st'(5,6) have "named_as st' i" by (auto simp: named_as_def)
  moreover have "apply_define u old i st = Inr st'" using pick st'(1) by (simp add: apply_define_def)
  moreover have "mgr_ok st'" using mgr_ok_frame st1 st'(2,3) by blast
  moreover have "works_on l st st'"
    using works_on_trans [OF getLogger_works [OF assms(1) get] st'(4)] .
  ultimately show ?thesis using names by blast
qed

lemma retire_define_works:
  assumes "mgr_ok st"
  shows "\<exists>st'. retire_define new i st = Inr st' \<and> mgr_ok st'
    \<and> (st' = st \<or> set_find i new = None \<and> (\<exists>l. works_on l st st'
        \<and> map_of (mgr_loggers st') = (map_of (mgr_loggers st))(ld_name i \<mapsto> l)))
    \<and> (set_find i new = None \<longrightarrow> retired st' (ld_name i))"
proof (cases "set_find i new")
  case (Some j)
  with assms show ?thesis by (simp add: retire_define_def)
next
  case None
  obtain l st1 where get: "getLogger (ld_name i) st = (l, st1)" by fastforce
  note st1 = getLogger_ok [OF assms get]
  from st1 have name: "map_of (mgr_loggers st1) (ld_name i) = Some l" by simp
  with st1 obtain g where g: "loggers st1 l = Some g" using mgr_entry by blast
  let ?g = "g\<lparr>lg_level := too_high, lg_appenders := []\<rparr>"
  let ?s = "st1\<lparr>loggers := (loggers st1)(l \<mapsto> ?g)\<rparr>"
  from write_logger_works [OF _ g, of ?g] st1 mgr_okD(1)
  have s: "store_ok ?s" "id_frame st1 ?s" "works_on l st1 ?s" by simp_all
  have "retire_define new i st = Inr ?s"
    using None get g
    by (simp add: retire_define_def Logger_setLevel_def Logger_clearAppenders_def upd_logger_def)
  moreover have "mgr_ok ?s" using mgr_ok_frame st1 s(1,2) by blast
  moreover have "works_on l st ?s" using works_on_trans [OF getLogger_works [OF assms get] s(3)] .
  moreover have "retired ?s (ld_name i)" using name by (simp add: retired_def)
  moreover have "map_of (mgr_loggers ?s) = (map_of (mgr_loggers st))(ld_name i \<mapsto> l)" using st1 by simp
  ultimately show ?thesis using None by blast
qed

text \<open>A loop whose every step establishes a property that later steps keep.\<close>

lemma for_each_establishes:
  assumes "I s" and "\<forall>x \<in> D. P x s" and "set xs \<subseteq> X" and "D \<subseteq> X"
    and step: "\<And>x s. x \<in> X \<Longrightarrow> I s \<Longrightarrow>
      \<exists>s'. f x s = Inr s' \<and> I s' \<and> P x s' \<and> (\<forall>y \<in> X. P y s \<longrightarrow> P y s')"
  shows "\<exists>s'. for_each f xs s = Inr s' \<and> I s' \<and> (\<forall>x \<in> D \<union> set xs. P x s')"
  using assms(1-4)
proof (induction xs arbitrary: s D)
  case (Cons x xs)
  from Cons.prems have "x \<in> X" by simp
  from step [OF this Cons.prems(1)] obtain t
    where t: "f x s = Inr t" "I t" "P x t" "\<forall>y \<in> X. P y s \<longrightarrow> P y t" by blast
  with Cons.prems have "\<forall>y \<in> insert x D. P y t" by blast
  from Cons.IH [OF t(2) this] Cons.prems(3,4) t(1) show ?case by auto
qed simp

lemma apply_all:
  assumes "mgr_ok st" and "inj_on ld_name (set new)" and "\<forall>i \<in> set new. \<not> fatal_define old i"
  shows "\<exists>st'. for_each (apply_define u old) new st = Inr st' \<and> mgr_ok st'
    \<and> (\<forall>i \<in> set new. named_as st' i) \<and> others_kept (ld_name ` set new) st st'"
proof -
  let ?I = "\<lambda>s. mgr_ok s \<and> others_kept (ld_name ` set new) st s"
  have "\<exists>st'. for_each (apply_define u old) new st = Inr st' \<and> ?I st'
    \<and> (\<forall>i \<in> {} \<union> set new. named_as st' i)"
  proof (rule for_each_establishes [where P = "\<lambda>i s. named_as s i" and I = ?I and X = "set new"])
    fix i s
    assume i: "i \<in> set new" and I: "?I s"
    then have s: "mgr_ok s" by blast
    from assms(3) i have "\<not> fatal_define old i" by blast
    from apply_define_works [OF s this, of u] obtain s' l
      where s': "apply_define u old i s = Inr s'" "mgr_ok s'" "works_on l s s'"
        "map_of (mgr_loggers s') = (map_of (mgr_loggers s))(ld_name i \<mapsto> l)" "named_as s' i" by blast
    then have name: "map_of (mgr_loggers s') (ld_name i) = Some l" by simp
    have "others_kept (ld_name ` set new) s s'"
      using others_kept_mono [OF others_kept_works [OF s'(2-4)]] i by blast
    then have "?I s'" using others_kept_trans I s'(2) by blast
    moreover have "named_as s' j" if j: "j \<in> set new" "named_as s j" for j
    proof (cases "ld_name j = ld_name i")
      case True
      with assms(2) i j s'(5) show ?thesis by (auto dest: inj_onD)
    next
      case False
      show ?thesis
        by (rule named_as_kept [OF mgr_okD(1) [OF s] j(2) s'(3) other_name [OF s'(2,3) name False]])
    qed
    ultimately show "\<exists>s'. apply_define u old i s = Inr s' \<and> ?I s' \<and> named_as s' i
        \<and> (\<forall>j \<in> set new. named_as s j \<longrightarrow> named_as s' j)" using s'(1,5) by blast
  qed (use assms(1) in simp_all)
  then show ?thesis unfolding Un_empty_left by blast
qed

text \<open>The second loop keeps what the first established, and retires the names that are gone.\<close>

lemma retire_all:
  assumes "mgr_ok st" and "\<forall>i \<in> set new. named_as st i"
  shows "\<exists>st'. for_each (retire_define new) old st = Inr st' \<and> mgr_ok st'
    \<and> (\<forall>i \<in> set new. named_as st' i)
    \<and> (\<forall>i \<in> set old. set_find i new = None \<longrightarrow> retired st' (ld_name i))
    \<and> others_kept (ld_name ` set old) st st'"
proof -
  let ?I = "\<lambda>s. mgr_ok s \<and> (\<forall>i \<in> set new. named_as s i) \<and> others_kept (ld_name ` set old) st s"
  let ?P = "\<lambda>i s. set_find i new = None \<longrightarrow> retired s (ld_name i)"
  have "\<exists>st'. for_each (retire_define new) old st = Inr st' \<and> ?I st'
    \<and> (\<forall>i \<in> {} \<union> set old. ?P i st')"
  proof (rule for_each_establishes [where P = ?P and I = ?I and X = "set old"])
    fix i s
    assume i: "i \<in> set old" and s: "?I s"
    then have ok: "mgr_ok s" by blast
    from retire_define_works [OF ok, of new i] obtain s'
      where s': "retire_define new i s = Inr s'" "mgr_ok s'"
        "s' = s \<or> set_find i new = None \<and> (\<exists>l. works_on l s s'
          \<and> map_of (mgr_loggers s') = (map_of (mgr_loggers s))(ld_name i \<mapsto> l))"
        "set_find i new = None \<longrightarrow> retired s' (ld_name i)" by (elim exE conjE)
    have "others_kept (ld_name ` set old) s s'"
      using s'(3) others_kept_mono [OF others_kept_works [OF s'(2)]] i by fastforce
    then have frame: "others_kept (ld_name ` set old) st s'" using s others_kept_trans by blast
    have keep: "(\<forall>j \<in> set new. named_as s' j) \<and> (\<forall>j. ?P j s \<longrightarrow> ?P j s')"
      using s'(3)
    proof
      assume "set_find i new = None \<and> (\<exists>l. works_on l s s'
          \<and> map_of (mgr_loggers s') = (map_of (mgr_loggers s))(ld_name i \<mapsto> l))"
      then obtain l where gone: "set_find i new = None" and l: "works_on l s s'"
        "map_of (mgr_loggers s') (ld_name i) = Some l" by auto
      note other = other_name [OF s'(2) l]
      have "named_as s' j" if "j \<in> set new" for j
      proof -
        have "ld_name j \<noteq> ld_name i"
          using gone that unfolding set_find_def oset_find_None_iff by (metis image_eqI)
        moreover have "named_as s j" using s that by blast
        ultimately show ?thesis using named_as_kept [OF mgr_okD(1) [OF ok] _ l(1)] other by simp
      qed
      moreover have "retired s' n" if "retired s n" "n \<noteq> ld_name i" for n
        using retired_kept [OF that(1) l(1)] other [OF that(2)] by blast
      moreover have "retired s' (ld_name i)" using gone s'(4) by blast
      ultimately show ?thesis by (metis (no_types))
    qed (use s in simp)
    show "\<exists>s'. retire_define new i s = Inr s' \<and> ?I s' \<and> ?P i s'
        \<and> (\<forall>j \<in> set old. ?P j s \<longrightarrow> ?P j s')"
      by (rule exI [of _ s'], intro conjI ballI) (use s'(1,2,4) keep frame in blast)+
  qed (use assms in simp_all)
  then show ?thesis unfolding Un_empty_left by blast
qed

lemma apply_defines_works:
  assumes "mgr_ok st" and "inj_on ld_name (set new)" and "\<forall>i \<in> set new. \<not> fatal_define old i"
  shows "\<exists>st'. apply_defines u old new st = Inr st' \<and> mgr_ok st'
    \<and> (\<forall>i \<in> set new. named_as st' i)
    \<and> (\<forall>i \<in> set old. set_find i new = None \<longrightarrow> retired st' (ld_name i))
    \<and> others_kept (ld_name ` (set old \<union> set new)) st st'"
proof -
  from apply_all [OF assms, of u] obtain st1 where st1: "for_each (apply_define u old) new st = Inr st1"
    "mgr_ok st1" "\<forall>i \<in> set new. named_as st1 i" "others_kept (ld_name ` set new) st st1"
    by (elim exE conjE)
  from retire_all [OF st1(2,3), of old] obtain st' where st': "for_each (retire_define new) old st1 = Inr st'"
    "mgr_ok st'" "\<forall>i \<in> set new. named_as st' i"
    "\<forall>i \<in> set old. set_find i new = None \<longrightarrow> retired st' (ld_name i)"
    "others_kept (ld_name ` set old) st1 st'"
    by (elim exE conjE)
  have "others_kept (ld_name ` (set old \<union> set new)) st st'"
    by (rule others_kept_trans [OF others_kept_mono [OF st1(4)] others_kept_mono [OF st'(5)]]) auto
  with st1(1) st' show ?thesis by (auto simp: apply_defines_def)
qed

section \<open>The listener\<close>

lemma conf_listener_logs:
  assumes "mgr_ok st"
  shows "\<exists>st1. mgr_ok st1 \<and> log_frame st st1
    \<and> conf_listener env site u old new st = as_outcome (Some (apply_defines u old new st1))"
proof -
  obtain g where g: "loggers st (mgr_root st) = Some g" using mgr_root_logger [OF assms] .
  let ?ev = "site_event site (mgr_root st) INFO\<lparr>ev_ss := ''on_logger_conf_changed''\<rparr>"
  have ev: "ev_logger ?ev = Some (mgr_root st)"
    by (simp add: site_event_def new_LogEvent_def)
  then obtain st1 where st1: "Logger_log env (mgr_root st) (ev_level ?ev) ?ev st = Some (Inr st1)"
    "log_frame st st1" "store_ok st1"
    using Logger_log_ok [OF mgr_okD(1) [OF assms] g, of ?ev env "ev_level ?ev"] by auto
  then have "mgr_ok st1" using mgr_ok_frame [OF assms log_frame_id_frame] by blast
  with assms st1(1,2) g ev show ?thesis
    by (cases "lg_level g \<le> INFO")
      (auto simp: conf_listener_def CHORD_LOG_LEVEL_def LogEventWrap_destroy_def)
qed

text \<open>
  The listener ends the process whenever a set of definitions is applied in which one
  definition is the same as before (its logger pointer stays null), or in which an appender has
  a type other than file and standard output (its pointer stays null).
\<close>

lemma conf_listener_crashes:
  assumes "mgr_ok st" and "i \<in> set new"
    and "set_find i old = Some i \<or> (\<exists>a \<in> set (ld_appenders i). lad_type a \<noteq> 1 \<and> lad_type a \<noteq> 2)"
  shows "conf_listener env site uninit old new st = Crashes Null_deref"
proof -
  have "fatal_define old i" using assms(3) by (auto simp: fatal_define_def known_type_def)
  from apply_defines_fatal [OF assms(2) this] conf_listener_logs [OF assms(1)]
  show ?thesis by (metis as_outcome_def option.simps(5) sum.simps(5))
qed

text \<open>
  C5: When every definition of the new set is new or changed and every appender has a known
  type, the listener returns with the manager's invariant intact; the manager holds under every
  defined name a logger with the level, the formatter and exactly the appenders of its
  definition, in order and shared with no other logger; every name that is gone holds a
  logger without appenders at level 100, which no event of a lower level passes; and under every
  name that neither set defines there is what was there before: no logger, or the same logger with
  the same level, formatter and list of appenders.
\<close>

theorem conf_listener_applies:
  assumes "mgr_ok st" and "inj_on ld_name (set new)"
    and "\<forall>i \<in> set new. set_find i old \<noteq> Some i
      \<and> (\<forall>a \<in> set (ld_appenders i). lad_type a = 1 \<or> lad_type a = 2)"
  shows "\<exists>st'. conf_listener env site uninit old new st = Returns st' \<and> mgr_ok st'
    \<and> (\<forall>i \<in> set new. named_as st' i)
    \<and> (\<forall>i \<in> set old. set_find i new = None \<longrightarrow> retired st' (ld_name i)
        \<and> (\<exists>l. find_logger st' (ld_name i) = Some l
            \<and> (\<forall>level ev. level < too_high \<longrightarrow> Logger_log env l level ev st' = Some (Inr st'))))
    \<and> others_kept (ld_name ` (set old \<union> set new)) st st'"
proof -
  have "\<forall>i \<in> set new. \<not> fatal_define old i"
    using assms(3) by (auto simp: fatal_define_def known_type_def)
  note works = apply_defines_works [OF _ assms(2) this]
  obtain st1 where st1: "mgr_ok st1" "log_frame st st1"
    "conf_listener env site uninit old new st = as_outcome (Some (apply_defines uninit old new st1))"
    using conf_listener_logs [OF assms(1)] by blast
  from works [OF st1(1), of uninit] obtain st'
    where st': "apply_defines uninit old new st1 = Inr st'" "mgr_ok st'"
      "\<forall>i \<in> set new. named_as st' i"
      "\<forall>i \<in> set old. set_find i new = None \<longrightarrow> retired st' (ld_name i)"
      "others_kept (ld_name ` (set old \<union> set new)) st1 st'"
    by (elim exE conjE)
  have "\<exists>l. find_logger st' n = Some l
      \<and> (\<forall>level ev. level < too_high \<longrightarrow> Logger_log env l level ev st' = Some (Inr st'))"
    if "retired st' n" for n
    using that by (auto simp: retired_def find_logger_def Logger_log_below)
  moreover have "others_kept (ld_name ` (set old \<union> set new)) st st'"
    using others_kept_trans [OF others_kept_log [OF st1(2)] st'(5)] .
  ultimately show ?thesis using st'(1-4) st1(3) by (auto simp: as_outcome_def)
qed

section \<open>Through YAML and back\<close>

lemma for_each_fold: "for_each (\<lambda>x s. Inr (g x s)) xs s = Inr (fold g xs s)"
  by (induction xs arbitrary: s) simp_all

text \<open>A loop over the indices of a sequence whose steps all succeed.\<close>

lemma for_each_index:
  assumes "\<And>i s. i < length xs \<Longrightarrow> f i s = Inr (g (xs ! i) s)"
  shows "for_each f [0..<length xs] s = Inr (fold g xs s)"
  using for_each_nth [of xs f "\<lambda>x s. Inr (g x s)" s] assms by (simp add: for_each_fold)

lemma fold_node_push: "fold (\<lambda>x. node_push (f x)) xs (YSeq ys) = YSeq (ys @ map f xs)"
  by (induction xs arbitrary: ys) simp_all

lemma defines_node_eq: "defines_node v = (if v = [] then YNull else YSeq (map define_node v))"
  unfolding defines_node_def by (cases v) (simp_all add: fold_node_push)

text \<open>What is left of an appender and of a definition.\<close>

definition kept_appender :: "LogAppenderDefine \<Rightarrow> LogAppenderDefine" where
  "kept_appender a =
     (if lad_type a = 1
      then new_LogAppenderDefine\<lparr>lad_type := 1, lad_file := lad_file a,
             lad_formatter := lad_formatter a\<rparr>
      else new_LogAppenderDefine\<lparr>lad_type := 2\<rparr>)"

definition kept_define :: "LogDefine \<Rightarrow> LogDefine" where
  "kept_define i =
     i\<lparr>ld_level := UNKNOWN,
       ld_appenders := map kept_appender (filter known_type (ld_appenders i))\<rparr>"

lemma get_string_map:
  assumes "yaml_access Y"
  shows "get_string Y (YMap es) k =
    (case map_of es (YScalar k) of
       None \<Rightarrow> Inr None | Some v \<Rightarrow> map_sum id Some (y_as_string Y v))"
  unfolding get_string_def yaml_accessD(2) [OF assms]
  by (auto simp: sum_bind_def split: option.split sum.split)

lemma appender_reloads:
  assumes "yaml_access Y"
  shows "appender_from_node Y (appender_define_node a) =
    Inr (if known_type a then (Some (kept_appender a), [])
         else (None, config_error Y ''appender'' (appender_define_node a)))"
  using yaml_accessD(4) [OF assms] yaml_accessD(3) [OF assms]
  by (cases "lad_type a = 1"; cases "lad_type a = 2"; cases "lad_level a = UNKNOWN";
      cases "lad_formatter a = []")
    (simp_all add: appender_from_node_def appender_define_node_def Let_def node_put_def
      get_string_map [OF assms] kept_appender_def known_type_def,
      simp_all add: get_string_def)

definition keep_one ::
  "(LogAppenderDefine \<Rightarrow> string) \<Rightarrow> LogAppenderDefine \<Rightarrow> LogDefine \<times> string \<Rightarrow> LogDefine \<times> string"
where
  "keep_one line a = (\<lambda>(ld, out).
     (ld\<lparr>ld_appenders := ld_appenders ld @ map kept_appender (filter known_type [a])\<rparr>, out @ line a))"

definition skip_line :: "yaml_lib \<Rightarrow> LogAppenderDefine \<Rightarrow> string" where
  "skip_line Y a =
     (if known_type a then [] else config_error Y ''appender'' (appender_define_node a))"

lemma add_appender_reloads:
  assumes "yaml_access Y" and "x < length as"
  shows "add_appender_at Y (YSeq (map appender_define_node as)) x s =
    Inr (keep_one (skip_line Y) (as ! x) s)"
  using yaml_accessD(1) [OF assms(1), of x "map appender_define_node as"] assms(2)
  by (cases s)
    (simp add: add_appender_at_def appender_reloads [OF assms(1)] keep_one_def skip_line_def)

lemma fold_keep_one:
  "fold (keep_one line) as (ld, out) =
     (ld\<lparr>ld_appenders := ld_appenders ld @ map kept_appender (filter known_type as)\<rparr>,
      out @ concat (map line as))"
  by (induction as rule: rev_induct) (auto simp: keep_one_def)

text \<open>The node of a definition: the entries it has.\<close>

lemma fold_put_appenders:
  assumes "map_of es (YScalar ''appenders'') = None"
  shows "\<exists>es'. fold (\<lambda>a n. node_put ''appenders'' (node_push (fn a)
        (case map_of (node_entries n) (YScalar ''appenders'') of None \<Rightarrow> YNull | Some m \<Rightarrow> m)) n)
      as (YMap es) = YMap es'
    \<and> map_of es' = (if as = [] then map_of es
        else (map_of es)(YScalar ''appenders'' \<mapsto> YSeq (map fn as)))"
proof (induction as rule: rev_induct)
  case (snoc a as)
  then show ?case using assms by (cases "as = []") (auto simp: node_put_def)
qed (use assms in simp)

lemma define_node_entries:
  "\<exists>es. define_node i = YMap es
    \<and> map_of es (YScalar ''name'') = Some (YScalar (ld_name i))
    \<and> map_of es (YScalar ''level'') =
        (if ld_level i = UNKNOWN then Some (YScalar (ToString UNKNOWN)) else None)
    \<and> map_of es (YScalar ''formatter'') =
        (if ld_formatter i \<noteq> [] then Some (YScalar (ld_formatter i)) else None)
    \<and> map_of es (YScalar ''appenders'') =
        (if ld_appenders i = [] then None
         else Some (YSeq (map appender_define_node (ld_appenders i))))"
proof -
  let ?n1 = "node_put ''name'' (YScalar (ld_name i)) YNull"
  let ?n2 = "if ld_level i = UNKNOWN
    then node_put ''level'' (YScalar (ToString (ld_level i))) ?n1 else ?n1"
  let ?n3 = "if ld_formatter i \<noteq> [] then node_put ''formatter'' (YScalar (ld_formatter i)) ?n2
    else ?n2"
  have "\<exists>es. ?n3 = YMap es
    \<and> map_of es (YScalar ''name'') = Some (YScalar (ld_name i))
    \<and> map_of es (YScalar ''level'') =
        (if ld_level i = UNKNOWN then Some (YScalar (ToString UNKNOWN)) else None)
    \<and> map_of es (YScalar ''formatter'') =
        (if ld_formatter i \<noteq> [] then Some (YScalar (ld_formatter i)) else None)
    \<and> map_of es (YScalar ''appenders'') = None"
    by (simp add: node_put_def)
  then obtain es where es: "?n3 = YMap es"
    "map_of es (YScalar ''name'') = Some (YScalar (ld_name i))"
    "map_of es (YScalar ''level'') =
        (if ld_level i = UNKNOWN then Some (YScalar (ToString UNKNOWN)) else None)"
    "map_of es (YScalar ''formatter'') =
        (if ld_formatter i \<noteq> [] then Some (YScalar (ld_formatter i)) else None)"
    "map_of es (YScalar ''appenders'') = None" by (elim exE conjE)
  from fold_put_appenders [OF es(5), of appender_define_node "ld_appenders i"] obtain es'
    where es': "define_node i = YMap es'" "map_of es' = (if ld_appenders i = [] then map_of es
        else (map_of es)(YScalar ''appenders'' \<mapsto> YSeq (map appender_define_node (ld_appenders i))))"
    unfolding define_node_def Let_def es(1) by (elim exE conjE)
  then show ?thesis using es(2-5) by simp
qed

lemma FromString_UNKNOWN [simp]: "FromString (ToString UNKNOWN) = UNKNOWN" "FromString [] = UNKNOWN"
  by (simp_all add: FromString_def ToString_def)

lemma define_reloads:
  assumes "yaml_access Y" and "i < length v"
  shows "\<exists>out'. define_at Y (YSeq (map define_node v)) i (ds, out) =
    Inr (set_insert (kept_define (v ! i)) ds, out')"
proof -
  let ?d = "v ! i"
  obtain es where es: "define_node ?d = YMap es"
    "map_of es (YScalar ''name'') = Some (YScalar (ld_name ?d))"
    "map_of es (YScalar ''level'') =
        (if ld_level ?d = UNKNOWN then Some (YScalar (ToString UNKNOWN)) else None)"
    "map_of es (YScalar ''formatter'') =
        (if ld_formatter ?d \<noteq> [] then Some (YScalar (ld_formatter ?d)) else None)"
    "map_of es (YScalar ''appenders'') = (if ld_appenders ?d = [] then None
         else Some (YSeq (map appender_define_node (ld_appenders ?d))))"
    using define_node_entries by blast
  let ?ld = "new_LogDefine\<lparr>ld_name := ld_name ?d, ld_level := UNKNOWN,
    ld_formatter := ld_formatter ?d\<rparr>"
  have strings: "get_string Y (YMap es) ''name'' = Inr (Some (ld_name ?d))"
    "get_string Y (YMap es) ''level'' =
      Inr (if ld_level ?d = UNKNOWN then Some (ToString UNKNOWN) else None)"
    "get_string Y (YMap es) ''formatter'' =
      Inr (if ld_formatter ?d \<noteq> [] then Some (ld_formatter ?d) else None)"
    using yaml_accessD(4) [OF assms(1)] by (simp_all add: get_string_map [OF assms(1)] es(2-4))
  have "for_each (add_appender_at Y (YSeq (map appender_define_node (ld_appenders ?d))))
      [0..<length (ld_appenders ?d)] (?ld, out) =
    Inr (fold (keep_one (skip_line Y)) (ld_appenders ?d) (?ld, out))"
    by (rule for_each_index) (rule add_appender_reloads [OF assms(1)])
  then obtain out' where loop: "for_each (add_appender_at Y (YSeq (map appender_define_node (ld_appenders ?d))))
      [0..<length (ld_appenders ?d)] (?ld, out) = Inr (kept_define ?d, out')"
    by (simp add: fold_keep_one kept_define_def new_LogDefine_def)
  moreover have "ld_appenders ?d = [] \<Longrightarrow> ?ld = kept_define ?d"
    by (simp add: kept_define_def new_LogDefine_def)
  ultimately show ?thesis
    using yaml_accessD(1) [OF assms(1), of i "map define_node v"] assms(2) es(1,5) strings
      yaml_accessD(2) [OF assms(1), of es "''appenders''"]
    by (cases "ld_appenders ?d = []") (auto simp: define_at_def)
qed

lemma for_each_upto:
  assumes "n \<le> length xs"
    and "\<And>i ds out. i < length xs \<Longrightarrow> \<exists>out'. f i (ds, out) = Inr (g (xs ! i) ds, out')"
  shows "\<exists>out'. for_each f [0..<n] (ds, out) = Inr (fold g (take n xs) ds, out')"
  using assms(1)
proof (induction n)
  case (Suc n)
  then obtain out1 where "for_each f [0..<n] (ds, out) = Inr (fold g (take n xs) ds, out1)" by auto
  with assms(2) [of n "fold g (take n xs) ds" out1] Suc.prems show ?case
    by (auto simp: for_each_append take_Suc_conv_app_nth)
qed simp

lemma defines_reload:
  assumes "yaml_access Y" and "yaml_reload Y (defines_node v)" and "oset_ok ld_name v"
  shows "\<exists>out. defines_from_string Y (defines_to_string Y v) = Inr (map kept_define v, out)"
proof -
  have load: "y_Load Y (y_emit Y (defines_node v)) = Inr (defines_node v)"
    using assms(2) by (simp add: yaml_reload_def)
  obtain out where "for_each (define_at Y (YSeq (map define_node v))) [0..<length v] ([], []) =
      Inr (fold (\<lambda>d. set_insert (kept_define d)) v [], out)"
    using for_each_upto [where f = "define_at Y (YSeq (map define_node v))" and n = "length v"
        and g = "\<lambda>d. set_insert (kept_define d)", OF _ define_reloads [OF assms(1)]] by auto
  moreover have "fold (\<lambda>d. set_insert (kept_define d)) v [] = fold set_insert (map kept_define v) []"
    by (simp add: fold_map comp_def)
  moreover have "oset_ok ld_name ([] @ map kept_define v)"
    using assms(3) by (simp add: oset_ok_def kept_define_def comp_def)
  note fold_oset_insert [OF this]
  ultimately show ?thesis
    using load
    by (cases "v = []") (auto simp: defines_from_string_def defines_to_string_def defines_node_eq
        set_insert_def)
qed

text \<open>
  C28: Writing a set of definitions as YAML and reading it back loses every level, of
  loggers and of appenders, every formatter and file name of a standard output appender and every
  appender of another type, and nothing else; so the set comes back as it was exactly when it has
  none of these. The emitter and the reader are parameters; the document is assumed to reload.
\<close>

theorem defines_roundtrip:
  assumes "yaml_access Y" and "yaml_reload Y (defines_node v)" and "oset_ok ld_name v"
  shows "\<exists>out. defines_from_string Y (defines_to_string Y v) = Inr (map kept_define v, out)
    \<and> (map kept_define v = v \<longleftrightarrow>
        (\<forall>i \<in> set v. ld_level i = UNKNOWN \<and> (\<forall>a \<in> set (ld_appenders i).
           lad_level a = UNKNOWN
           \<and> (lad_type a = 1 \<or> lad_type a = 2 \<and> lad_formatter a = [] \<and> lad_file a = []))))"
proof -
  have kept: "map kept_appender (filter known_type as) = as \<longleftrightarrow>
      (\<forall>a \<in> set as. lad_level a = UNKNOWN
         \<and> (lad_type a = 1 \<or> lad_type a = 2 \<and> lad_formatter a = [] \<and> lad_file a = []))" for as
  proof (induction as)
    case (Cons a as)
    have one: "known_type a \<and> kept_appender a = a \<longleftrightarrow> lad_level a = UNKNOWN
         \<and> (lad_type a = 1 \<or> lad_type a = 2 \<and> lad_formatter a = [] \<and> lad_file a = [])"
      by (cases a) (auto simp: known_type_def kept_appender_def new_LogAppenderDefine_def)
    have "map kept_appender (filter known_type as) \<noteq> a # as"
      using length_filter_le [of known_type as] by (auto dest!: arg_cong [where f = length] simp del: length_filter_le)
    with Cons one show ?case by (cases "known_type a") auto
  qed simp
  have "kept_define i = i \<longleftrightarrow> ld_level i = UNKNOWN
      \<and> map kept_appender (filter known_type (ld_appenders i)) = ld_appenders i" for i
    by (cases i) (auto simp: kept_define_def)
  moreover have "map kept_define v = v \<longleftrightarrow> (\<forall>i \<in> set v. kept_define i = i)"
    by (induction v) auto
  ultimately have "map kept_define v = v \<longleftrightarrow>
        (\<forall>i \<in> set v. ld_level i = UNKNOWN \<and> (\<forall>a \<in> set (ld_appenders i).
           lad_level a = UNKNOWN
           \<and> (lad_type a = 1 \<or> lad_type a = 2 \<and> lad_formatter a = [] \<and> lad_file a = [])))"
    by (simp only: kept)
  then show ?thesis
    using defines_reload [OF assms] by (elim exE) (intro exI conjI)
qed

section \<open>Instances\<close>

definition sample_define :: LogDefine where
  "sample_define =
     \<lparr>ld_name = ''net'', ld_level = INFO, ld_formatter = [],
      ld_appenders = [\<lparr>lad_type = 2, lad_level = WARN, lad_formatter = [], lad_file = []\<rparr>]\<rparr>"

definition sample_old :: LogDefine where
  "sample_old = new_LogDefine\<lparr>ld_name := ''http''\<rparr>"

lemma conf_listener_crashes_witness:
  "conf_listener sample_env sample_site 0 [sample_old] [sample_old, sample_define] start_state =
     Crashes Null_deref"
proof -
  have "sample_old \<in> set [sample_old, sample_define]" by simp
  moreover have "set_find sample_old [sample_old] = Some sample_old"
    by (simp add: set_find_def oset_find_def)
  ultimately show ?thesis using conf_listener_crashes [OF start_state_ok] by blast
qed

theorem conf_listener_applies_witness:
  "\<exists>st' l. conf_listener sample_env sample_site 0 [sample_old] [sample_define] start_state = Returns st'
     \<and> named_as st' sample_define \<and> retired st' ''http''
     \<and> find_logger st' ''http'' = Some l
     \<and> Logger_log sample_env l FATAL sample_event st' = Some (Inr st')"
proof -
  have inj: "inj_on ld_name (set [sample_define])" by simp
  have none: "set_find sample_define [sample_old] = None" "set_find sample_old [sample_define] = None"
    by (simp_all add: set_find_def oset_find_def sample_define_def sample_old_def)
  then have ok: "\<forall>i \<in> set [sample_define]. set_find i [sample_old] \<noteq> Some i
      \<and> (\<forall>a \<in> set (ld_appenders i). lad_type a = 1 \<or> lad_type a = 2)"
    by (simp add: sample_define_def)
  have name: "ld_name sample_old = ''http''" by (simp add: sample_old_def)
  have "FATAL < too_high" by simp
  with conf_listener_applies [OF start_state_ok inj ok, of sample_env sample_site 0] none(2) name
  show ?thesis by fastforce
qed

text \<open>A library that reads the text written for one set of definitions back as its node.\<close>

definition sample_set :: define_set where
  "sample_set = [sample_old, sample_define]"

definition sample_reader :: yaml_lib where
  "sample_reader = sample_yaml\<lparr>y_Load := (\<lambda>s. Inr (defines_node sample_set))\<rparr>"

theorem defines_roundtrip_witness:
  "\<exists>out. defines_from_string sample_reader (defines_to_string sample_reader sample_set) =
     Inr ([sample_old,
           sample_define\<lparr>ld_level := UNKNOWN, ld_appenders := [new_LogAppenderDefine\<lparr>lad_type := 2\<rparr>]\<rparr>],
          out)
   \<and> map kept_define sample_set \<noteq> sample_set"
proof -
  have access: "yaml_access sample_reader"
    by (simp add: yaml_access_def sample_reader_def sample_yaml_def)
  have reload: "yaml_reload sample_reader (defines_node sample_set)"
    by (simp add: yaml_reload_def sample_reader_def)
  have ok: "oset_ok ld_name sample_set"
    by (simp add: oset_ok_def sample_set_def sample_old_def sample_define_def less_list_code
        less_char_def)
  have "ld_level sample_define \<noteq> UNKNOWN" "sample_define \<in> set sample_set"
    by (simp_all add: sample_define_def sample_set_def)
  with defines_roundtrip [OF access reload ok] show ?thesis
    by (fastforce simp: sample_set_def kept_define_def kept_appender_def known_type_def
        sample_old_def sample_define_def new_LogDefine_def)
qed

end
