(* ===== verification/Log_Dump.thy ===== *)
theory Log_Dump
  imports Log_Config_Laws
begin

text \<open>
  Dumping the loggers as YAML (\<open>Logger::toYamlString\<close> and \<open>LoggerManager::toYamlString\<close>,
  \<open>chord/logger.cpp\<close>, lines 366-386 and 887-898) and reading the dump with the conversion of the
  log configuration, which expects the same layout.
\<close>

section \<open>The dump\<close>

text \<open>
  Every appender's text is loaded again to become a node; a \<open>YAML::Load\<close> that throws ends the
  call. The loop's body is \<open>dump_appender\<close>.
\<close>

definition load_text :: "yaml_lib \<Rightarrow> string \<Rightarrow> (crash + exn) + yaml" where
  "load_text Y txt = map_sum Inr id (y_Load Y txt)"

definition dump_appender :: "yaml_lib \<Rightarrow> log_state \<Rightarrow> nat \<Rightarrow> yaml \<Rightarrow> (crash + exn) + yaml" where
  "dump_appender Y st i node =
     (case appenders st i of
        None \<Rightarrow> Inl (Inl Null_deref)
      | Some a \<Rightarrow>
          sum_bind (load_text Y (appender_toYamlString Y a)) (\<lambda>v.
            Inr (node_put ''appenders'' (node_push v
              (case map_of (node_entries node) (YScalar ''appenders'') of
                 None \<Rightarrow> YNull | Some m \<Rightarrow> m)) node)))"

definition logger_head :: "Logger \<Rightarrow> yaml" where
  "logger_head g =
     (let n1 = node_put ''name'' (YScalar (lg_name g)) YNull;
          n2 = (if lg_level g \<noteq> UNKNOWN then node_put ''level'' (YScalar (ToString (lg_level g))) n1
                else n1)
      in case lg_formatter g of
           Some f \<Rightarrow> node_put ''formatter'' (YScalar (m_pattern f)) n2 | None \<Rightarrow> n2)"

definition Logger_toYamlString :: "yaml_lib \<Rightarrow> nat \<Rightarrow> log_state \<Rightarrow> (crash + exn) + string" where
  "Logger_toYamlString Y l st =
     (case loggers st l of
        None \<Rightarrow> Inl (Inl Null_deref)
      | Some g \<Rightarrow>
          sum_bind (for_each (dump_appender Y st) (lg_appenders g) (logger_head g))
            (\<lambda>node. Inr (y_emit Y node)))"

definition LoggerManager_toYamlString :: "yaml_lib \<Rightarrow> log_state \<Rightarrow> (crash + exn) + string" where
  "LoggerManager_toYamlString Y st =
     sum_bind
       (for_each (\<lambda>i node.
          sum_bind (Logger_toYamlString Y (snd i) st) (\<lambda>txt.
          sum_bind (load_text Y txt) (\<lambda>v. Inr (node_push v node)))) (mgr_loggers st) YNull)
       (\<lambda>node. Inr (y_emit Y node))"

section \<open>The nodes\<close>

definition appenders_of :: "log_state \<Rightarrow> Logger \<Rightarrow> LogAppender list" where
  "appenders_of st g = map (\<lambda>i. the (appenders st i)) (lg_appenders g)"

definition logger_node :: "log_state \<Rightarrow> Logger \<Rightarrow> yaml" where
  "logger_node st g = fold (\<lambda>a n. node_put ''appenders'' (node_push (appender_node a)
        (case map_of (node_entries n) (YScalar ''appenders'') of None \<Rightarrow> YNull | Some m \<Rightarrow> m)) n)
      (appenders_of st g) (logger_head g)"

definition managed :: "log_state \<Rightarrow> Logger list" where
  "managed st = map (\<lambda>(name, l). the (loggers st l)) (mgr_loggers st)"

text \<open>The library reads back the documents of this dump.\<close>

definition dump_reloads :: "yaml_lib \<Rightarrow> log_state \<Rightarrow> bool" where
  "dump_reloads Y st \<longleftrightarrow>
     (\<forall>g \<in> set (managed st). yaml_reload Y (logger_node st g)
        \<and> (\<forall>a \<in> set (appenders_of st g). yaml_reload Y (appender_node a)))
     \<and> yaml_reload Y (YSeq (map (logger_node st) (managed st)))"

lemma logger_dumps:
  assumes "loggers st l = Some g" and "logger_ok st g"
    and "\<forall>a \<in> set (appenders_of st g). yaml_reload Y (appender_node a)"
  shows "Logger_toYamlString Y l st = Inr (y_emit Y (logger_node st g))"
proof -
  have "for_each (dump_appender Y st) ids node = Inr (fold (\<lambda>a n. node_put ''appenders''
      (node_push (appender_node a) (case map_of (node_entries n) (YScalar ''appenders'') of
         None \<Rightarrow> YNull | Some m \<Rightarrow> m)) n) (map (\<lambda>i. the (appenders st i)) ids) node)"
    if "\<forall>i \<in> set ids. \<exists>a. appenders st i = Some a \<and> yaml_reload Y (appender_node a)" for ids node
    using that
  proof (induction ids arbitrary: node)
    case (Cons i ids)
    then obtain a where "appenders st i = Some a" "y_Load Y (appender_toYamlString Y a) = Inr (appender_node a)"
      by (auto simp: yaml_reload_def appender_toYamlString_def)
    with Cons show ?case by (simp add: dump_appender_def load_text_def)
  qed simp
  moreover have "\<forall>i \<in> set (lg_appenders g). \<exists>a. appenders st i = Some a \<and> yaml_reload Y (appender_node a)"
    using assms(2,3) by (fastforce simp: logger_ok_def appenders_of_def)
  ultimately show ?thesis
    using assms(1) by (simp add: Logger_toYamlString_def logger_node_def appenders_of_def)
qed

lemma logger_node_entries:
  "\<exists>es. logger_node st g = YMap es
    \<and> map_of es (YScalar ''name'') = Some (YScalar (lg_name g))
    \<and> map_of es (YScalar ''level'') =
        (if lg_level g = UNKNOWN then None else Some (YScalar (ToString (lg_level g))))
    \<and> map_of es (YScalar ''formatter'') = map_option (\<lambda>f. YScalar (m_pattern f)) (lg_formatter g)
    \<and> map_of es (YScalar ''appenders'') = (if lg_appenders g = [] then None
        else Some (YSeq (map appender_node (appenders_of st g))))"
proof -
  have "\<exists>es. logger_head g = YMap es
    \<and> map_of es (YScalar ''name'') = Some (YScalar (lg_name g))
    \<and> map_of es (YScalar ''level'') =
        (if lg_level g = UNKNOWN then None else Some (YScalar (ToString (lg_level g))))
    \<and> map_of es (YScalar ''formatter'') = map_option (\<lambda>f. YScalar (m_pattern f)) (lg_formatter g)
    \<and> map_of es (YScalar ''appenders'') = None"
    by (cases "lg_formatter g") (simp_all add: logger_head_def node_put_def Let_def)
  then obtain es where es: "logger_head g = YMap es"
    "map_of es (YScalar ''name'') = Some (YScalar (lg_name g))"
    "map_of es (YScalar ''level'') =
        (if lg_level g = UNKNOWN then None else Some (YScalar (ToString (lg_level g))))"
    "map_of es (YScalar ''formatter'') = map_option (\<lambda>f. YScalar (m_pattern f)) (lg_formatter g)"
    "map_of es (YScalar ''appenders'') = None" by (elim exE conjE)
  from fold_put_appenders [OF es(5), of appender_node "appenders_of st g"] obtain es'
    where es': "logger_node st g = YMap es'" "map_of es' = (if appenders_of st g = [] then map_of es
        else (map_of es)(YScalar ''appenders'' \<mapsto> YSeq (map appender_node (appenders_of st g))))"
    unfolding logger_node_def es(1) by (elim exE conjE)
  moreover have "appenders_of st g = [] \<longleftrightarrow> lg_appenders g = []" by (simp add: appenders_of_def)
  ultimately show ?thesis using es(2-5) by simp
qed

section \<open>Reading the dump\<close>

text \<open>The definition a logger's node is read as.\<close>

definition dumped_appender :: "LogAppender \<Rightarrow> LogAppenderDefine" where
  "dumped_appender a =
     (case ap_kind a of
        StdOutLogAppender \<Rightarrow> new_LogAppenderDefine\<lparr>lad_type := 2\<rparr>
      | FileLogAppender fp \<Rightarrow>
          new_LogAppenderDefine\<lparr>lad_type := 1, lad_file := m_filename fp,
            lad_formatter := (case ap_formatter a of
                                Some f \<Rightarrow> if ap_has_formatter a then m_pattern f else []
                              | None \<Rightarrow> [])\<rparr>)"

definition dumped_define :: "log_state \<Rightarrow> Logger \<Rightarrow> LogDefine" where
  "dumped_define st g =
     \<lparr>ld_name = lg_name g, ld_level = (if lg_level g \<le> FATAL then lg_level g else UNKNOWN),
      ld_formatter = (case lg_formatter g of Some f \<Rightarrow> m_pattern f | None \<Rightarrow> []),
      ld_appenders = map dumped_appender (appenders_of st g)\<rparr>"

lemma dumped_appender_reads:
  assumes "yaml_access Y"
  shows "appender_from_node Y (appender_node a) = Inr (Some (dumped_appender a), [])"
  using yaml_accessD(4) [OF assms]
  by (cases "ap_kind a"; cases "ap_level a = UNKNOWN"; cases "ap_formatter a"; cases "ap_has_formatter a")
    (simp_all add: appender_from_node_def appender_node_def Let_def node_put_def
      get_string_map [OF assms] dumped_appender_def)

lemma dumped_appenders_read:
  assumes "yaml_access Y" and "n \<le> length as"
  shows "for_each (add_appender_at Y (YSeq (map appender_node as))) [0..<n] (ld, out) =
    Inr (ld\<lparr>ld_appenders := ld_appenders ld @ map dumped_appender (take n as)\<rparr>, out)"
  using assms(2)
proof (induction n)
  case (Suc n)
  then show ?case
    using yaml_accessD(1) [OF assms(1), of n "map appender_node as"]
    by (simp add: for_each_append add_appender_at_def dumped_appender_reads [OF assms(1)]
        take_Suc_conv_app_nth)
qed simp

text \<open>Reading one definition from the entries of its node.\<close>

lemma define_at_entries:
  assumes "yaml_access Y" and "y_index Y node i = Inr (YMap es)"
    and "map_of es (YScalar ''name'') = Some (YScalar nm)"
    and "map_of es (YScalar ''level'') = map_option YScalar lv"
    and "map_of es (YScalar ''formatter'') = map_option YScalar fm"
    and "ld = new_LogDefine\<lparr>ld_name := nm, ld_level := FromString (case lv of None \<Rightarrow> [] | Some s \<Rightarrow> s),
           ld_formatter := (case fm of None \<Rightarrow> [] | Some s \<Rightarrow> s)\<rparr>"
    and "(case map_of es (YScalar ''appenders'') of
            None \<Rightarrow> Inr (ld, out)
          | Some asn \<Rightarrow> for_each (add_appender_at Y asn) [0..<node_size asn] (ld, out)) = Inr (ld', out')"
  shows "define_at Y node i (ds, out) = Inr (set_insert ld' ds, out')"
proof -
  have "get_string Y (YMap es) ''name'' = Inr (Some nm)" "get_string Y (YMap es) ''level'' = Inr lv"
    "get_string Y (YMap es) ''formatter'' = Inr fm"
    using yaml_accessD(4) [OF assms(1)]
    by (cases lv; cases fm; simp add: get_string_map [OF assms(1)] assms(3-5))+
  then show ?thesis
    using assms(7) [unfolded assms(6)] yaml_accessD(2) [OF assms(1), of es "''appenders''"]
    by (simp add: define_at_def assms(2) Let_def)
qed

lemma dumped_logger_reads:
  assumes "yaml_access Y" and "i < length gs"
  shows "\<exists>out'. define_at Y (YSeq (map (logger_node st) gs)) i (ds, out) =
    Inr (set_insert (dumped_define st (gs ! i)) ds, out')"
proof -
  obtain g where g: "gs ! i = g" by simp
  obtain es where es: "logger_node st g = YMap es"
    "map_of es (YScalar ''name'') = Some (YScalar (lg_name g))"
    "map_of es (YScalar ''level'') =
        (if lg_level g = UNKNOWN then None else Some (YScalar (ToString (lg_level g))))"
    "map_of es (YScalar ''formatter'') = map_option (\<lambda>f. YScalar (m_pattern f)) (lg_formatter g)"
    "map_of es (YScalar ''appenders'') = (if lg_appenders g = [] then None
        else Some (YSeq (map appender_node (appenders_of st g))))"
    using logger_node_entries by blast
  obtain lv where lv: "lv = (if lg_level g = UNKNOWN then None else Some (ToString (lg_level g)))" by simp
  have level: "map_of es (YScalar ''level'') = map_option YScalar lv"
    "FromString (case lv of None \<Rightarrow> [] | Some s \<Rightarrow> s) = ld_level (dumped_define st g)"
    by (simp_all add: lv es(3) level_roundtrip dumped_define_def)
  obtain fm where fm: "fm = map_option m_pattern (lg_formatter g)" by simp
  have fmt: "map_of es (YScalar ''formatter'') = map_option YScalar fm"
    "(case fm of None \<Rightarrow> [] | Some s \<Rightarrow> s) = ld_formatter (dumped_define st g)"
    by (simp_all add: fm es(4) option.map_comp comp_def dumped_define_def split: option.split)
  have item: "y_index Y (YSeq (map (logger_node st) gs)) i = Inr (YMap es)"
    using yaml_accessD(1) [OF assms(1), of i "map (logger_node st) gs"] assms(2) es(1) g by simp
  let ?ld = "new_LogDefine\<lparr>ld_name := lg_name g,
    ld_level := FromString (case lv of None \<Rightarrow> [] | Some s \<Rightarrow> s),
    ld_formatter := (case fm of None \<Rightarrow> [] | Some s \<Rightarrow> s)\<rparr>"
  have "?ld\<lparr>ld_appenders := ld_appenders ?ld @ map dumped_appender (appenders_of st g)\<rparr> =
      dumped_define st g"
    unfolding level(2) fmt(2) by (simp add: dumped_define_def new_LogDefine_def)
  moreover from this have "lg_appenders g = [] \<Longrightarrow> ?ld = dumped_define st g"
    unfolding level(2) fmt(2) by (simp add: appenders_of_def)
  ultimately have "(case map_of es (YScalar ''appenders'') of
        None \<Rightarrow> Inr (?ld, out)
      | Some asn \<Rightarrow> for_each (add_appender_at Y asn) [0..<node_size asn] (?ld, out)) =
      Inr (dumped_define st g, out)"
    using dumped_appenders_read [OF assms(1) order_refl, of "appenders_of st g" ?ld out]
    by (simp add: es(5))
  from define_at_entries [OF assms(1) item es(2) level(1) fmt(1) refl this] show ?thesis
    unfolding g by blast
qed

lemma managed_ok:
  assumes "mgr_ok st"
  shows "oset_ok ld_name (map (dumped_define st) (managed st))"
    and "(name, l) \<in> set (mgr_loggers st) \<Longrightarrow> \<exists>g. loggers st l = Some g \<and> lg_name g = name
      \<and> logger_ok st g \<and> g \<in> set (managed st)"
proof -
  have entry: "\<exists>g. loggers st l = Some g \<and> lg_name g = name \<and> logger_ok st g \<and> g \<in> set (managed st)"
    if "(name, l) \<in> set (mgr_loggers st)" for name l
  proof -
    have "map_of (mgr_loggers st) name = Some l"
      using map_of_smap_iff [OF mgr_okD(2) [OF assms]] that by simp
    with mgr_okD(4) [OF assms] obtain g where g: "loggers st l = Some g" "lg_name g = name"
      by (auto simp: entry_ok_def)
    moreover have "g \<in> set (managed st)" using that g(1) by (force simp: managed_def)
    ultimately show ?thesis using store_okD(2) [OF mgr_okD(1) [OF assms]] by blast
  qed
  then show "(name, l) \<in> set (mgr_loggers st) \<Longrightarrow> \<exists>g. loggers st l = Some g \<and> lg_name g = name
      \<and> logger_ok st g \<and> g \<in> set (managed st)" .
  have "map ld_name (map (dumped_define st) (managed st)) = map fst (mgr_loggers st)"
    using entry by (fastforce simp: managed_def dumped_define_def intro!: map_cong)
  with mgr_okD(2) [OF assms] show "oset_ok ld_name (map (dumped_define st) (managed st))"
    by (simp add: oset_ok_def smap_ok_def)
qed

lemma manager_dumps:
  assumes "mgr_ok st" and "dump_reloads Y st"
  shows "LoggerManager_toYamlString Y st = Inr (y_emit Y (YSeq (map (logger_node st) (managed st))))"
proof -
  let ?body = "\<lambda>i node. sum_bind (Logger_toYamlString Y (snd i) st) (\<lambda>txt.
      sum_bind (load_text Y txt) (\<lambda>v. Inr (node_push v node)))"
  have "for_each ?body es node =
      Inr (fold (\<lambda>g. node_push (logger_node st g)) (map (\<lambda>(name, l). the (loggers st l)) es) node)"
    if "set es \<subseteq> set (mgr_loggers st)" for es node
    using that
  proof (induction es arbitrary: node)
    case (Cons e es)
    obtain name l where e: "e = (name, l)" by (cases e)
    with Cons.prems managed_ok(2) [OF assms(1)] obtain g where
      g: "loggers st l = Some g" "logger_ok st g" "g \<in> set (managed st)" by fastforce
    with assms(2) have "yaml_reload Y (logger_node st g)"
      "\<forall>a \<in> set (appenders_of st g). yaml_reload Y (appender_node a)" by (simp_all add: dump_reloads_def)
    with logger_dumps [OF g(1,2)] have "?body e node = Inr (node_push (logger_node st g) node)"
      by (simp add: e load_text_def yaml_reload_def)
    with Cons g(1) e show ?case by simp
  qed simp
  from this [OF order_refl, of YNull] have "for_each ?body (mgr_loggers st) YNull =
      Inr (fold (\<lambda>g. node_push (logger_node st g)) (managed st) YNull)" by (simp add: managed_def)
  moreover have "managed st \<noteq> []"
    using mgr_okD(3) [OF assms(1)] by (auto simp: managed_def)
  then have "fold (\<lambda>g. node_push (logger_node st g)) (managed st) YNull =
      YSeq (map (logger_node st) (managed st))"
    by (cases "managed st") (simp_all add: fold_node_push)
  ultimately show ?thesis by (simp add: LoggerManager_toYamlString_def)
qed

text \<open>
  C21: Dumping all loggers and reading the dump as a log configuration. In a state of the manager's
  invariant the dump succeeds, and reading it yields one definition per logger, in name order,
  with its name, the pattern of its formatter and its appenders in order, each with its kind and
  file. What is lost: a level outside the enumeration (a logger silenced with level 100 comes back
  as \<open>UNKNOWN\<close>, which lets every event pass), every appender's level and every standard output
  appender's own formatter.
\<close>

theorem dump_roundtrip:
  assumes "mgr_ok st" and "yaml_access Y" and "dump_reloads Y st"
  shows "\<exists>txt line. LoggerManager_toYamlString Y st = Inr txt
    \<and> defines_from_string Y txt = Inr (map (dumped_define st) (managed st), line)
    \<and> map ld_name (map (dumped_define st) (managed st)) = map fst (mgr_loggers st)"
proof -
  let ?gs = "managed st"
  have load: "y_Load Y (y_emit Y (YSeq (map (logger_node st) ?gs))) = Inr (YSeq (map (logger_node st) ?gs))"
    using assms(3) by (simp add: dump_reloads_def yaml_reload_def)
  obtain line where "for_each (define_at Y (YSeq (map (logger_node st) ?gs))) [0..<length ?gs] ([], []) =
      Inr (fold (\<lambda>g. set_insert (dumped_define st g)) ?gs [], line)"
    using for_each_upto [where f = "define_at Y (YSeq (map (logger_node st) ?gs))" and n = "length ?gs"
        and g = "\<lambda>g. set_insert (dumped_define st g)", OF _ dumped_logger_reads [OF assms(2)]] by auto
  moreover have "fold (\<lambda>g. set_insert (dumped_define st g)) ?gs [] =
      fold set_insert (map (dumped_define st) ?gs) []"
    by (simp add: fold_map comp_def)
  moreover have "oset_ok ld_name ([] @ map (dumped_define st) ?gs)"
    using managed_ok(1) [OF assms(1)] by simp
  note fold_oset_insert [OF this]
  moreover have "map ld_name (map (dumped_define st) ?gs) = map fst (mgr_loggers st)"
    using managed_ok(2) [OF assms(1)]
    by (fastforce simp: managed_def dumped_define_def intro!: map_cong)
  ultimately show ?thesis
    using manager_dumps [OF assms(1,3)] load
    by (auto simp: defines_from_string_def set_insert_def)
qed

section \<open>Instance\<close>

text \<open>The manager as constructed, and a library that knows the three documents of its dump.\<close>

definition root_logger :: Logger where
  "root_logger = (Logger_init ''root'')\<lparr>lg_appenders := [1]\<rparr>"

definition root_appender :: LogAppender where
  "root_appender = new_StdOutLogAppender\<lparr>ap_formatter := default_formatter_opt\<rparr>"

definition dump_library :: yaml_lib where
  "dump_library = sample_yaml
     \<lparr>y_emit := (\<lambda>n. if n = appender_node root_appender then ''a''
                    else if n = logger_node start_state root_logger then ''l'' else ''m''),
      y_Load := (\<lambda>s. if s = ''a'' then Inr (appender_node root_appender)
                    else if s = ''l'' then Inr (logger_node start_state root_logger)
                    else Inr (YSeq [logger_node start_state root_logger]))\<rparr>"

lemma start_state_managed:
  "managed start_state = [root_logger]" "appenders_of start_state root_logger = [root_appender]"
  by (simp_all add: managed_def appenders_of_def start_state_def root_logger_def root_appender_def)

lemma start_state_documents:
  "logger_node start_state root_logger \<noteq> appender_node root_appender"
  "YSeq [n] \<noteq> appender_node root_appender" "YSeq [n] \<noteq> logger_node start_state root_logger"
proof -
  obtain es where es: "logger_node start_state root_logger = YMap es"
    "map_of es (YScalar ''name'') \<noteq> None" using logger_node_entries by blast
  have kind: "ap_kind root_appender = StdOutLogAppender"
    by (simp add: root_appender_def new_StdOutLogAppender_def new_appender_def)
  obtain fs where fs: "appender_node root_appender = YMap fs" "map_of fs (YScalar ''name'') = None"
    by (cases "ap_formatter root_appender"; cases "ap_has_formatter root_appender";
        cases "ap_level root_appender = UNKNOWN")
      (simp_all add: appender_node_def kind Let_def node_put_def)
  from es fs show "logger_node start_state root_logger \<noteq> appender_node root_appender"
    "YSeq [n] \<noteq> appender_node root_appender" "YSeq [n] \<noteq> logger_node start_state root_logger"
    by auto
qed

theorem dump_roundtrip_witness:
  "\<exists>txt line. LoggerManager_toYamlString dump_library start_state = Inr txt
     \<and> defines_from_string dump_library txt = Inr ([dumped_define start_state root_logger], line)
     \<and> ld_name (dumped_define start_state root_logger) = ''root''"
proof -
  have access: "yaml_access dump_library"
    by (simp add: yaml_access_def dump_library_def sample_yaml_def)
  have "dump_reloads dump_library start_state"
    using start_state_documents
    by (simp add: dump_reloads_def start_state_managed yaml_reload_def dump_library_def)
  from dump_roundtrip [OF start_state_ok access this] show ?thesis
    by (auto simp: start_state_managed dumped_define_def root_logger_def Logger_init_def)
qed

end
