(* ===== verification/Locks.thy ===== *)
theory Locks
  imports Chord_Prelude
begin

text \<open>
  The locks of \<open>chord/thread.h\<close>, lines 22-277: the scoped guards, the wrappers around the
  pthread locks and the spin lock on an atomic flag. Threads are numbers. A call that has to wait
  (or spins) is \<open>None\<close>: the caller makes no progress in this state of the lock. The contracts of
  a lock are a chain of locales; every lock interprets the ones it satisfies.
\<close>

type_synonym thread = nat

section \<open>The guards\<close>

text \<open>
  \<open>ScopedLockImpl\<close>, \<open>ReadScopedLockImpl\<close> and \<open>WriteScopedLockImpl\<close> are the same code with
  \<open>lock\<close>, \<open>rdlock\<close> and \<open>wrlock\<close>: the lock's two operations are arguments. The guard holds a
  reference to its mutex; the model carries the mutex along.
\<close>

record 'm guard =
  g_mutex :: 'm
  g_locked :: bool

definition guard_construct :: "(thread \<Rightarrow> 'm \<Rightarrow> 'm option) \<Rightarrow> thread \<Rightarrow> 'm \<Rightarrow> 'm guard option" where
  "guard_construct lk t m =
     (case lk t m of None \<Rightarrow> None | Some m' \<Rightarrow> Some \<lparr>g_mutex = m', g_locked = True\<rparr>)"

definition guard_lock :: "(thread \<Rightarrow> 'm \<Rightarrow> 'm option) \<Rightarrow> thread \<Rightarrow> 'm guard \<Rightarrow> 'm guard option" where
  "guard_lock lk t g =
     (if \<not> g_locked g then
        (case lk t (g_mutex g) of
           None \<Rightarrow> None
         | Some m' \<Rightarrow> Some (g\<lparr>g_mutex := m', g_locked := True\<rparr>))
      else Some g)"

definition guard_unlock :: "(thread \<Rightarrow> 'm \<Rightarrow> 'm) \<Rightarrow> thread \<Rightarrow> 'm guard \<Rightarrow> 'm guard" where
  "guard_unlock ul t g =
     (if g_locked g then g\<lparr>g_mutex := ul t (g_mutex g), g_locked := False\<rparr> else g)"

definition guard_destroy :: "(thread \<Rightarrow> 'm \<Rightarrow> 'm) \<Rightarrow> thread \<Rightarrow> 'm guard \<Rightarrow> 'm" where
  "guard_destroy ul t g = g_mutex (guard_unlock ul t g)"

text \<open>A scope: the calls of the guard's own \<open>lock\<close> and \<open>unlock\<close> between construction and end.\<close>

datatype guard_op = Guard_lock | Guard_unlock

fun guard_run ::
  "(thread \<Rightarrow> 'm \<Rightarrow> 'm option) \<Rightarrow> (thread \<Rightarrow> 'm \<Rightarrow> 'm) \<Rightarrow> thread \<Rightarrow> guard_op list \<Rightarrow> 'm guard
     \<Rightarrow> 'm guard option" where
  "guard_run lk ul t [] g = Some g"
| "guard_run lk ul t (Guard_lock # ops) g =
     (case guard_lock lk t g of None \<Rightarrow> None | Some g' \<Rightarrow> guard_run lk ul t ops g')"
| "guard_run lk ul t (Guard_unlock # ops) g = guard_run lk ul t ops (guard_unlock ul t g)"

section \<open>The locks\<close>

text \<open>
  \<open>Mutex\<close> and \<open>Spinlock\<close> wrap \<open>pthread_mutex_t\<close> (of the default type) and
  \<open>pthread_spinlock_t\<close>: the thread that holds the lock, if any. Locking again by the holder waits
  for ever.
\<close>

datatype Mutex = Mutex (mutex_holder: "thread option")

definition new_Mutex :: Mutex where "new_Mutex = Mutex None"

definition Mutex_lock :: "thread \<Rightarrow> Mutex \<Rightarrow> Mutex option" where
  "Mutex_lock t m = (if mutex_holder m = None then Some (Mutex (Some t)) else None)"

definition Mutex_unlock :: "thread \<Rightarrow> Mutex \<Rightarrow> Mutex" where
  "Mutex_unlock t m = Mutex None"

datatype Spinlock = Spinlock (spin_holder: "thread option")

definition new_Spinlock :: Spinlock where "new_Spinlock = Spinlock None"

definition Spinlock_lock :: "thread \<Rightarrow> Spinlock \<Rightarrow> Spinlock option" where
  "Spinlock_lock t m = (if spin_holder m = None then Some (Spinlock (Some t)) else None)"

definition Spinlock_unlock :: "thread \<Rightarrow> Spinlock \<Rightarrow> Spinlock" where
  "Spinlock_unlock t m = Spinlock None"

text \<open>The null locks do nothing.\<close>

definition NullMutex_lock :: "thread \<Rightarrow> unit \<Rightarrow> unit option" where
  "NullMutex_lock t m = Some m"

definition NullMutex_unlock :: "thread \<Rightarrow> unit \<Rightarrow> unit" where
  "NullMutex_unlock t m = m"

definition NullRWMutex_rdlock :: "thread \<Rightarrow> unit \<Rightarrow> unit option" where
  "NullRWMutex_rdlock t m = Some m"

definition NullRWMutex_wrlock :: "thread \<Rightarrow> unit \<Rightarrow> unit option" where
  "NullRWMutex_wrlock t m = Some m"

definition NullRWMutex_unlock :: "thread \<Rightarrow> unit \<Rightarrow> unit" where
  "NullRWMutex_unlock t m = m"

text \<open>
  \<open>RWMutex\<close> wraps \<open>pthread_rwlock_t\<close>: how often each thread holds it for reading, and the
  thread that holds it for writing. Readers are admitted while no thread writes, a writer when no
  thread reads or writes.
\<close>

record RWMutex =
  rw_reads :: "thread \<Rightarrow> nat"
  rw_writer :: "thread option"

definition new_RWMutex :: RWMutex where
  "new_RWMutex = \<lparr>rw_reads = (\<lambda>_. 0), rw_writer = None\<rparr>"

definition RWMutex_rdlock :: "thread \<Rightarrow> RWMutex \<Rightarrow> RWMutex option" where
  "RWMutex_rdlock t m =
     (if rw_writer m = None then Some (m\<lparr>rw_reads := (rw_reads m)(t := rw_reads m t + 1)\<rparr>) else None)"

definition RWMutex_wrlock :: "thread \<Rightarrow> RWMutex \<Rightarrow> RWMutex option" where
  "RWMutex_wrlock t m =
     (if rw_writer m = None \<and> rw_reads m = (\<lambda>_. 0) then Some (m\<lparr>rw_writer := Some t\<rparr>) else None)"

definition RWMutex_unlock :: "thread \<Rightarrow> RWMutex \<Rightarrow> RWMutex" where
  "RWMutex_unlock t m =
     (if rw_writer m = Some t then m\<lparr>rw_writer := None\<rparr>
      else m\<lparr>rw_reads := (rw_reads m)(t := rw_reads m t - 1)\<rparr>)"

text \<open>
  \<open>CASLock\<close>: an atomic flag; \<open>lock\<close> sets it until it finds that it was clear. One turn of the
  loop is \<open>CASLock_try\<close>: the new flag and whether the loop goes on.
\<close>

definition new_CASLock :: bool where "new_CASLock = False"

definition CASLock_try :: "bool \<Rightarrow> bool \<times> bool" where
  "CASLock_try flag = (True, flag)"

definition CASLock_lock :: "thread \<Rightarrow> bool \<Rightarrow> bool option" where
  "CASLock_lock t flag = (case CASLock_try flag of (flag', again) \<Rightarrow> if again then None else Some flag')"

definition CASLock_unlock :: "thread \<Rightarrow> bool \<Rightarrow> bool" where
  "CASLock_unlock t flag = False"

section \<open>The guards of the read-write lock\<close>

text \<open>
  \<open>RWMutex::ReadLock\<close> and \<open>RWMutex::WriteLock\<close>: \<open>ReadScopedLockImpl\<close> and \<open>WriteScopedLockImpl\<close>
  at the type \<open>RWMutex\<close>.
\<close>

definition ReadLock_construct :: "thread \<Rightarrow> RWMutex \<Rightarrow> RWMutex guard option" where
  "ReadLock_construct = guard_construct RWMutex_rdlock"

definition ReadLock_lock :: "thread \<Rightarrow> RWMutex guard \<Rightarrow> RWMutex guard option" where
  "ReadLock_lock = guard_lock RWMutex_rdlock"

definition ReadLock_unlock :: "thread \<Rightarrow> RWMutex guard \<Rightarrow> RWMutex guard" where
  "ReadLock_unlock = guard_unlock RWMutex_unlock"

definition ReadLock_destroy :: "thread \<Rightarrow> RWMutex guard \<Rightarrow> RWMutex" where
  "ReadLock_destroy = guard_destroy RWMutex_unlock"

definition WriteLock_construct :: "thread \<Rightarrow> RWMutex \<Rightarrow> RWMutex guard option" where
  "WriteLock_construct = guard_construct RWMutex_wrlock"

definition WriteLock_lock :: "thread \<Rightarrow> RWMutex guard \<Rightarrow> RWMutex guard option" where
  "WriteLock_lock = guard_lock RWMutex_wrlock"

definition WriteLock_unlock :: "thread \<Rightarrow> RWMutex guard \<Rightarrow> RWMutex guard" where
  "WriteLock_unlock = guard_unlock RWMutex_unlock"

definition WriteLock_destroy :: "thread \<Rightarrow> RWMutex guard \<Rightarrow> RWMutex" where
  "WriteLock_destroy = guard_destroy RWMutex_unlock"

lemmas rw_guard_defs =
  ReadLock_construct_def ReadLock_lock_def ReadLock_unlock_def ReadLock_destroy_def
  WriteLock_construct_def WriteLock_lock_def WriteLock_unlock_def WriteLock_destroy_def

section \<open>The contract of a guard's mutex\<close>

text \<open>Unlocking by the thread that has just locked restores the lock.\<close>

locale basic_lock =
  fixes lk :: "thread \<Rightarrow> 'm \<Rightarrow> 'm option" and ul :: "thread \<Rightarrow> 'm \<Rightarrow> 'm"
  assumes restore: "lk t m = Some m' \<Longrightarrow> ul t m' = m"
begin

text \<open>
  A scope whose guard could be constructed never waits again, whatever sequence of \<open>lock\<close> and
  \<open>unlock\<close> calls it makes, and leaves the lock as it found it.
\<close>

lemma scope_runs:
  assumes "lk t m = Some m'" and "g = \<lparr>g_mutex = m', g_locked = True\<rparr> \<or> g = \<lparr>g_mutex = m, g_locked = False\<rparr>"
  shows "\<exists>g'. guard_run lk ul t ops g = Some g'
    \<and> (g' = \<lparr>g_mutex = m', g_locked = True\<rparr> \<or> g' = \<lparr>g_mutex = m, g_locked = False\<rparr>)"
  using assms(2)
proof (induction ops arbitrary: g)
  case (Cons op ops)
  show ?case
  proof (cases op)
    case Guard_lock
    have "guard_lock lk t g = Some \<lparr>g_mutex = m', g_locked = True\<rparr>"
      using Cons.prems assms(1) by (auto simp: guard_lock_def)
    with Cons.IH [of "\<lparr>g_mutex = m', g_locked = True\<rparr>"] Guard_lock show ?thesis by simp
  next
    case Guard_unlock
    have "guard_unlock ul t g = \<lparr>g_mutex = m, g_locked = False\<rparr>"
      using Cons.prems restore [OF assms(1)] by (auto simp: guard_unlock_def)
    with Cons.IH [of "\<lparr>g_mutex = m, g_locked = False\<rparr>"] Guard_unlock show ?thesis by simp
  qed
qed simp

lemma scope_restores:
  assumes "guard_construct lk t m = Some g"
  shows "\<exists>g'. guard_run lk ul t ops g = Some g' \<and> guard_destroy ul t g' = m"
proof -
  from assms obtain m' where m': "lk t m = Some m'" and g: "g = \<lparr>g_mutex = m', g_locked = True\<rparr>"
    by (auto simp: guard_construct_def split: option.splits)
  from scope_runs [OF m', of g ops] g obtain g' where "guard_run lk ul t ops g = Some g'"
    "g' = \<lparr>g_mutex = m', g_locked = True\<rparr> \<or> g' = \<lparr>g_mutex = m, g_locked = False\<rparr>" by blast
  with restore [OF m'] show ?thesis by (auto simp: guard_destroy_def guard_unlock_def)
qed

end

text \<open>
  A lock that counts how often each thread holds it. The other threads may work on the lock
  between the steps of a scope.
\<close>

locale counted_lock = basic_lock lk ul
  for lk :: "thread \<Rightarrow> 'm \<Rightarrow> 'm option" and ul :: "thread \<Rightarrow> 'm \<Rightarrow> 'm" +
  fixes held :: "thread \<Rightarrow> 'm \<Rightarrow> nat"
  assumes lock_counts: "lk t m = Some m' \<Longrightarrow> held u m' = held u m + (if u = t then 1 else 0)"
    and unlock_counts: "held t m > 0 \<Longrightarrow> held u (ul t m) = held u m - (if u = t then 1 else 0)"
begin

text \<open>
  Whatever the other threads do to the lock in between (they keep this thread's count), a guard
  that is not locked is not counted and a locked one is counted once.
\<close>

definition guard_counts :: "thread \<Rightarrow> nat \<Rightarrow> 'm guard \<Rightarrow> bool" where
  "guard_counts t n g \<longleftrightarrow> held t (g_mutex g) = n + (if g_locked g then 1 else 0)"

lemma construct_counts:
  "guard_construct lk t m = Some g \<Longrightarrow> guard_counts t (held t m) g"
  by (auto simp: guard_construct_def guard_counts_def lock_counts split: option.splits)

lemma guard_lock_counts: "guard_lock lk t g = Some g' \<Longrightarrow> guard_counts t n g \<Longrightarrow> guard_counts t n g'"
  by (auto simp: guard_lock_def guard_counts_def lock_counts split: if_splits option.splits)

lemma guard_unlock_counts: "guard_counts t n g \<Longrightarrow> guard_counts t n (guard_unlock ul t g)"
  by (auto simp: guard_unlock_def guard_counts_def unlock_counts)

lemma others_count:
  "held t m' = held t (g_mutex g) \<Longrightarrow> guard_counts t n g \<Longrightarrow> guard_counts t n (g\<lparr>g_mutex := m'\<rparr>)"
  by (simp add: guard_counts_def)

lemma destroy_counts: "guard_counts t n g \<Longrightarrow> held t (guard_destroy ul t g) = n"
  by (simp add: guard_counts_def guard_destroy_def guard_unlock_def unlock_counts)

end

text \<open>A lock only one thread can hold, once.\<close>

locale exclusive_lock = counted_lock lk ul held
  for lk :: "thread \<Rightarrow> 'm \<Rightarrow> 'm option" and ul :: "thread \<Rightarrow> 'm \<Rightarrow> 'm"
    and held :: "thread \<Rightarrow> 'm \<Rightarrow> nat" +
  assumes excludes: "held u m > 0 \<Longrightarrow> lk t m = None"
begin

lemma no_relock: "lk t m = Some m' \<Longrightarrow> lk u m' = None"
  using excludes [of t m' u] lock_counts [of t m m' t] by simp

lemma held_once: "lk t m = Some m' \<Longrightarrow> held u m' = (if u = t then 1 else 0)"
  using excludes [of u m t] lock_counts [of t m m' u] by fastforce

end

definition Mutex_held :: "thread \<Rightarrow> Mutex \<Rightarrow> nat" where
  "Mutex_held t m = (if mutex_holder m = Some t then 1 else 0)"

definition Spinlock_held :: "thread \<Rightarrow> Spinlock \<Rightarrow> nat" where
  "Spinlock_held t m = (if spin_holder m = Some t then 1 else 0)"

definition RWMutex_held :: "thread \<Rightarrow> RWMutex \<Rightarrow> nat" where
  "RWMutex_held t m = rw_reads m t + (if rw_writer m = Some t then 1 else 0)"

interpretation mutex_lock: exclusive_lock Mutex_lock Mutex_unlock Mutex_held
  by unfold_locales
    (auto simp: Mutex_lock_def Mutex_unlock_def Mutex_held_def Mutex.expand split: if_splits)

interpretation spin_lock: exclusive_lock Spinlock_lock Spinlock_unlock Spinlock_held
  by unfold_locales
    (auto simp: Spinlock_lock_def Spinlock_unlock_def Spinlock_held_def Spinlock.expand split: if_splits)

interpretation null_lock: basic_lock NullMutex_lock NullMutex_unlock
  by unfold_locales (simp add: NullMutex_lock_def NullMutex_unlock_def)

interpretation null_read_lock: basic_lock NullRWMutex_rdlock NullRWMutex_unlock
  by unfold_locales (simp add: NullRWMutex_rdlock_def NullRWMutex_unlock_def)

interpretation null_write_lock: basic_lock NullRWMutex_wrlock NullRWMutex_unlock
  by unfold_locales (simp add: NullRWMutex_wrlock_def NullRWMutex_unlock_def)

interpretation cas_lock: basic_lock CASLock_lock CASLock_unlock
  by unfold_locales (auto simp: CASLock_lock_def CASLock_try_def CASLock_unlock_def split: if_splits)

interpretation read_lock: counted_lock RWMutex_rdlock RWMutex_unlock RWMutex_held
  by unfold_locales
    (auto simp: RWMutex_rdlock_def RWMutex_unlock_def RWMutex_held_def split: if_splits)

interpretation write_lock: exclusive_lock RWMutex_wrlock RWMutex_unlock RWMutex_held
  by unfold_locales
    (auto simp: RWMutex_wrlock_def RWMutex_unlock_def RWMutex_held_def split: if_splits)

text \<open>
  Scoped locking. Whichever lock the guard is used with, once its construction returns, no
  sequence of calls of the guard's own \<open>lock\<close> and \<open>unlock\<close> waits, and when the scope ends the
  lock is exactly as it was before the construction: locking twice or unlocking twice is harmless
  and a scope left unlocked does not unlock again.
\<close>

lemma scoped_guard_restores:
  "(\<forall>m g. guard_construct Mutex_lock t m = Some g \<longrightarrow>
      (\<exists>g'. guard_run Mutex_lock Mutex_unlock t ops g = Some g' \<and> guard_destroy Mutex_unlock t g' = m))
   \<and> (\<forall>m g. guard_construct Spinlock_lock t m = Some g \<longrightarrow>
      (\<exists>g'. guard_run Spinlock_lock Spinlock_unlock t ops g = Some g'
         \<and> guard_destroy Spinlock_unlock t g' = m))
   \<and> (\<forall>m g. ReadLock_construct t m = Some g \<longrightarrow>
      (\<exists>g'. guard_run RWMutex_rdlock RWMutex_unlock t ops g = Some g'
         \<and> ReadLock_destroy t g' = m))
   \<and> (\<forall>m g. WriteLock_construct t m = Some g \<longrightarrow>
      (\<exists>g'. guard_run RWMutex_wrlock RWMutex_unlock t ops g = Some g'
         \<and> WriteLock_destroy t g' = m))
   \<and> (\<forall>m g. guard_construct CASLock_lock t m = Some g \<longrightarrow>
      (\<exists>g'. guard_run CASLock_lock CASLock_unlock t ops g = Some g'
         \<and> guard_destroy CASLock_unlock t g' = m))"
  unfolding rw_guard_defs
  by (intro conjI allI impI)
    (rule mutex_lock.scope_restores spin_lock.scope_restores read_lock.scope_restores
      write_lock.scope_restores cas_lock.scope_restores, assumption)+

lemma scoped_guard_restores_witness:
  "\<exists>g'. guard_run Mutex_lock Mutex_unlock 1 [Guard_lock, Guard_unlock, Guard_unlock, Guard_lock]
       \<lparr>g_mutex = Mutex (Some 1), g_locked = True\<rparr> = Some g'
     \<and> guard_destroy Mutex_unlock 1 g' = new_Mutex"
proof -
  have "guard_construct Mutex_lock 1 new_Mutex = Some \<lparr>g_mutex = Mutex (Some 1), g_locked = True\<rparr>"
    by (simp add: guard_construct_def Mutex_lock_def new_Mutex_def)
  then show ?thesis using scoped_guard_restores by blast
qed

text \<open>
  Who may hold what. A thread that holds a mutex, a spin lock or the write side keeps every
  thread (itself too) from taking it; a read lock is granted next to other readers, but as long
  as one thread reads, no thread gets the write lock, not even the one reader itself.
\<close>

lemma lock_exclusion:
  "(\<forall>m m' u. Mutex_lock t m = Some m' \<longrightarrow> Mutex_lock u m' = None)
   \<and> (\<forall>m m' u. Spinlock_lock t m = Some m' \<longrightarrow> Spinlock_lock u m' = None)
   \<and> (\<forall>m m' u. RWMutex_wrlock t m = Some m' \<longrightarrow>
        RWMutex_wrlock u m' = None \<and> RWMutex_rdlock u m' = None)
   \<and> (\<forall>m m' u. RWMutex_rdlock t m = Some m' \<longrightarrow>
        RWMutex_wrlock u m' = None \<and> RWMutex_rdlock u m' \<noteq> None)"
proof (intro conjI allI impI)
  show "Mutex_lock u m' = None" if "Mutex_lock t m = Some m'" for m m' u
    using mutex_lock.no_relock [OF that] .
  show "Spinlock_lock u m' = None" if "Spinlock_lock t m = Some m'" for m m' u
    using spin_lock.no_relock [OF that] .
  show "RWMutex_wrlock u m' = None" if "RWMutex_wrlock t m = Some m'" for m m' u
    using write_lock.no_relock [OF that] .
  show "RWMutex_rdlock u m' = None" if "RWMutex_wrlock t m = Some m'" for m m' u
    using that by (auto simp: RWMutex_wrlock_def RWMutex_rdlock_def split: if_splits)
  show "RWMutex_wrlock u m' = None" if "RWMutex_rdlock t m = Some m'" for m m' u
    using write_lock.excludes [of t m' u] read_lock.lock_counts [OF that, of t] by simp
  show "RWMutex_rdlock u m' \<noteq> None" if "RWMutex_rdlock t m = Some m'" for m m' u
    using that by (auto simp: RWMutex_rdlock_def split: if_splits)
qed

lemma lock_exclusion_witness:
  "Mutex_lock 2 (Mutex (Some 1)) = None
   \<and> RWMutex_wrlock 1 \<lparr>rw_reads = (\<lambda>_. 0)(1 := 1), rw_writer = None\<rparr> = None"
proof -
  have "Mutex_lock 1 new_Mutex = Some (Mutex (Some 1))"
    "RWMutex_rdlock 1 new_RWMutex = Some \<lparr>rw_reads = (\<lambda>_. 0)(1 := 1), rw_writer = None\<rparr>"
    by (simp_all add: Mutex_lock_def new_Mutex_def RWMutex_rdlock_def new_RWMutex_def)
  with lock_exclusion [of 1] show ?thesis by blast
qed

section \<open>The atomic flag, step by step\<close>

text \<open>Threads outside the lock, in the loop of \<open>CASLock::lock\<close>, and holding the lock.\<close>

datatype cas_pc = Outside | Spinning | Inside

record cas_system =
  cs_flag :: bool
  cs_pc :: "thread \<Rightarrow> cas_pc"

inductive cas_step :: "cas_system \<Rightarrow> cas_system \<Rightarrow> bool" where
  call: "cs_pc s t = Outside \<Longrightarrow> cas_step s (s\<lparr>cs_pc := (cs_pc s)(t := Spinning)\<rparr>)"
| spin: "cs_pc s t = Spinning \<Longrightarrow> CASLock_try (cs_flag s) = (f, True) \<Longrightarrow>
    cas_step s (s\<lparr>cs_flag := f\<rparr>)"
| win: "cs_pc s t = Spinning \<Longrightarrow> CASLock_try (cs_flag s) = (f, False) \<Longrightarrow>
    cas_step s (s\<lparr>cs_flag := f, cs_pc := (cs_pc s)(t := Inside)\<rparr>)"
| leave: "cs_pc s t = Inside \<Longrightarrow>
    cas_step s (s\<lparr>cs_flag := CASLock_unlock t (cs_flag s), cs_pc := (cs_pc s)(t := Outside)\<rparr>)"

inductive cas_reachable :: "cas_system \<Rightarrow> bool" where
  start: "cas_reachable \<lparr>cs_flag = new_CASLock, cs_pc = (\<lambda>_. Outside)\<rparr>"
| step: "cas_reachable s \<Longrightarrow> cas_step s s' \<Longrightarrow> cas_reachable s'"

definition insiders :: "cas_system \<Rightarrow> thread set" where
  "insiders s = {t. cs_pc s t = Inside}"

definition cas_ok :: "cas_system \<Rightarrow> bool" where
  "cas_ok s \<longleftrightarrow> (if cs_flag s then \<exists>t. insiders s = {t} else insiders s = {})"

lemma insiders_upd:
  "insiders (s\<lparr>cs_flag := f, cs_pc := (cs_pc s)(t := p)\<rparr>) =
     (if p = Inside then insert t (insiders s) else insiders s - {t})"
  "insiders (s\<lparr>cs_pc := (cs_pc s)(t := p)\<rparr>) =
     (if p = Inside then insert t (insiders s) else insiders s - {t})"
  "insiders (s\<lparr>cs_flag := f\<rparr>) = insiders s"
  by (auto simp: insiders_def)

lemma cas_step_ok: "cas_step s s' \<Longrightarrow> cas_ok s \<Longrightarrow> cas_ok s'"
proof (induction rule: cas_step.induct)
  case (call s t)
  then have "insiders s - {t} = insiders s" by (auto simp: insiders_def)
  with call show ?case by (simp add: cas_ok_def insiders_upd)
next
  case (leave s t)
  then have "t \<in> insiders s" by (simp add: insiders_def)
  with leave show ?case
    by (auto simp: cas_ok_def insiders_upd CASLock_unlock_def split: if_splits)
qed (auto simp: cas_ok_def insiders_upd CASLock_try_def)

lemma cas_reachable_ok: "cas_reachable s \<Longrightarrow> cas_ok s"
proof (induction rule: cas_reachable.induct)
  case start
  then show ?case by (simp add: cas_ok_def insiders_def new_CASLock_def)
qed (rule cas_step_ok)

text \<open>
  C36: Mutual exclusion of \<open>CASLock\<close>: in every interleaving of the threads' loop turns and
  releases, at most one thread is inside; and whenever a thread spins while no thread is inside,
  its next turn of the loop ends with the lock taken.
\<close>

theorem cas_lock_exclusion:
  assumes "cas_reachable s"
  shows "(\<forall>t u. cs_pc s t = Inside \<longrightarrow> cs_pc s u = Inside \<longrightarrow> t = u)
    \<and> (\<forall>t. cs_pc s t = Spinning \<longrightarrow> (\<forall>u. cs_pc s u \<noteq> Inside) \<longrightarrow>
        CASLock_lock t (cs_flag s) = Some True
        \<and> cas_step s (s\<lparr>cs_flag := True, cs_pc := (cs_pc s)(t := Inside)\<rparr>))"
proof -
  have "cas_ok s" using assms by (rule cas_reachable_ok)
  then have one: "\<forall>t u. cs_pc s t = Inside \<longrightarrow> cs_pc s u = Inside \<longrightarrow> t = u"
    and flag: "cs_flag s \<longleftrightarrow> (\<exists>t. cs_pc s t = Inside)"
    by (auto simp: cas_ok_def insiders_def set_eq_iff split: if_splits)
  have "cas_step s (s\<lparr>cs_flag := True, cs_pc := (cs_pc s)(t := Inside)\<rparr>)"
    if "cs_pc s t = Spinning" "\<forall>u. cs_pc s u \<noteq> Inside" for t
    using cas_step.win [OF that(1), of True] flag that(2) by (simp add: CASLock_try_def)
  with one flag show ?thesis by (auto simp: CASLock_lock_def CASLock_try_def)
qed

theorem cas_lock_exclusion_witness:
  "cas_reachable \<lparr>cs_flag = False, cs_pc = (\<lambda>_. Outside)(1 := Spinning)\<rparr>
   \<and> CASLock_lock 1 False = Some True"
proof -
  have "cas_reachable \<lparr>cs_flag = False, cs_pc = (\<lambda>_. Outside)(1 := Spinning)\<rparr>"
    using cas_reachable.step [OF cas_reachable.start cas_step.call [of _ 1]]
    by (simp add: new_CASLock_def)
  moreover have "CASLock_lock 1 False = Some True"
    using conjunct2 [OF cas_lock_exclusion [OF calculation], rule_format, of 1] by simp
  ultimately show ?thesis by blast
qed

end
