(* ===== verification/Lock_Programs.thy ===== *)
theory Lock_Programs
  imports Locks "HOL-Library.Multiset"
begin

text \<open>
  Calls that take locks, run by several threads: what a thread has still to execute is a tree of
  scopes and of sections between which another thread can run. A scope is a \<open>Spinlock::Lock\<close>
  guard (\<open>chord/thread.h\<close>, lines 22-56 and 226-250): \<open>Acquire\<close> is its construction, \<open>Release\<close> its
  destruction. The theory proves once, for any calls that take their locks in a fixed order, that
  they never deadlock, never crash and end in every interleaving.
\<close>

section \<open>Programs and the threads that run them\<close>

text \<open>
  A section \<open>Do f\<close> reads and writes the shared state in one step, may end the process, and chooses
  how the thread goes on.
\<close>

datatype ('l, 's) prog =
    Return
  | Acquire 'l "('l, 's) prog"
  | Release 'l "('l, 's) prog"
  | Do "'s \<Rightarrow> crash + 's \<times> ('l, 's) prog"

record ('l, 's) system =
  sys_state :: 's
  sys_locks :: "'l \<Rightarrow> Spinlock"
  sys_progs :: "('l, 's) prog list"

definition new_system :: "'s \<Rightarrow> ('l, 's) prog list \<Rightarrow> ('l, 's) system" where
  "new_system s ps = \<lparr>sys_state = s, sys_locks = (\<lambda>_. new_Spinlock), sys_progs = ps\<rparr>"

definition goes_on :: "thread \<Rightarrow> ('l, 's) prog \<Rightarrow> ('l, 's) system \<Rightarrow> ('l, 's) system" where
  "goes_on t p S = S\<lparr>sys_progs := (sys_progs S)[t := p]\<rparr>"

text \<open>One step of thread \<open>t\<close>; \<open>Inr None\<close> when it has ended or waits.\<close>

definition exec_step :: "thread \<Rightarrow> ('l, 's) system \<Rightarrow> ('l, 's) system option may_crash" where
  "exec_step t S =
     (if t < length (sys_progs S) then
        (case sys_progs S ! t of
           Return \<Rightarrow> Inr None
         | Acquire l p \<Rightarrow>
             (case Spinlock_lock t (sys_locks S l) of
                None \<Rightarrow> Inr None
              | Some m \<Rightarrow> Inr (Some (goes_on t p (S\<lparr>sys_locks := (sys_locks S)(l := m)\<rparr>))))
         | Release l p \<Rightarrow>
             Inr (Some (goes_on t p
               (S\<lparr>sys_locks := (sys_locks S)(l := Spinlock_unlock t (sys_locks S l))\<rparr>)))
         | Do f \<Rightarrow>
             (case f (sys_state S) of
                Inl e \<Rightarrow> Inl e
              | Inr (s', p) \<Rightarrow> Inr (Some (goes_on t p (S\<lparr>sys_state := s'\<rparr>)))))
      else Inr None)"

inductive sys_step :: "('l, 's) system \<Rightarrow> ('l, 's) system \<Rightarrow> bool" where
  "exec_step t S = Inr (Some S') \<Longrightarrow> sys_step S S'"

definition sys_crashes :: "('l, 's) system \<Rightarrow> bool" where
  "sys_crashes S \<longleftrightarrow> (\<exists>t e. exec_step t S = Inl e)"

definition sys_finished :: "('l, 's) system \<Rightarrow> bool" where
  "sys_finished S \<longleftrightarrow> (\<forall>p \<in> set (sys_progs S). p = Return) \<and> sys_locks S = (\<lambda>_. new_Spinlock)"

lemma free_Spinlock_iff: "m = new_Spinlock \<longleftrightarrow> spin_holder m = None"
  by (cases m) (simp add: new_Spinlock_def)

lemma sys_finished_iff:
  "sys_finished S \<longleftrightarrow>
     (\<forall>t < length (sys_progs S). sys_progs S ! t = Return)
     \<and> (\<forall>l. spin_holder (sys_locks S l) = None)"
  by (auto simp: sys_finished_def fun_eq_iff free_Spinlock_iff all_set_conv_all_nth)

text \<open>A schedule names the threads in the order of their steps; a thread that waits stays put.\<close>

fun sys_run :: "thread list \<Rightarrow> ('l, 's) system \<Rightarrow> ('l, 's) system may_crash" where
  "sys_run [] S = Inr S"
| "sys_run (t # ts) S =
     sum_bind (exec_step t S) (\<lambda>r. sys_run ts (case r of None \<Rightarrow> S | Some S' \<Rightarrow> S'))"

lemma sys_run_steps: "sys_run ts S = Inr S' \<Longrightarrow> sys_step\<^sup>*\<^sup>* S S'"
proof (induction ts arbitrary: S)
  case (Cons t ts)
  then obtain r where r: "exec_step t S = Inr r"
    and run: "sys_run ts (case r of None \<Rightarrow> S | Some S1 \<Rightarrow> S1) = Inr S'"
    by (auto simp: sum_bind_Inr_iff)
  show ?case
  proof (cases r)
    case None
    with run Cons.IH show ?thesis by simp
  next
    case (Some S1)
    with r have "sys_step S S1" by (simp add: sys_step.intros)
    with Some run Cons.IH [of S1] show ?thesis by (simp add: converse_rtranclp_into_rtranclp)
  qed
qed simp

text \<open>The steps of one thread, by the shape of its program.\<close>

lemma exec_step_cases:
  assumes "exec_step t S = Inr (Some S')"
  obtains (acquire) l p where "t < length (sys_progs S)" "sys_progs S ! t = Acquire l p"
      "spin_holder (sys_locks S l) = None"
      "S' = goes_on t p (S\<lparr>sys_locks := (sys_locks S)(l := Spinlock (Some t))\<rparr>)"
    | (release) l p where "t < length (sys_progs S)" "sys_progs S ! t = Release l p"
      "S' = goes_on t p (S\<lparr>sys_locks := (sys_locks S)(l := Spinlock None)\<rparr>)"
    | (body) f s' p where "t < length (sys_progs S)" "sys_progs S ! t = Do f"
      "f (sys_state S) = Inr (s', p)" "S' = goes_on t p (S\<lparr>sys_state := s'\<rparr>)"
proof (cases "sys_progs S ! t")
  case (Do f)
  with assms body show thesis
    by (auto simp: exec_step_def split: if_splits sum.splits)
qed (use assms acquire release in
  \<open>auto simp: exec_step_def Spinlock_lock_def Spinlock_unlock_def split: if_splits option.splits\<close>)

section \<open>A thread on its own\<close>

text \<open>Running a program without other threads; locks play no part in the result.\<close>

primrec prog_run :: "('l, 's) prog \<Rightarrow> 's \<Rightarrow> 's may_crash" where
  "prog_run Return = Inr"
| "prog_run (Acquire l p) = prog_run p"
| "prog_run (Release l p) = prog_run p"
| "prog_run (Do f) =
     (\<lambda>s. sum_bind ((map_sum id (map_prod id prog_run) \<circ> f) s) (\<lambda>(s', r). r s'))"

lemma prog_run_Do [simp]: "prog_run (Do f) s = sum_bind (f s) (\<lambda>(s', p). prog_run p s')"
  by (simp add: sum_bind_def split: sum.split prod.split)

declare prog_run.simps(4) [simp del]

lemma prog_run_step:
  assumes "exec_step 0 S = Inr (Some S')" and "sys_progs S = [p]"
  shows "\<exists>p'. sys_progs S' = [p'] \<and> prog_run p' (sys_state S') = prog_run p (sys_state S)"
  using assms by (auto elim!: exec_step_cases simp: goes_on_def)

text \<open>What a thread on its own ends with is the result of the run.\<close>

lemma prog_run_alone:
  assumes "sys_step\<^sup>*\<^sup>* (new_system s [p]) S" and "sys_finished S"
  shows "prog_run p s = Inr (sys_state S)"
proof -
  have "\<exists>p'. sys_progs S = [p'] \<and> prog_run p' (sys_state S) = prog_run p s"
    using assms(1)
  proof (induction rule: rtranclp_induct)
    case base
    then show ?case by (simp add: new_system_def)
  next
    case (step S1 S2)
    then obtain t p1 where "exec_step t S1 = Inr (Some S2)" "sys_progs S1 = [p1]"
      "prog_run p1 (sys_state S1) = prog_run p s" by (auto elim!: sys_step.cases)
    moreover from this have "t = 0" by (auto simp: exec_step_def split: if_splits)
    ultimately show ?case using prog_run_step by fastforce
  qed
  with assms(2) show ?thesis by (auto simp: sys_finished_def)
qed

section \<open>Every run ends\<close>

text \<open>A step replaces the program of one thread by a part of it.\<close>

inductive_set continues :: "(('l, 's) prog \<times> ('l, 's) prog) set" where
  "(p, Acquire l p) \<in> continues"
| "(p, Release l p) \<in> continues"
| "f s = Inr (s', p) \<Longrightarrow> (p, Do f) \<in> continues"

inductive_cases continues_elims:
  "(q, Return) \<in> continues" "(q, Acquire l p) \<in> continues" "(q, Release l p) \<in> continues"
  "(q, Do f) \<in> continues"

lemma wf_continues: "wf continues"
proof (rule wfUNIVI)
  fix P :: "('l, 's) prog \<Rightarrow> bool" and p
  assume step: "\<forall>p. (\<forall>q. (q, p) \<in> continues \<longrightarrow> P q) \<longrightarrow> P p"
  show "P p"
  proof (induction p)
    case (Do f)
    show ?case
    proof (rule step [rule_format])
      fix q
      assume "(q, Do f) \<in> continues"
      then obtain s s' where "f s = Inr (s', q)" by (auto elim: continues_elims)
      then show "P q" using Do [of "f s" "(s', q)" q] by (metis rangeI setr.intros snds.intros snd_conv)
    qed
  qed (use step in \<open>blast elim: continues_elims\<close>)+
qed

lemma mset_update_mult1:
  assumes "t < length ps" and "(p, ps ! t) \<in> r"
  shows "(mset (ps[t := p]), mset ps) \<in> mult1 r"
proof -
  have "mset ps = add_mset (ps ! t) (mset ps - {#ps ! t#})" using assms(1) by simp
  moreover have "mset (ps[t := p]) = (mset ps - {#ps ! t#}) + {#p#}"
    using assms(1) by (simp add: mset_update)
  ultimately show ?thesis using assms(2) unfolding mult1_def by fastforce
qed

lemma sys_step_smaller:
  assumes "sys_step S S'"
  shows "(mset (sys_progs S'), mset (sys_progs S)) \<in> mult1 continues"
  using assms
proof cases
  case (1 t)
  then show ?thesis
    by (rule exec_step_cases) (auto simp: goes_on_def intro!: mset_update_mult1 continues.intros)
qed

lemma sys_step_wf: "wfP (\<lambda>S' S. sys_step S S')"
  unfolding wfp_def
  by (rule wf_subset [OF wf_inv_image [OF wf_mult1 [OF wf_continues], of "\<lambda>S. mset (sys_progs S)"]])
    (auto dest: sys_step_smaller)

section \<open>Programs that respect a lock order and a locking discipline\<close>

text \<open>
  \<open>safe rank I R P H s p\<close>: holding the locks \<open>H\<close> (the last one taken first) a thread may go on as
  \<open>p\<close> from a state \<open>s\<close>. It takes only locks above all it holds and releases the last one taken.
  Its sections do not crash, keep the invariant \<open>I\<close>, change the state only along \<open>R\<close>, and leave
  alone the data of every lock it does not hold; \<open>P l s s'\<close> says that the data of lock \<open>l\<close> is the
  same in both states. In return other threads change the state only along \<open>R\<close> and leave alone
  the data of the locks it holds.
\<close>

definition rely_on :: "('s \<Rightarrow> 's \<Rightarrow> bool) \<Rightarrow> ('l \<Rightarrow> 's \<Rightarrow> 's \<Rightarrow> bool) \<Rightarrow> 'l set \<Rightarrow> 's \<Rightarrow> 's \<Rightarrow> bool" where
  "rely_on R P H s s' \<longleftrightarrow> R s s' \<and> (\<forall>l \<in> H. P l s s')"

inductive safe ::
  "('l \<Rightarrow> nat) \<Rightarrow> ('s \<Rightarrow> bool) \<Rightarrow> ('s \<Rightarrow> 's \<Rightarrow> bool) \<Rightarrow> ('l \<Rightarrow> 's \<Rightarrow> 's \<Rightarrow> bool)
     \<Rightarrow> 'l list \<Rightarrow> 's \<Rightarrow> ('l, 's) prog \<Rightarrow> bool"
  for rank I R P
where
  safe_Return: "safe rank I R P [] s Return"
| safe_Acquire: "\<forall>h \<in> set H. rank h < rank l \<Longrightarrow>
    (\<And>s1. I s1 \<Longrightarrow> rely_on R P (set H) s s1 \<Longrightarrow> safe rank I R P (l # H) s1 p) \<Longrightarrow>
    safe rank I R P H s (Acquire l p)"
| safe_Release: "l \<notin> set H \<Longrightarrow> safe rank I R P H s p \<Longrightarrow> safe rank I R P (l # H) s (Release l p)"
| safe_Do: "(\<And>s1. I s1 \<Longrightarrow> rely_on R P (set H) s s1 \<Longrightarrow>
      \<exists>s2 p. f s1 = Inr (s2, p) \<and> I s2 \<and> rely_on R P (- set H) s1 s2 \<and> safe rank I R P H s2 p) \<Longrightarrow>
    safe rank I R P H s (Do f)"

inductive_simps safe_Return_iff: "safe rank I R P H s Return"
inductive_simps safe_Release_iff: "safe rank I R P H s (Release l p)"
inductive_cases safe_Acquire_E: "safe rank I R P H s (Acquire l p)"
inductive_cases safe_Do_E: "safe rank I R P H s (Do f)"

text \<open>The threads' view of a system: who holds which locks, and that all are safe from here.\<close>

definition holds :: "('l, 's) system \<Rightarrow> thread \<Rightarrow> 'l set" where
  "holds S t = {l. spin_holder (sys_locks S l) = Some t}"

definition sys_ok ::
  "('l \<Rightarrow> nat) \<Rightarrow> ('s \<Rightarrow> bool) \<Rightarrow> ('s \<Rightarrow> 's \<Rightarrow> bool) \<Rightarrow> ('l \<Rightarrow> 's \<Rightarrow> 's \<Rightarrow> bool)
     \<Rightarrow> ('l, 's) system \<Rightarrow> bool"
where
  "sys_ok rank I R P S \<longleftrightarrow>
     I (sys_state S)
     \<and> (\<forall>t < length (sys_progs S).
          \<exists>H. set H = holds S t \<and> safe rank I R P H (sys_state S) (sys_progs S ! t))
     \<and> (\<forall>t l. spin_holder (sys_locks S l) = Some t \<longrightarrow> t < length (sys_progs S))"

lemma sys_ok_start:
  "I s \<Longrightarrow> \<forall>p \<in> set ps. safe rank I R P [] s p \<Longrightarrow> sys_ok rank I R P (new_system s ps)"
  by (auto simp: sys_ok_def new_system_def holds_def new_Spinlock_def)

locale rely_guarantee =
  fixes R :: "'s \<Rightarrow> 's \<Rightarrow> bool" and P :: "'l \<Rightarrow> 's \<Rightarrow> 's \<Rightarrow> bool"
  assumes R_refl: "R s s"
    and R_trans: "R s t \<Longrightarrow> R t u \<Longrightarrow> R s u"
    and P_refl: "P l s s"
    and P_trans: "P l s t \<Longrightarrow> P l t u \<Longrightarrow> P l s u"
begin

lemma rely_refl: "rely_on R P H s s"
  by (simp add: rely_on_def R_refl P_refl)

lemma rely_trans: "rely_on R P H s t \<Longrightarrow> rely_on R P H t u \<Longrightarrow> rely_on R P H s u"
  unfolding rely_on_def using R_trans P_trans by blast

lemma safe_later: "safe rank I R P H s p \<Longrightarrow> rely_on R P (set H) s s' \<Longrightarrow> safe rank I R P H s' p"
proof (induction arbitrary: s' rule: safe.induct)
  case (safe_Acquire H l s p)
  then show ?case by (intro safe.safe_Acquire) (use rely_trans in blast)+
next
  case (safe_Release l H s p)
  then show ?case by (intro safe.safe_Release) (auto simp: rely_on_def)
next
  case (safe_Do H s f)
  show ?case by (rule safe.safe_Do) (use safe_Do rely_trans in blast)
qed (rule safe.safe_Return)

text \<open>A section of a safe program.\<close>

lemma safe_DoD:
  assumes "safe rank I R P H s (Do f)" and "I s"
  shows "\<exists>s' p. f s = Inr (s', p) \<and> I s' \<and> rely_on R P (- set H) s s' \<and> safe rank I R P H s' p"
  using assms rely_refl by (auto elim: safe_Do_E)

lemma safe_AcquireD:
  assumes "safe rank I R P H s (Acquire l p)" and "I s"
  shows "(\<forall>h \<in> set H. rank h < rank l) \<and> safe rank I R P (l # H) s p"
  using assms rely_refl by (auto elim: safe_Acquire_E)

text \<open>On its own a safe program returns, in a state with the invariant.\<close>

lemma safe_run:
  "safe rank I R P H s p \<Longrightarrow> I s \<Longrightarrow> \<exists>s'. prog_run p s = Inr s' \<and> I s' \<and> R s s'"
proof (induction rule: safe.induct)
  case (safe_Return s)
  then show ?case by (simp add: R_refl)
next
  case (safe_Acquire H l s p)
  then show ?case using rely_refl by simp
next
  case (safe_Do H s f)
  from safe_Do.IH [OF safe_Do.prems rely_refl] obtain s2 p where f: "f s = Inr (s2, p)" "I s2"
    "rely_on R P (- set H) s s2" "\<exists>s'. prog_run p s2 = Inr s' \<and> I s' \<and> R s2 s'" by blast
  then show ?case using R_trans by (fastforce simp: rely_on_def)
qed simp

lemma sys_okD:
  assumes "sys_ok rank I R P S" and "t < length (sys_progs S)"
  shows "\<exists>H. set H = holds S t \<and> safe rank I R P H (sys_state S) (sys_progs S ! t)"
  using assms by (simp add: sys_ok_def)

lemma sys_ok_inv: "sys_ok rank I R P S \<Longrightarrow> I (sys_state S)"
  by (simp add: sys_ok_def)

lemma no_crash:
  assumes "sys_ok rank I R P S"
  shows "\<not> sys_crashes S"
proof
  assume "sys_crashes S"
  then obtain t e f where t: "t < length (sys_progs S)" "sys_progs S ! t = Do f"
    "f (sys_state S) = Inl e"
    by (auto simp: sys_crashes_def exec_step_def split: if_splits prog.splits option.splits sum.splits)
  from assms t(1) obtain H where "safe rank I R P H (sys_state S) (Do f)"
    using t(2) sys_okD by metis
  with assms t(3) show False by (auto simp: sys_ok_def dest: safe_DoD)
qed

text \<open>A step of thread \<open>t\<close> that leaves the locks of the other threads and their data alone.\<close>

lemma sys_ok_update:
  assumes ok: "sys_ok rank I R P S" and t: "t < length (sys_progs S)"
    and S': "sys_progs S' = (sys_progs S)[t := p]" "I (sys_state S')"
      "rely_on R P (- holds S t) (sys_state S) (sys_state S')"
    and H: "set H = holds S' t" "safe rank I R P H (sys_state S') p"
    and others: "\<And>u. u \<noteq> t \<Longrightarrow> holds S' u = holds S u"
  shows "sys_ok rank I R P S'"
proof -
  have "\<exists>H. set H = holds S' u \<and> safe rank I R P H (sys_state S') (sys_progs S' ! u)"
    if "u < length (sys_progs S')" for u
  proof (cases "u = t")
    case True
    with t S'(1) H show ?thesis by auto
  next
    case False
    with that S'(1) have u: "u < length (sys_progs S)" "sys_progs S' ! u = sys_progs S ! u" by simp_all
    from sys_okD [OF ok u(1)] obtain H where H: "set H = holds S u"
      "safe rank I R P H (sys_state S) (sys_progs S ! u)" by blast
    have "holds S u \<subseteq> - holds S t" using False by (auto simp: holds_def)
    with S'(3) H(1) have "rely_on R P (set H) (sys_state S) (sys_state S')"
      by (auto simp: rely_on_def)
    from safe_later [OF H(2) this] H(1) others [OF False] show ?thesis
      unfolding u(2) by blast
  qed
  moreover have "u < length (sys_progs S')" if "spin_holder (sys_locks S' l) = Some u" for u l
  proof (cases "u = t")
    case False
    with that others [OF False] have "spin_holder (sys_locks S l) = Some u" by (auto simp: holds_def)
    with ok have "u < length (sys_progs S)" unfolding sys_ok_def by blast
    with S'(1) show ?thesis by simp
  qed (simp add: t S'(1))
  ultimately show ?thesis using S'(2) by (simp add: sys_ok_def)
qed

lemma step_ok:
  assumes "sys_ok rank I R P S" and "exec_step t S = Inr (Some S')"
  shows "sys_ok rank I R P S' \<and> rely_on R P (- holds S t) (sys_state S) (sys_state S')"
  using assms(2)
proof (cases rule: exec_step_cases)
  case (acquire l p)
  obtain H where H: "set H = holds S t" "safe rank I R P H (sys_state S) (Acquire l p)"
    using sys_okD [OF assms(1) acquire(1)] acquire(2) by auto
  have S': "sys_state S' = sys_state S" using acquire(4) by (simp add: goes_on_def)
  have "sys_ok rank I R P S'"
  proof (rule sys_ok_update [OF assms(1) acquire(1)])
    show "safe rank I R P (l # H) (sys_state S') p"
      using safe_AcquireD [OF H(2) sys_ok_inv [OF assms(1)]] S' by simp
  qed (use assms(1) acquire H(1) S' rely_refl in \<open>auto simp: holds_def goes_on_def sys_ok_inv\<close>)
  then show ?thesis using S' rely_refl by simp
next
  case (release l p)
  obtain H where H: "set H = holds S t" "safe rank I R P H (sys_state S) (Release l p)"
    using sys_okD [OF assms(1) release(1)] release(2) by auto
  then obtain H' where H': "H = l # H'" "l \<notin> set H'" "safe rank I R P H' (sys_state S) p"
    by (auto simp: safe_Release_iff)
  have l: "spin_holder (sys_locks S l) = Some t" using H(1) H'(1) by (auto simp: holds_def)
  have S': "sys_state S' = sys_state S" using release(3) by (simp add: goes_on_def)
  have "sys_ok rank I R P S'"
  proof (rule sys_ok_update [OF assms(1) release(1)])
    show "safe rank I R P H' (sys_state S') p" using H'(3) S' by simp
  qed (use assms(1) release l H(1) H' S' rely_refl in \<open>auto simp: holds_def goes_on_def sys_ok_inv\<close>)
  then show ?thesis using S' rely_refl by simp
next
  case (body f s' p)
  obtain H where H: "set H = holds S t" "safe rank I R P H (sys_state S) (Do f)"
    using sys_okD [OF assms(1) body(1)] body(2) by auto
  from safe_DoD [OF H(2) sys_ok_inv [OF assms(1)]] body(3) H(1)
  have s': "I s'" "rely_on R P (- holds S t) (sys_state S) s'" "safe rank I R P H s' p" by auto
  have "sys_ok rank I R P S'"
    by (rule sys_ok_update [OF assms(1) body(1), of _ p H])
      (use body(4) s' H(1) in \<open>auto simp: holds_def goes_on_def\<close>)
  then show ?thesis using body(4) s'(2) by (simp add: goes_on_def)
qed

lemma steps_ok:
  "sys_step\<^sup>*\<^sup>* S S' \<Longrightarrow> sys_ok rank I R P S \<Longrightarrow> sys_ok rank I R P S' \<and> R (sys_state S) (sys_state S')"
proof (induction rule: rtranclp_induct)
  case base
  then show ?case by (simp add: R_refl)
next
  case (step S1 S2)
  then obtain t where "exec_step t S1 = Inr (Some S2)" by (auto elim: sys_step.cases)
  with step step_ok [of rank I S1 t S2] R_trans show ?case unfolding rely_on_def by blast
qed

text \<open>
  No deadlock: among the waiting threads one wants a lock of greatest rank; its holder has not
  ended, and if it waited it would want a lock of a greater rank still.
\<close>

lemma progress:
  assumes "sys_ok rank I R P S" and "\<not> sys_finished S"
  shows "\<exists>S'. sys_step S S'"
proof (rule ccontr)
  assume stuck: "\<nexists>S'. sys_step S S'"
  have waits: "\<exists>l p u. sys_progs S ! t = Acquire l p \<and> spin_holder (sys_locks S l) = Some u"
    if "t < length (sys_progs S)" "sys_progs S ! t \<noteq> Return" for t
  proof (rule ccontr)
    assume free: "\<not> ?thesis"
    from sys_okD [OF assms(1) that(1)]
    obtain H where H: "safe rank I R P H (sys_state S) (sys_progs S ! t)" by blast
    have "\<exists>S'. exec_step t S = Inr (Some S')"
    proof (cases "sys_progs S ! t")
      case (Do f)
      with H assms(1) that(1) show ?thesis by (auto simp: exec_step_def sys_ok_def dest!: safe_DoD)
    qed (use that free in \<open>auto simp: exec_step_def Spinlock_lock_def split: option.split\<close>)
    with stuck show False by (auto intro: sys_step.intros)
  qed
  define wants where "wants t l \<longleftrightarrow> t < length (sys_progs S) \<and> (\<exists>p. sys_progs S ! t = Acquire l p)" for t l
  have up: "\<exists>l'. wants u l' \<and> rank l < rank l'"
    if "spin_holder (sys_locks S l) = Some u" for l u
  proof -
    from assms(1) that have u: "u < length (sys_progs S)" by (auto simp: sys_ok_def)
    from sys_okD [OF assms(1) u]
    obtain H where H: "set H = holds S u" "safe rank I R P H (sys_state S) (sys_progs S ! u)" by blast
    have l: "l \<in> set H" using that H(1) by (simp add: holds_def)
    then have "sys_progs S ! u \<noteq> Return" using H(2) by (auto simp: safe_Return_iff)
    from waits [OF u this] obtain l' p' where "sys_progs S ! u = Acquire l' p'" by blast
    with safe_AcquireD [of rank I H] H(2) sys_ok_inv [OF assms(1)] l u show ?thesis
      by (auto simp: wants_def)
  qed
  have start: "\<exists>t l. wants t l"
  proof (cases "\<exists>l u. spin_holder (sys_locks S l) = Some u")
    case True
    with up show ?thesis by blast
  next
    case False
    with assms(2) obtain t where t: "t < length (sys_progs S)" "sys_progs S ! t \<noteq> Return"
      by (auto simp: sys_finished_iff)
    from waits [OF this] t(1) show ?thesis by (auto simp: wants_def)
  qed
  define W where "W = {n. \<exists>t l. wants t l \<and> n = rank l}"
  have "W \<subseteq> (\<lambda>t. case sys_progs S ! t of Acquire l q \<Rightarrow> rank l | _ \<Rightarrow> 0) ` {..<length (sys_progs S)}"
    by (force simp: W_def wants_def)
  then have fin: "finite W" by (rule finite_subset) simp
  have "W \<noteq> {}" using start by (auto simp: W_def)
  from Max_in [OF fin this] obtain t l where t: "wants t l" "rank l = Max W" by (auto simp: W_def)
  from t(1) waits [of t] obtain u where "spin_holder (sys_locks S l) = Some u"
    by (auto simp: wants_def)
  from up [OF this] obtain l' where l': "wants u l'" and less: "rank l < rank l'" by blast
  from l' have "rank l' \<in> W" by (auto simp: W_def)
  from Max_ge [OF fin this] less t(2) show False by simp
qed

text \<open>Whatever the order of the steps, the threads come to their ends, and all locks are free.\<close>

lemma completes:
  assumes "sys_ok rank I R P S"
  shows "\<exists>S'. sys_step\<^sup>*\<^sup>* S S' \<and> sys_finished S'"
  using assms
proof (induction S rule: wfp_induct_rule [OF sys_step_wf])
  case (1 S)
  show ?case
  proof (cases "sys_finished S")
    case False
    with progress 1(2) obtain S1 where step: "sys_step S S1" by blast
    with steps_ok [of S S1] 1(2) have "sys_ok rank I R P S1" by blast
    with 1(1) [OF step] obtain S' where "sys_step\<^sup>*\<^sup>* S1 S'" "sys_finished S'" by blast
    with step show ?thesis by (meson converse_rtranclp_into_rtranclp)
  qed blast
qed

end

lemma no_infinite_run: "\<nexists>run. \<forall>n. sys_step (run n) (run (Suc n))"
  using sys_step_wf unfolding wfp_def wf_iff_no_infinite_down_chain by simp

end
