(* ===== verification/Log_Threads.thy ===== *)
theory Log_Threads
  imports Log_Dump Lock_Programs
begin

text \<open>
  The logging operations with their locks, for programs in which several threads log and
  reconfigure the loggers: every operation of \<open>chord/logger.cpp\<close> as a program with the code's lock
  scopes. A section between two lock operations is one step; the fields the code reads or writes
  outside every lock (a level, \<open>m_lastTime\<close>, \<open>m_root\<close> of the manager) are steps of their own. What an
  operation hands back is the argument of the program that follows.
\<close>

section \<open>Locks and sections\<close>

text \<open>The spin lock of the manager and the one in every logger and appender (all \<open>m_mutex\<close>).\<close>

datatype log_lock = Manager_lock | Logger_lock nat | Appender_lock nat

type_synonym log_prog = "(log_lock, log_state) prog"

definition act :: "(log_state \<Rightarrow> log_state may_crash) \<Rightarrow> log_prog \<Rightarrow> log_prog" where
  "act f k = Do (\<lambda>st. sum_bind (f st) (\<lambda>st'. Inr (st', k)))"

definition look_logger :: "nat \<Rightarrow> (Logger \<Rightarrow> log_prog) \<Rightarrow> log_prog" where
  "look_logger l f =
     Do (\<lambda>st. case loggers st l of None \<Rightarrow> Inl Null_deref | Some g \<Rightarrow> Inr (st, f g))"

definition look_appender :: "nat \<Rightarrow> (LogAppender \<Rightarrow> log_prog) \<Rightarrow> log_prog" where
  "look_appender i f =
     Do (\<lambda>st. case appenders st i of None \<Rightarrow> Inl Null_deref | Some a \<Rightarrow> Inr (st, f a))"

section \<open>Appenders\<close>

definition appender_setFormatter_prog :: "nat \<Rightarrow> LogFormatter option \<Rightarrow> log_prog \<Rightarrow> log_prog" where
  "appender_setFormatter_prog i val k =
     Acquire (Appender_lock i)
       (act (appender_setFormatter i val) (Release (Appender_lock i) k))"

definition appender_getFormatter_prog ::
  "nat \<Rightarrow> (LogFormatter option \<Rightarrow> log_prog) \<Rightarrow> log_prog" where
  "appender_getFormatter_prog i k =
     Acquire (Appender_lock i)
       (look_appender i (\<lambda>a. Release (Appender_lock i) (k (ap_formatter a))))"

text \<open>
  \<open>StdOutLogAppender::log\<close>: the level is tested before the lock is taken. The text is rendered in one
  step, but \<open>std::cout\<close> takes it character by character: the standard keeps concurrent writers to the
  stream from corrupting it, not from mixing their characters.
\<close>

definition print_char :: "char \<Rightarrow> log_prog \<Rightarrow> log_prog" where
  "print_char c k = act (\<lambda>st. Inr (print_st [c] st)) k"

definition write_stdout_prog :: "log_env \<Rightarrow> Level \<Rightarrow> LogEvent \<Rightarrow> nat \<Rightarrow> log_prog \<Rightarrow> log_prog" where
  "write_stdout_prog env level ev i k =
     Do (\<lambda>st. case appenders st i of
          None \<Rightarrow> Inl Null_deref
        | Some a \<Rightarrow>
            sum_bind (appender_text (fmt_env_of env st) level ev a)
              (\<lambda>t. Inr (st, foldr print_char t k)))"

text \<open>
  The sections of \<open>FileLogAppender::log\<close>: \<open>reopen\<close> under the lock, \<open>m_lastTime = now\<close> outside it,
  the write under the lock. An object never changes its class.
\<close>

definition upd_file ::
  "nat \<Rightarrow> (file_part \<Rightarrow> world \<Rightarrow> file_part \<times> world) \<Rightarrow> log_state \<Rightarrow> log_state may_crash"
where
  "upd_file i f st =
     (case appenders st i of
        None \<Rightarrow> Inl Null_deref
      | Some a \<Rightarrow>
          (case ap_kind a of
             StdOutLogAppender \<Rightarrow> Inr st
           | FileLogAppender fp \<Rightarrow>
               (case f fp (st_world st) of
                  (fp', w') \<Rightarrow>
                    Inr (st\<lparr>appenders := (appenders st)(i \<mapsto> a\<lparr>ap_kind := FileLogAppender fp'\<rparr>),
                            st_world := w'\<rparr>))))"

definition reopen_file :: "nat \<Rightarrow> log_state \<Rightarrow> log_state may_crash" where
  "reopen_file i = upd_file i (\<lambda>fp w. snd (reopen fp w))"

definition set_lastTime :: "nat \<Rightarrow> 64 word \<Rightarrow> log_state \<Rightarrow> log_state may_crash" where
  "set_lastTime i now = upd_file i (\<lambda>fp w. (fp\<lparr>m_lastTime := now\<rparr>, w))"

definition write_file :: "log_env \<Rightarrow> Level \<Rightarrow> LogEvent \<Rightarrow> nat \<Rightarrow> log_state \<Rightarrow> log_state may_crash" where
  "write_file env level ev i st =
     (case appenders st i of
        None \<Rightarrow> Inl Null_deref
      | Some a \<Rightarrow>
          sum_bind (appender_text (fmt_env_of env st) level ev a) (\<lambda>t. upd_file i (file_write t) st))"

definition reopen_prog :: "nat \<Rightarrow> log_prog \<Rightarrow> log_prog" where
  "reopen_prog i k =
     Acquire (Appender_lock i) (act (reopen_file i) (Release (Appender_lock i) k))"

definition StdOutLogAppender_log_prog ::
  "log_env \<Rightarrow> Level \<Rightarrow> LogEvent \<Rightarrow> nat \<Rightarrow> log_prog \<Rightarrow> log_prog" where
  "StdOutLogAppender_log_prog env level ev i k =
     look_appender i (\<lambda>a.
       if ap_level a \<le> level then
         Acquire (Appender_lock i)
           (write_stdout_prog env level ev i (Release (Appender_lock i) k))
       else k)"

definition FileLogAppender_log_prog ::
  "log_env \<Rightarrow> Level \<Rightarrow> LogEvent \<Rightarrow> nat \<Rightarrow> log_prog \<Rightarrow> log_prog" where
  "FileLogAppender_log_prog env level ev i k =
     look_appender i (\<lambda>a.
       if ap_level a \<le> level then
         (let now = le_now env i;
              write = Acquire (Appender_lock i)
                        (act (write_file env level ev i) (Release (Appender_lock i) k))
          in look_appender i (\<lambda>a.
               case ap_kind a of
                 StdOutLogAppender \<Rightarrow> write
               | FileLogAppender fp \<Rightarrow>
                   if now \<noteq> m_lastTime fp + 3 then reopen_prog i (act (set_lastTime i now) write)
                   else write))
       else k)"

definition appender_log_prog :: "log_env \<Rightarrow> Level \<Rightarrow> LogEvent \<Rightarrow> nat \<Rightarrow> log_prog \<Rightarrow> log_prog" where
  "appender_log_prog env level ev i k =
     look_appender i (\<lambda>a.
       case ap_kind a of
         StdOutLogAppender \<Rightarrow> StdOutLogAppender_log_prog env level ev i k
       | FileLogAppender _ \<Rightarrow> FileLogAppender_log_prog env level ev i k)"

text \<open>The constructors; the one of a file appender opens its file through \<open>reopen\<close>.\<close>

definition make_StdOut_prog :: "(nat \<Rightarrow> log_prog) \<Rightarrow> log_prog" where
  "make_StdOut_prog k = Do (\<lambda>st. case make_StdOutLogAppender st of (i, st') \<Rightarrow> Inr (st', k i))"

definition make_File_prog :: "64 word \<Rightarrow> string \<Rightarrow> (nat \<Rightarrow> log_prog) \<Rightarrow> log_prog" where
  "make_File_prog uninit filename k =
     Do (\<lambda>st.
       case alloc_appender (new_appender (FileLogAppender
              \<lparr>m_filename = filename, m_filestream = closed_stream, m_lastTime = uninit\<rparr>)) st of
         (i, st') \<Rightarrow> Inr (st', reopen_prog i (k i)))"

section \<open>Loggers\<close>

definition Logger_setFormatter_prog :: "nat \<Rightarrow> LogFormatter option \<Rightarrow> log_prog \<Rightarrow> log_prog" where
  "Logger_setFormatter_prog l val k =
     Acquire (Logger_lock l)
       (act (upd_logger l (\<lambda>g. g\<lparr>lg_formatter := val\<rparr>))
         (look_logger l (\<lambda>g.
            foldr (\<lambda>i k. Acquire (Appender_lock i)
                (act (upd_appender i (pass_formatter (lg_formatter g)))
                  (Release (Appender_lock i) k)))
              (lg_appenders g) (Release (Logger_lock l) k))))"

definition Logger_getFormatter_prog ::
  "nat \<Rightarrow> (LogFormatter option \<Rightarrow> log_prog) \<Rightarrow> log_prog" where
  "Logger_getFormatter_prog l k =
     Acquire (Logger_lock l) (look_logger l (\<lambda>g. Release (Logger_lock l) (k (lg_formatter g))))"

definition Logger_setFormatter_str_prog :: "nat \<Rightarrow> string \<Rightarrow> log_prog \<Rightarrow> log_prog" where
  "Logger_setFormatter_str_prog l val k =
     Do (\<lambda>st.
       case loggers st l of
         None \<Rightarrow> Inl Null_deref
       | Some g \<Rightarrow>
           (case new_LogFormatter val of
              (new_val, out) \<Rightarrow>
                if m_error new_val then
                  Inr (print_st (''Logger setFormatter name='' @ lg_name g @ ''value='' @ val
                         @ '' invalid formatter'' @ newline) (print_st out st), k)
                else Inr (print_st out st, Logger_setFormatter_prog l (Some new_val) k)))"

text \<open>
  \<open>Logger::addAppender\<close> reads the appender's formatter through \<open>getFormatter\<close>, whose lock is free
  again when the appender is locked to be written.
\<close>

definition Logger_addAppender_prog :: "nat \<Rightarrow> nat option \<Rightarrow> log_prog \<Rightarrow> log_prog" where
  "Logger_addAppender_prog l appender k =
     Acquire (Logger_lock l)
       (case appender of
          None \<Rightarrow> Do (\<lambda>st. Inl Null_deref)
        | Some i \<Rightarrow>
            (let push = act (upd_logger l (\<lambda>g. g\<lparr>lg_appenders := lg_appenders g @ [i]\<rparr>))
                          (Release (Logger_lock l) k)
             in appender_getFormatter_prog i (\<lambda>f.
                  if f = None then
                    Acquire (Appender_lock i)
                      (look_logger l (\<lambda>g.
                         act (upd_appender i (\<lambda>a. a\<lparr>ap_formatter := lg_formatter g\<rparr>))
                           (Release (Appender_lock i) push)))
                  else push)))"

definition Logger_clearAppenders_prog :: "nat \<Rightarrow> log_prog \<Rightarrow> log_prog" where
  "Logger_clearAppenders_prog l k =
     Acquire (Logger_lock l) (act (Logger_clearAppenders l) (Release (Logger_lock l) k))"

definition Logger_delAppender_prog :: "nat \<Rightarrow> nat \<Rightarrow> log_prog \<Rightarrow> log_prog" where
  "Logger_delAppender_prog l i k =
     Acquire (Logger_lock l) (act (Logger_delAppender l i) (Release (Logger_lock l) k))"

text \<open>
  \<open>Logger::log\<close>: the level is tested outside the lock, which is then held over the calls of all
  appenders and over the root's call. The fuel bounds the chain of roots; two are enough, as a
  root has no root (theory \<open>Log_Threads_Laws\<close>).
\<close>

fun Logger_log_prog :: "nat \<Rightarrow> log_env \<Rightarrow> nat \<Rightarrow> Level \<Rightarrow> LogEvent \<Rightarrow> log_prog \<Rightarrow> log_prog" where
  "Logger_log_prog 0 env l level ev k = Do (\<lambda>st. Inl Deadlock)"
| "Logger_log_prog (Suc n) env l level ev k =
     look_logger l (\<lambda>g.
       if lg_level g \<le> level then
         Acquire (Logger_lock l) (look_logger l (\<lambda>g.
           if lg_appenders g \<noteq> [] then
             foldr (appender_log_prog env level ev) (lg_appenders g) (Release (Logger_lock l) k)
           else (case lg_root g of
                   Some r \<Rightarrow> Logger_log_prog n env r level ev (Release (Logger_lock l) k)
                 | None \<Rightarrow> Release (Logger_lock l) k)))
       else k)"

definition log_fuel :: nat where "log_fuel = 2"

section \<open>The manager\<close>

definition getLogger_prog :: "string \<Rightarrow> (nat \<Rightarrow> log_prog) \<Rightarrow> log_prog" where
  "getLogger_prog name k =
     Acquire Manager_lock
       (Do (\<lambda>st. case getLogger name st of (l, st') \<Rightarrow> Inr (st', Release Manager_lock (k l))))"

definition getRoot_prog :: "(nat \<Rightarrow> log_prog) \<Rightarrow> log_prog" where
  "getRoot_prog k = Do (\<lambda>st. Inr (st, k (mgr_root st)))"

text \<open>
  An expression for a logger: a pointer the program keeps, \<open>CHORD_LOG_ROOT()\<close> or
  \<open>CHORD_LOG_NAME(name)\<close>. The logging macro evaluates it twice.
\<close>

datatype log_ref = Pointer nat | CHORD_LOG_ROOT | CHORD_LOG_NAME string

fun with_logger :: "log_ref \<Rightarrow> (nat \<Rightarrow> log_prog) \<Rightarrow> log_prog" where
  "with_logger (Pointer l) k = k l"
| "with_logger CHORD_LOG_ROOT k = getRoot_prog k"
| "with_logger (CHORD_LOG_NAME name) k = getLogger_prog name k"

definition CHORD_LOG_LEVEL_prog ::
  "log_env \<Rightarrow> log_site \<Rightarrow> log_ref \<Rightarrow> Level \<Rightarrow> string \<Rightarrow> log_prog \<Rightarrow> log_prog" where
  "CHORD_LOG_LEVEL_prog env site ref level text k =
     with_logger ref (\<lambda>l. look_logger l (\<lambda>g.
       if lg_level g \<le> level then
         with_logger ref (\<lambda>l.
           Logger_log_prog log_fuel env l level (site_event site l level\<lparr>ev_ss := text\<rparr>) k)
       else k))"

section \<open>The listener of the log configuration\<close>

definition set_defined_formatter_prog ::
  "string \<Rightarrow> LogAppenderDefine \<Rightarrow> nat \<Rightarrow> log_prog \<Rightarrow> log_prog" where
  "set_defined_formatter_prog name a ap k =
     (if lad_formatter a \<noteq> [] then
        Do (\<lambda>st. case new_LogFormatter (lad_formatter a) of
           (fmt, out) \<Rightarrow>
             if \<not> m_error fmt then
               Inr (print_st out st, appender_setFormatter_prog ap (Some fmt) k)
             else
               Inr (print_st (''log name='' @ name @ ''appender type='' @ dec_nat (lad_type a)
                      @ ''formatter'' @ lad_formatter a @ ''invalid'' @ newline) (print_st out st), k))
      else k)"

definition add_defined_prog ::
  "64 word \<Rightarrow> string \<Rightarrow> nat \<Rightarrow> LogAppenderDefine \<Rightarrow> log_prog \<Rightarrow> log_prog" where
  "add_defined_prog uninit name logger a k =
     (let configure = (\<lambda>ap. act (appender_setLevel ap (lad_level a))
            (set_defined_formatter_prog name a ap (Logger_addAppender_prog logger (Some ap) k)))
      in if lad_type a = 1 then make_File_prog uninit (lad_file a) configure
         else if lad_type a = 2 then make_StdOut_prog configure
         else Do (\<lambda>st. Inl Null_deref))"

definition configure_logger_prog :: "64 word \<Rightarrow> LogDefine \<Rightarrow> nat \<Rightarrow> log_prog \<Rightarrow> log_prog" where
  "configure_logger_prog uninit i logger k =
     act (Logger_setLevel logger (ld_level i))
       (let rest = Logger_clearAppenders_prog logger
              (foldr (add_defined_prog uninit (ld_name i) logger) (ld_appenders i) k)
        in if ld_formatter i \<noteq> [] then Logger_setFormatter_str_prog logger (ld_formatter i) rest
           else rest)"

definition apply_define_prog ::
  "64 word \<Rightarrow> define_set \<Rightarrow> LogDefine \<Rightarrow> log_prog \<Rightarrow> log_prog" where
  "apply_define_prog uninit old_value i k =
     (case set_find i old_value of
        None \<Rightarrow> getLogger_prog (ld_name i) (\<lambda>l. configure_logger_prog uninit i l k)
      | Some it \<Rightarrow>
          if \<not> LogDefine_eq i it then
            getLogger_prog (ld_name i) (\<lambda>l. configure_logger_prog uninit i l k)
          else Do (\<lambda>st. Inl Null_deref))"

definition retire_define_prog :: "define_set \<Rightarrow> LogDefine \<Rightarrow> log_prog \<Rightarrow> log_prog" where
  "retire_define_prog new_value i k =
     (case set_find i new_value of
        None \<Rightarrow> getLogger_prog (ld_name i) (\<lambda>l.
          act (Logger_setLevel l too_high) (Logger_clearAppenders_prog l k))
      | Some it \<Rightarrow> k)"

definition conf_listener_prog ::
  "log_env \<Rightarrow> log_site \<Rightarrow> 64 word \<Rightarrow> define_set \<Rightarrow> define_set \<Rightarrow> log_prog \<Rightarrow> log_prog" where
  "conf_listener_prog env site uninit old_value new_value k =
     CHORD_LOG_LEVEL_prog env site CHORD_LOG_ROOT INFO ''on_logger_conf_changed''
       (foldr (apply_define_prog uninit old_value) new_value
         (foldr (retire_define_prog new_value) old_value k))"

section \<open>The dump\<close>

text \<open>
  The three \<open>toYamlString\<close>. The loop over the appenders of a logger goes on while the texts can be
  loaded; what follows gets the text or the exception, after the guards are gone.
\<close>

definition appender_toYamlString_prog :: "yaml_lib \<Rightarrow> nat \<Rightarrow> (string \<Rightarrow> log_prog) \<Rightarrow> log_prog" where
  "appender_toYamlString_prog Y i k =
     Acquire (Appender_lock i)
       (look_appender i (\<lambda>a. Release (Appender_lock i) (k (appender_toYamlString Y a))))"

fun dump_appenders_prog ::
  "yaml_lib \<Rightarrow> nat list \<Rightarrow> yaml \<Rightarrow> (exn + yaml \<Rightarrow> log_prog) \<Rightarrow> log_prog" where
  "dump_appenders_prog Y [] node k = k (Inr node)"
| "dump_appenders_prog Y (i # is) node k =
     appender_toYamlString_prog Y i (\<lambda>txt.
       case y_Load Y txt of
         Inl e \<Rightarrow> k (Inl e)
       | Inr v \<Rightarrow>
           dump_appenders_prog Y is
             (node_put ''appenders'' (node_push v
                (case map_of (node_entries node) (YScalar ''appenders'') of
                   None \<Rightarrow> YNull | Some m \<Rightarrow> m)) node) k)"

definition Logger_toYamlString_prog ::
  "yaml_lib \<Rightarrow> nat \<Rightarrow> (exn + string \<Rightarrow> log_prog) \<Rightarrow> log_prog" where
  "Logger_toYamlString_prog Y l k =
     Acquire (Logger_lock l) (look_logger l (\<lambda>g.
       dump_appenders_prog Y (lg_appenders g) (logger_head g) (\<lambda>r.
         Release (Logger_lock l) (k (map_sum id (y_emit Y) r)))))"

fun dump_loggers_prog ::
  "yaml_lib \<Rightarrow> nat list \<Rightarrow> yaml \<Rightarrow> (exn + yaml \<Rightarrow> log_prog) \<Rightarrow> log_prog" where
  "dump_loggers_prog Y [] node k = k (Inr node)"
| "dump_loggers_prog Y (l # ls) node k =
     Logger_toYamlString_prog Y l (\<lambda>r.
       case sum_bind r (y_Load Y) of
         Inl e \<Rightarrow> k (Inl e)
       | Inr v \<Rightarrow> dump_loggers_prog Y ls (node_push v node) k)"

definition LoggerManager_toYamlString_prog ::
  "yaml_lib \<Rightarrow> (exn + string \<Rightarrow> log_prog) \<Rightarrow> log_prog" where
  "LoggerManager_toYamlString_prog Y k =
     Acquire Manager_lock
       (Do (\<lambda>st. Inr (st,
          dump_loggers_prog Y (map snd (mgr_loggers st)) YNull (\<lambda>r.
            Release Manager_lock (k (map_sum id (y_emit Y) r))))))"

section \<open>What a thread calls\<close>

text \<open>
  The calls a thread makes, one after another. Formatters handed over are not null; a dump whose
  loading throws is caught by the caller, who goes on.
\<close>

datatype log_call =
    Log log_env log_ref Level LogEvent
  | Log_text log_env log_site log_ref Level string
  | Set_level log_ref Level
  | Set_formatter log_ref LogFormatter
  | Set_pattern log_ref string
  | Get_formatter log_ref
  | Add_appender log_ref nat
  | Add_new_stdout log_ref
  | Add_new_file log_ref "64 word" string
  | Del_appender log_ref nat
  | Clear_appenders log_ref
  | Appender_set_level nat Level
  | Appender_set_formatter nat LogFormatter
  | Appender_get_formatter nat
  | Configure log_env log_site "64 word" define_set define_set
  | Print_dump yaml_lib

fun call_prog :: "log_call \<Rightarrow> log_prog \<Rightarrow> log_prog" where
  "call_prog (Log env ref level ev) k =
     with_logger ref (\<lambda>l. Logger_log_prog log_fuel env l level ev k)"
| "call_prog (Log_text env site ref level text) k = CHORD_LOG_LEVEL_prog env site ref level text k"
| "call_prog (Set_level ref v) k = with_logger ref (\<lambda>l. act (Logger_setLevel l v) k)"
| "call_prog (Set_formatter ref f) k = with_logger ref (\<lambda>l. Logger_setFormatter_prog l (Some f) k)"
| "call_prog (Set_pattern ref p) k = with_logger ref (\<lambda>l. Logger_setFormatter_str_prog l p k)"
| "call_prog (Get_formatter ref) k = with_logger ref (\<lambda>l. Logger_getFormatter_prog l (\<lambda>_. k))"
| "call_prog (Add_appender ref i) k = with_logger ref (\<lambda>l. Logger_addAppender_prog l (Some i) k)"
| "call_prog (Add_new_stdout ref) k =
     with_logger ref (\<lambda>l. make_StdOut_prog (\<lambda>i. Logger_addAppender_prog l (Some i) k))"
| "call_prog (Add_new_file ref uninit filename) k =
     with_logger ref (\<lambda>l. make_File_prog uninit filename (\<lambda>i. Logger_addAppender_prog l (Some i) k))"
| "call_prog (Del_appender ref i) k = with_logger ref (\<lambda>l. Logger_delAppender_prog l i k)"
| "call_prog (Clear_appenders ref) k = with_logger ref (\<lambda>l. Logger_clearAppenders_prog l k)"
| "call_prog (Appender_set_level i v) k = act (appender_setLevel i v) k"
| "call_prog (Appender_set_formatter i f) k = appender_setFormatter_prog i (Some f) k"
| "call_prog (Appender_get_formatter i) k = appender_getFormatter_prog i (\<lambda>_. k)"
| "call_prog (Configure env site uninit old_value new_value) k =
     conf_listener_prog env site uninit old_value new_value k"
| "call_prog (Print_dump Y) k =
     LoggerManager_toYamlString_prog Y (\<lambda>r.
       case r of Inl e \<Rightarrow> k | Inr s \<Rightarrow> act (\<lambda>st. Inr (print_st s st)) k)"

definition thread_prog :: "log_call list \<Rightarrow> log_prog" where
  "thread_prog cs = foldr call_prog cs Return"

definition log_system :: "log_state \<Rightarrow> log_call list list \<Rightarrow> (log_lock, log_state) system" where
  "log_system st css = new_system st (map thread_prog css)"

text \<open>The two \<open>getFormatter\<close>, without locks.\<close>

definition appender_getFormatter :: "nat \<Rightarrow> log_state \<Rightarrow> LogFormatter option may_crash" where
  "appender_getFormatter i st =
     (case appenders st i of None \<Rightarrow> Inl Null_deref | Some a \<Rightarrow> Inr (ap_formatter a))"

definition Logger_getFormatter :: "nat \<Rightarrow> log_state \<Rightarrow> LogFormatter option may_crash" where
  "Logger_getFormatter l st =
     (case loggers st l of None \<Rightarrow> Inl Null_deref | Some g \<Rightarrow> Inr (lg_formatter g))"

text \<open>The same calls by the operations of the theories before, without locks.\<close>

fun ref_logger :: "log_ref \<Rightarrow> log_state \<Rightarrow> nat \<times> log_state" where
  "ref_logger (Pointer l) st = (l, st)"
| "ref_logger CHORD_LOG_ROOT st = (mgr_root st, st)"
| "ref_logger (CHORD_LOG_NAME name) st = getLogger name st"

definition returned :: "'a may_crash option \<Rightarrow> 'a may_crash" where
  "returned r = (case r of None \<Rightarrow> Inl Deadlock | Some x \<Rightarrow> x)"

definition of_outcome :: "'s outcome \<Rightarrow> 's may_crash" where
  "of_outcome r = (case r of Returns s \<Rightarrow> Inr s | Throws e s \<Rightarrow> Inl Uncaught | Crashes c \<Rightarrow> Inl c)"

definition on_logger :: "log_ref \<Rightarrow> (nat \<Rightarrow> log_state \<Rightarrow> 'a) \<Rightarrow> log_state \<Rightarrow> 'a" where
  "on_logger ref f st = (case ref_logger ref st of (l, st') \<Rightarrow> f l st')"

fun call_effect :: "log_call \<Rightarrow> log_state \<Rightarrow> log_state may_crash" where
  "call_effect (Log env ref level ev) = on_logger ref (\<lambda>l st. returned (Logger_log env l level ev st))"
| "call_effect (Log_text env site ref level text) =
     on_logger ref (\<lambda>l st. returned (CHORD_LOG_LEVEL env site l level text st))"
| "call_effect (Set_level ref v) = on_logger ref (\<lambda>l. Logger_setLevel l v)"
| "call_effect (Set_formatter ref f) = on_logger ref (\<lambda>l. Logger_setFormatter l (Some f))"
| "call_effect (Set_pattern ref p) = on_logger ref (\<lambda>l. Logger_setFormatter_str l p)"
| "call_effect (Get_formatter ref) = on_logger ref (\<lambda>l st. map_sum id (\<lambda>_. st) (Logger_getFormatter l st))"
| "call_effect (Add_appender ref i) = on_logger ref (\<lambda>l. Logger_addAppender l (Some i))"
| "call_effect (Add_new_stdout ref) =
     on_logger ref (\<lambda>l st. case make_StdOutLogAppender st of (i, st') \<Rightarrow> Logger_addAppender l (Some i) st')"
| "call_effect (Add_new_file ref uninit filename) =
     on_logger ref (\<lambda>l st. case make_FileLogAppender uninit filename st of
       (i, st') \<Rightarrow> Logger_addAppender l (Some i) st')"
| "call_effect (Del_appender ref i) = on_logger ref (\<lambda>l. Logger_delAppender l i)"
| "call_effect (Clear_appenders ref) = on_logger ref Logger_clearAppenders"
| "call_effect (Appender_set_level i v) = appender_setLevel i v"
| "call_effect (Appender_set_formatter i f) = appender_setFormatter i (Some f)"
| "call_effect (Appender_get_formatter i) = (\<lambda>st. map_sum id (\<lambda>_. st) (appender_getFormatter i st))"
| "call_effect (Configure env site uninit old_value new_value) =
     (\<lambda>st. of_outcome (conf_listener env site uninit old_value new_value st))"
| "call_effect (Print_dump Y) =
     (\<lambda>st. case LoggerManager_toYamlString Y st of
             Inl (Inl c) \<Rightarrow> Inl c
           | Inl (Inr e) \<Rightarrow> Inr st
           | Inr s \<Rightarrow> Inr (print_st s st))"

end
