(* ===== verification/Log_Threads_Laws.thy ===== *)
theory Log_Threads_Laws
  imports Log_Threads
begin

text \<open>
  What the locked operations of theory \<open>Log_Threads\<close> compute when no other thread interferes: the
  operations of the theories before, step by step the same state.
\<close>

section \<open>On one thread the locked operations are the operations\<close>

lemma sum_bind_assoc: "sum_bind (sum_bind r f) g = sum_bind r (\<lambda>x. sum_bind (f x) g)"
  by (simp add: sum_bind_def split: sum.split)

lemma sum_bind_case_prod: "sum_bind (case p of (a, b) \<Rightarrow> f a b) g = (case p of (a, b) \<Rightarrow> sum_bind (f a b) g)"
  by (simp split: prod.split)

lemma sum_bind_cong: "r = s \<Longrightarrow> (\<And>x. f x = g x) \<Longrightarrow> sum_bind r f = sum_bind s g"
  by (simp add: sum_bind_def split: sum.split)

named_theorems run_simps "what a program computes on its own"

lemma prog_run_act [run_simps]: "prog_run (act f k) st = sum_bind (f st) (prog_run k)"
  by (simp add: act_def sum_bind_assoc)

lemma prog_run_look [run_simps]:
  "prog_run (look_logger l h) st =
     (case loggers st l of None \<Rightarrow> Inl Null_deref | Some g \<Rightarrow> prog_run (h g) st)"
  "prog_run (look_appender i h') st =
     (case appenders st i of None \<Rightarrow> Inl Null_deref | Some a \<Rightarrow> prog_run (h' a) st)"
  by (simp_all add: look_logger_def look_appender_def split: option.split)

lemma prog_run_foldr:
  assumes "\<And>x k st. x \<in> set xs \<Longrightarrow> prog_run (f x k) st = sum_bind (g x st) (prog_run k)"
  shows "prog_run (foldr f xs k) st = sum_bind (for_each g xs st) (prog_run k)"
  using assms by (induction xs arbitrary: st) (auto simp: sum_bind_def split: sum.split)

lemma fmt_env_of_frame [simp]:
  "fmt_env_of env (st\<lparr>appenders := as\<rparr>) = fmt_env_of env st"
  "fmt_env_of env (st\<lparr>st_world := w\<rparr>) = fmt_env_of env st"
  by (simp_all add: fmt_env_of_def logger_name_def fun_eq_iff)

lemma prog_run_print [run_simps]:
  "prog_run (foldr print_char t k) st = prog_run k (print_st t st)"
  by (induction t arbitrary: st) (simp_all add: print_char_def prog_run_act)

lemma write_stdout_run [run_simps]:
  "prog_run (write_stdout_prog env level ev i k) st =
     (case appenders st i of
        None \<Rightarrow> Inl Null_deref
      | Some a \<Rightarrow> sum_bind (appender_text (fmt_env_of env st) level ev a)
          (\<lambda>t. prog_run k (print_st t st)))"
  by (simp add: write_stdout_prog_def run_simps sum_bind_assoc split: option.split)

lemma appender_log_run [run_simps]:
  "prog_run (appender_log_prog env level ev i k) st = sum_bind (log_one env level ev i st) (prog_run k)"
proof (cases "appenders st i")
  case (Some a)
  show ?thesis
  proof (cases "ap_kind a")
    case StdOutLogAppender
    with Some show ?thesis
      by (simp add: run_simps appender_log_prog_def StdOutLogAppender_log_prog_def log_one_def
          appender_log_def StdOutLogAppender_log_def sum_bind_assoc print_st_def
          fun_upd_idem)
  next
    case (FileLogAppender fp)
    with Some show ?thesis
      by (simp add: run_simps appender_log_prog_def FileLogAppender_log_prog_def log_one_def
          appender_log_def FileLogAppender_log_def write_file_def reopen_prog_def reopen_file_def
          set_lastTime_def upd_file_def file_refresh_def sum_bind_assoc Let_def appender_text_def
          sum_bind_case_prod
          fun_upd_idem split: prod.split)
  qed
qed (simp add: run_simps appender_log_prog_def log_one_def)

lemma make_run [run_simps]:
  "prog_run (make_StdOut_prog h) st =
     (case make_StdOutLogAppender st of (i, st') \<Rightarrow> prog_run (h i) st')"
  "prog_run (make_File_prog uninit filename h) st =
     (case make_FileLogAppender uninit filename st of (i, st') \<Rightarrow> prog_run (h i) st')"
  by (simp_all add: run_simps make_StdOut_prog_def make_File_prog_def make_FileLogAppender_def
      new_FileLogAppender_def alloc_appender_def new_appender_def reopen_prog_def reopen_file_def
      upd_file_def split: prod.split) (cases st, simp)

lemma appender_formatter_run [run_simps]:
  "prog_run (appender_setFormatter_prog i val k) st =
     sum_bind (appender_setFormatter i val st) (prog_run k)"
  "prog_run (appender_getFormatter_prog i h) st =
     (case appenders st i of None \<Rightarrow> Inl Null_deref | Some a \<Rightarrow> prog_run (h (ap_formatter a)) st)"
  by (simp_all add: run_simps appender_setFormatter_prog_def appender_getFormatter_prog_def
      split: option.split)

lemma Logger_setFormatter_run [run_simps]:
  "prog_run (Logger_setFormatter_prog l val k) st = sum_bind (Logger_setFormatter l val st) (prog_run k)"
proof (cases "loggers st l")
  case (Some g)
  let ?f = "\<lambda>i k. Acquire (Appender_lock i)
    (act (upd_appender i (pass_formatter val)) (Release (Appender_lock i) k))"
  have "prog_run (foldr ?f is k) st =
      sum_bind (for_each (\<lambda>i. upd_appender i (pass_formatter val)) is st) (prog_run k)" for "is" k st
    by (rule prog_run_foldr) (simp add: run_simps)
  with Some show ?thesis
    by (simp add: run_simps Logger_setFormatter_prog_def Logger_setFormatter_def upd_logger_def)
qed (simp add: run_simps Logger_setFormatter_prog_def Logger_setFormatter_def upd_logger_def)

lemma Logger_getFormatter_run [run_simps]:
  "prog_run (Logger_getFormatter_prog l h) st =
     (case loggers st l of None \<Rightarrow> Inl Null_deref | Some g \<Rightarrow> prog_run (h (lg_formatter g)) st)"
  by (simp add: run_simps Logger_getFormatter_prog_def split: option.split)

lemma Logger_setFormatter_str_run [run_simps]:
  "prog_run (Logger_setFormatter_str_prog l val k) st =
     sum_bind (Logger_setFormatter_str l val st) (prog_run k)"
  by (simp add: run_simps Logger_setFormatter_str_prog_def Logger_setFormatter_str_def
      split: option.split prod.split)

lemma Logger_addAppender_run [run_simps]:
  "prog_run (Logger_addAppender_prog l appender k) st =
     sum_bind (Logger_addAppender l appender st) (prog_run k)"
proof (cases "loggers st l")
  case None
  then show ?thesis
    by (simp add: run_simps Logger_addAppender_prog_def Logger_addAppender_def Let_def
        upd_logger_def split: option.split)
next
  case (Some g)
  then show ?thesis
    by (simp add: run_simps Logger_addAppender_prog_def Logger_addAppender_def Let_def
        upd_logger_def upd_appender_def fun_upd_idem split: option.split)
qed

lemma Logger_appenders_run [run_simps]:
  "prog_run (Logger_clearAppenders_prog l k) st = sum_bind (Logger_clearAppenders l st) (prog_run k)"
  "prog_run (Logger_delAppender_prog l i k) st = sum_bind (Logger_delAppender l i st) (prog_run k)"
  by (simp_all add: run_simps Logger_clearAppenders_prog_def Logger_delAppender_prog_def)

lemma manager_run [run_simps]:
  "prog_run (getLogger_prog name h) st = (case getLogger name st of (l, st') \<Rightarrow> prog_run (h l) st')"
  "prog_run (getRoot_prog h) st = prog_run (h (mgr_root st)) st"
  by (simp_all add: getLogger_prog_def getRoot_prog_def split: prod.split)

lemma with_logger_run [run_simps]:
  "prog_run (with_logger ref h) st = on_logger ref (\<lambda>l. prog_run (h l)) st"
  by (cases ref) (simp_all add: run_simps on_logger_def)

text \<open>The chain of roots: two turns are enough, as a root has no root.\<close>

lemma log_loop_run:
  "prog_run (foldr (appender_log_prog env level ev) is k) st =
     sum_bind (for_each (log_one env level ev) is st) (prog_run k)"
  by (rule prog_run_foldr) (rule appender_log_run)

lemma Logger_log_rootless_run:
  assumes "loggers st l = Some g" and "lg_root g = None"
  shows "prog_run (Logger_log_prog (Suc n) env l level ev k) st =
    sum_bind (returned (Logger_log env l level ev st)) (prog_run k)"
  using assms by (simp add: run_simps log_loop_run Logger_log.simps returned_def)

lemma Logger_log_run:
  assumes "store_ok st" and "loggers st l = Some g"
  shows "prog_run (Logger_log_prog log_fuel env l level ev k) st =
    sum_bind (returned (Logger_log env l level ev st)) (prog_run k)"
proof -
  have fuel: "log_fuel = Suc (Suc 0)" by (simp add: log_fuel_def)
  show ?thesis
  proof (cases "lg_root g")
    case None
    with assms(2) show ?thesis by (simp only: fuel Logger_log_rootless_run)
  next
    case (Some r)
    with store_okD(2) [OF assms] obtain h where "loggers st r = Some h" "lg_root h = None"
      by (auto simp: logger_ok_def)
    note root = Logger_log_rootless_run [OF this, of 0 env level ev "Release (Logger_lock l) k"]
    from assms(2) Some root show ?thesis
      by (simp add: fuel run_simps log_loop_run returned_def Logger_log.simps [of _ l]
          del: Logger_log_prog.simps(2) add: Logger_log_prog.simps(2) [of _ _ l])
  qed
qed

text \<open>Asking the manager for the same name again changes nothing.\<close>

lemma getLogger_again:
  assumes "smap_ok (mgr_loggers st)" and "getLogger name st = (l, st')"
  shows "getLogger name st' = (l, st')"
proof (cases "map_of (mgr_loggers st) name")
  case None
  with assms show ?thesis
    by (auto simp: getLogger_def new_Logger_def split: prod.splits)
qed (use assms in \<open>auto simp: getLogger_def\<close>)

lemma CHORD_LOG_LEVEL_run:
  assumes "mgr_ok (snd (ref_logger ref st))" and "smap_ok (mgr_loggers st)"
    and "loggers (snd (ref_logger ref st)) (fst (ref_logger ref st)) \<noteq> None"
  shows "prog_run (CHORD_LOG_LEVEL_prog env site ref level text k) st =
    sum_bind (on_logger ref (\<lambda>l st. returned (CHORD_LOG_LEVEL env site l level text st)) st) (prog_run k)"
proof -
  obtain l st' g where ref: "ref_logger ref st = (l, st')" "loggers st' l = Some g" "store_ok st'"
    using assms(1,3) mgr_okD(1) by (metis fst_conv not_None_eq snd_conv surj_pair)
  have again: "ref_logger ref st' = (l, st')"
  proof (cases ref)
    case (CHORD_LOG_NAME name)
    with ref(1) have "getLogger name st = (l, st')" by simp
    from getLogger_again [OF assms(2) this] CHORD_LOG_NAME show ?thesis by simp
  qed (use ref(1) in auto)
  have "ev_logger (site_event site l level\<lparr>ev_ss := text\<rparr>) = Some l"
    and "ev_level (site_event site l level\<lparr>ev_ss := text\<rparr>) = level"
    by (simp_all add: site_event_def new_LogEvent_def)
  with ref again Logger_log_run [OF ref(3,2)] show ?thesis
    by (simp add: run_simps CHORD_LOG_LEVEL_prog_def on_logger_def CHORD_LOG_LEVEL_def
        LogEventWrap_destroy_def returned_def)
qed

section \<open>The listener and the dump on one thread\<close>

lemma set_defined_formatter_run [run_simps]:
  "prog_run (set_defined_formatter_prog name a ap k) st =
     sum_bind (set_defined_formatter name a ap st) (prog_run k)"
  by (simp add: run_simps set_defined_formatter_prog_def set_defined_formatter_def split: prod.split)

lemma add_defined_run:
  "prog_run (add_defined_prog uninit name logger a k) st =
     sum_bind (add_defined uninit name logger a st) (prog_run k)"
  by (simp add: run_simps add_defined_prog_def add_defined_def make_defined_def Let_def
      sum_bind_assoc cong: sum_bind_cong split: prod.split)

lemma configure_logger_run:
  "prog_run (configure_logger_prog uninit i logger k) st =
     sum_bind (configure_logger uninit i logger st) (prog_run k)"
proof -
  have "prog_run (foldr (add_defined_prog uninit (ld_name i) logger) as k) st =
      sum_bind (for_each (add_defined uninit (ld_name i) logger) as st) (prog_run k)" for as st
    by (rule prog_run_foldr) (rule add_defined_run)
  then show ?thesis
    by (simp add: run_simps configure_logger_prog_def configure_logger_def Let_def sum_bind_assoc
        cong: sum_bind_cong)
qed

lemma apply_define_run:
  "prog_run (apply_define_prog uninit old_value i k) st =
     sum_bind (apply_define uninit old_value i st) (prog_run k)"
  by (simp add: run_simps apply_define_prog_def apply_define_def pick_logger_def
      configure_logger_run split: option.split prod.split)

lemma retire_define_run:
  "prog_run (retire_define_prog new_value i k) st =
     sum_bind (retire_define new_value i st) (prog_run k)"
  by (simp add: run_simps retire_define_prog_def retire_define_def sum_bind_assoc
      cong: sum_bind_cong split: option.split prod.split)

lemma of_outcome_listener:
  "of_outcome (conf_listener env site uninit old_value new_value st) =
     sum_bind (returned (CHORD_LOG_LEVEL env site (mgr_root st) INFO ''on_logger_conf_changed'' st))
       (apply_defines uninit old_value new_value)"
  by (auto simp: conf_listener_def as_outcome_def of_outcome_def returned_def
      split: option.split sum.split)

lemma conf_listener_run:
  assumes "mgr_ok st"
  shows "prog_run (conf_listener_prog env site uninit old_value new_value k) st =
    sum_bind (of_outcome (conf_listener env site uninit old_value new_value st)) (prog_run k)"
proof -
  have "prog_run (foldr (apply_define_prog uninit old_value) ds k) st =
      sum_bind (for_each (apply_define uninit old_value) ds st) (prog_run k)" for ds k st
    by (rule prog_run_foldr) (rule apply_define_run)
  moreover have "prog_run (foldr (retire_define_prog new_value) ds k) st =
      sum_bind (for_each (retire_define new_value) ds st) (prog_run k)" for ds k st
    by (rule prog_run_foldr) (rule retire_define_run)
  moreover obtain g where "loggers st (mgr_root st) = Some g" using mgr_root_logger [OF assms] by blast
  ultimately show ?thesis
    using assms mgr_okD(2) [OF assms]
    by (simp add: conf_listener_prog_def CHORD_LOG_LEVEL_run of_outcome_listener on_logger_def
        apply_defines_def sum_bind_assoc cong: sum_bind_cong)
qed

text \<open>What follows a call that may throw.\<close>

definition settle :: "(crash + exn) + 'a \<Rightarrow> (exn + 'a \<Rightarrow> 'b may_crash) \<Rightarrow> 'b may_crash" where
  "settle r h = (case r of Inl (Inl c) \<Rightarrow> Inl c | Inl (Inr e) \<Rightarrow> h (Inl e) | Inr x \<Rightarrow> h (Inr x))"

lemma settle_simps [simp]:
  "settle (Inl (Inl c)) h = Inl c" "settle (Inl (Inr e)) h = h (Inl e)" "settle (Inr x) h = h (Inr x)"
  by (simp_all add: settle_def)

lemma dump_appenders_run:
  "prog_run (dump_appenders_prog Y is node h) st =
     settle (for_each (dump_appender Y st) is node) (\<lambda>r. prog_run (h r) st)"
proof (induction "is" arbitrary: node)
  case (Cons i "is")
  then show ?case
    by (simp add: run_simps appender_toYamlString_prog_def dump_appender_def load_text_def
        split: option.split sum.split)
qed simp

lemma Logger_toYamlString_run:
  "prog_run (Logger_toYamlString_prog Y l h) st =
     settle (Logger_toYamlString Y l st) (\<lambda>r. prog_run (h r) st)"
  by (simp add: run_simps Logger_toYamlString_prog_def Logger_toYamlString_def dump_appenders_run
      settle_def sum_bind_def split: option.split sum.split)

lemma dump_loggers_run:
  "prog_run (dump_loggers_prog Y (map snd es) node h) st =
     settle (for_each (\<lambda>i node. sum_bind (Logger_toYamlString Y (snd i) st) (\<lambda>txt.
          sum_bind (load_text Y txt) (\<lambda>v. Inr (node_push v node)))) es node)
       (\<lambda>r. prog_run (h r) st)"
proof (induction es arbitrary: node)
  case (Cons e es)
  then show ?case
    by (simp add: Logger_toYamlString_run load_text_def settle_def sum_bind_def
        split: sum.split)
qed simp

lemma LoggerManager_toYamlString_run:
  "prog_run (LoggerManager_toYamlString_prog Y h) st =
     settle (LoggerManager_toYamlString Y st) (\<lambda>r. prog_run (h r) st)"
  by (simp add: LoggerManager_toYamlString_prog_def LoggerManager_toYamlString_def dump_loggers_run
      settle_def sum_bind_def split: sum.split)

end
