(* ===== verification/Log_Lock_Order.thy ===== *)
theory Log_Lock_Order
  imports Log_Threads_Laws
begin

text \<open>
  The lock order and the locking discipline of the logging operations, and what follows from
  them for any number of threads that log, reconfigure and dump the loggers.
\<close>

section \<open>The lock order, the invariant and the protected data\<close>

text \<open>The manager's lock comes first, then a logger, then the root logger, then an appender.\<close>

fun log_rank :: "nat \<Rightarrow> log_lock \<Rightarrow> nat" where
  "log_rank r Manager_lock = 0"
| "log_rank r (Logger_lock l) = (if l = r then 2 else 1)"
| "log_rank r (Appender_lock i) = 3"

definition log_inv :: "nat \<Rightarrow> log_state \<Rightarrow> bool" where
  "log_inv r st \<longleftrightarrow>
     mgr_ok st \<and> mgr_root st = r
     \<and> (\<forall>l g. loggers st l = Some g \<longrightarrow> lg_root g = None \<or> lg_root g = Some r \<and> l \<noteq> r)"

definition formatted :: "log_state \<Rightarrow> nat \<Rightarrow> bool" where
  "formatted st i \<longleftrightarrow> (\<exists>a. appenders st i = Some a \<and> ap_formatter a \<noteq> None)"

text \<open>What no thread undoes: objects, names, root pointers, and that an appender has a formatter.\<close>

definition log_rely :: "log_state \<Rightarrow> log_state \<Rightarrow> bool" where
  "log_rely st st' \<longleftrightarrow>
     mgr_root st' = mgr_root st
     \<and> (\<forall>n l. map_of (mgr_loggers st) n = Some l \<longrightarrow> map_of (mgr_loggers st') n = Some l)
     \<and> (\<forall>l g. loggers st l = Some g \<longrightarrow>
          (\<exists>g'. loggers st' l = Some g' \<and> lg_name g' = lg_name g \<and> lg_root g' = lg_root g))
     \<and> (\<forall>i. appenders st i \<noteq> None \<longrightarrow> appenders st' i \<noteq> None)
     \<and> (\<forall>i. formatted st i \<longrightarrow> formatted st' i)"

text \<open>The file of an appender: its name and stream, but not \<open>m_lastTime\<close>.\<close>

definition stream_of :: "LogAppender \<Rightarrow> (string \<times> file_stream) option" where
  "stream_of a =
     (case ap_kind a of
        StdOutLogAppender \<Rightarrow> None | FileLogAppender fp \<Rightarrow> Some (m_filename fp, m_filestream fp))"

text \<open>The data each lock protects, unchanged from one state to another.\<close>

fun log_data :: "log_lock \<Rightarrow> log_state \<Rightarrow> log_state \<Rightarrow> bool" where
  "log_data Manager_lock st st' \<longleftrightarrow> mgr_loggers st' = mgr_loggers st"
| "log_data (Logger_lock l) st st' \<longleftrightarrow>
     (\<forall>g. loggers st l = Some g \<longrightarrow>
        (\<exists>g'. loggers st' l = Some g' \<and> lg_formatter g' = lg_formatter g
          \<and> lg_appenders g' = lg_appenders g))"
| "log_data (Appender_lock i) st st' \<longleftrightarrow>
     (\<forall>a. appenders st i = Some a \<longrightarrow>
        (\<exists>a'. appenders st' i = Some a' \<and> ap_formatter a' = ap_formatter a
          \<and> ap_has_formatter a' = ap_has_formatter a \<and> stream_of a' = stream_of a))"

lemma log_data_refl: "log_data l st st"
  by (cases l) auto

lemma log_data_trans: "log_data l s t \<Longrightarrow> log_data l t u \<Longrightarrow> log_data l s u"
  by (cases l) fastforce+

lemma log_rely_refl [simp]: "log_rely st st"
  by (simp add: log_rely_def)

lemma log_rely_trans: "log_rely s t \<Longrightarrow> log_rely t u \<Longrightarrow> log_rely s u"
  unfolding log_rely_def by (intro conjI; (metis | blast))

interpretation log_rg: rely_guarantee log_rely log_data
  by unfold_locales (auto intro: log_data_refl log_data_trans log_rely_trans)

lemma log_invD:
  assumes "log_inv r st"
  shows "mgr_ok st" and "store_ok st" and "mgr_root st = r"
    and "loggers st l = Some g \<Longrightarrow> lg_root g = None \<or> lg_root g = Some r \<and> l \<noteq> r"
  using assms mgr_okD(1) by (auto simp: log_inv_def)

lemma log_inv_root:
  assumes "log_inv r st"
  obtains g where "loggers st r = Some g" "lg_name g = ''root''" "lg_root g = None"
  using mgr_root_logger [OF log_invD(1) [OF assms]] log_invD(3) [OF assms] by blast

lemma log_inv_formatted:
  "log_inv r st \<Longrightarrow> loggers st l = Some g \<Longrightarrow> i \<in> set (lg_appenders g) \<Longrightarrow> formatted st i"
  by (drule log_invD(2), drule (1) store_okD(2)) (simp add: logger_ok_def formatted_def)

lemma log_relyD:
  assumes "log_rely st st'"
  shows "loggers st l \<noteq> None \<Longrightarrow> loggers st' l \<noteq> None"
    and "appenders st i \<noteq> None \<Longrightarrow> appenders st' i \<noteq> None"
    and "formatted st i \<Longrightarrow> formatted st' i"
    and "loggers st l = Some g \<Longrightarrow> loggers st' l = Some g' \<Longrightarrow> lg_root g' = lg_root g"
  using assms unfolding log_rely_def by (blast, blast, blast, fastforce)

section \<open>Sections that keep the invariant and the discipline\<close>

abbreviation log_guar :: "log_lock list \<Rightarrow> log_state \<Rightarrow> log_state \<Rightarrow> bool" where
  "log_guar H \<equiv> rely_on log_rely log_data (- set H)"

definition keeps :: "nat \<Rightarrow> log_lock list \<Rightarrow> log_state \<Rightarrow> log_state may_crash \<Rightarrow> bool" where
  "keeps r H st res \<longleftrightarrow> (\<exists>st'. res = Inr st' \<and> log_inv r st' \<and> log_guar H st st')"

lemma log_guarI:
  assumes "log_rely st st'"
    and "Manager_lock \<in> set H \<or> mgr_loggers st' = mgr_loggers st"
    and "\<And>l. Logger_lock l \<in> set H \<or> log_data (Logger_lock l) st st'"
    and "\<And>i. Appender_lock i \<in> set H \<or> log_data (Appender_lock i) st st'"
  shows "log_guar H st st'"
  unfolding rely_on_def
proof (intro conjI ballI)
  fix l
  assume "l \<in> - set H"
  then show "log_data l st st'"
    using assms(2) assms(3) [of "case l of Logger_lock k \<Rightarrow> k | _ \<Rightarrow> 0"]
      assms(4) [of "case l of Appender_lock k \<Rightarrow> k | _ \<Rightarrow> 0"]
    by (cases l) auto
qed (rule assms(1))

lemma log_inv_frame:
  assumes "log_inv r st" and "id_frame st st'" and "store_ok st'"
    and "\<And>l. loggers st l = None \<Longrightarrow> loggers st' l = None"
  shows "log_inv r st'"
proof -
  have "lg_root g' = None \<or> lg_root g' = Some r \<and> l \<noteq> r" if "loggers st' l = Some g'" for l g'
  proof -
    from that assms(4) obtain g where "loggers st l = Some g" by fastforce
    with assms(2) that have "lg_root g' = lg_root g" unfolding id_frame_def by fastforce
    with log_invD(4) [OF assms(1) \<open>loggers st l = Some g\<close>] show ?thesis by simp
  qed
  moreover have "mgr_root st' = r" using assms(2) log_invD(3) [OF assms(1)] by (simp add: id_frame_def)
  ultimately show ?thesis
    using mgr_ok_frame [OF log_invD(1) [OF assms(1)] assms(2,3)] by (simp add: log_inv_def)
qed

lemma log_rely_frame:
  assumes "id_frame st st'" and "\<And>i. appenders st i \<noteq> None \<Longrightarrow> appenders st' i \<noteq> None"
    and "\<And>i. formatted st i \<Longrightarrow> formatted st' i"
  shows "log_rely st st'"
  using assms by (simp add: log_rely_def id_frame_def)

lemma keeps_upd_logger:
  assumes inv: "log_inv r st" and l: "loggers st l = Some g"
    and "lg_name (f g) = lg_name g" and "lg_root (f g) = lg_root g" and "lg_formatter (f g) \<noteq> None"
    and "\<And>i. i \<in> set (lg_appenders (f g)) \<Longrightarrow> formatted st i"
    and data: "Logger_lock l \<in> set H \<or> lg_formatter (f g) = lg_formatter g \<and> lg_appenders (f g) = lg_appenders g"
  shows "keeps r H st (upd_logger l f st)"
proof -
  let ?st = "st\<lparr>loggers := (loggers st)(l \<mapsto> f g)\<rparr>"
  have ok: "store_ok ?st"
    by (rule store_ok_write_logger [OF log_invD(2) [OF inv] l]) (use assms in \<open>auto simp: formatted_def\<close>)
  have frame: "id_frame st ?st" using assms by (simp add: id_frame_def)
  have "log_inv r ?st" by (rule log_inv_frame [OF inv frame ok]) (use l in auto)
  moreover have "log_guar H st ?st"
    by (rule log_guarI) (use data l frame in \<open>auto intro!: log_rely_frame simp: formatted_def\<close>)
  ultimately show ?thesis using l by (simp add: keeps_def upd_logger_Some)
qed

lemma keeps_write_appender:
  assumes inv: "log_inv r st" and i: "appenders st i = Some a"
    and fmt: "ap_formatter a \<noteq> None \<Longrightarrow> ap_formatter a' \<noteq> None"
    and data: "Appender_lock i \<in> set H \<or> ap_formatter a' = ap_formatter a
      \<and> ap_has_formatter a' = ap_has_formatter a \<and> stream_of a' = stream_of a"
  shows "keeps r H st (Inr (st\<lparr>appenders := (appenders st)(i \<mapsto> a'), st_world := w\<rparr>))"
proof -
  let ?st = "st\<lparr>appenders := (appenders st)(i \<mapsto> a'), st_world := w\<rparr>"
  have ok: "store_ok ?st" using store_ok_write_appender [OF log_invD(2) [OF inv] i] fmt by simp
  have frame: "id_frame st ?st" by (simp add: id_frame_def)
  have "log_inv r ?st" by (rule log_inv_frame [OF inv frame ok]) simp
  moreover have "log_guar H st ?st"
    by (rule log_guarI) (use data i fmt frame in \<open>auto intro!: log_rely_frame simp: formatted_def\<close>)
  ultimately show ?thesis by (simp add: keeps_def)
qed

lemma keeps_upd_appender:
  assumes "log_inv r st" and "appenders st i = Some a"
    and "ap_formatter a \<noteq> None \<Longrightarrow> ap_formatter (f a) \<noteq> None"
    and "Appender_lock i \<in> set H \<or> ap_formatter (f a) = ap_formatter a
      \<and> ap_has_formatter (f a) = ap_has_formatter a \<and> stream_of (f a) = stream_of a"
  shows "keeps r H st (upd_appender i f st)"
proof -
  have "st\<lparr>appenders := x, st_world := st_world st\<rparr> = st\<lparr>appenders := x\<rparr>" for x
    by simp
  with keeps_write_appender [OF assms, of "st_world st"] assms(2) show ?thesis
    by (simp add: upd_appender_Some)
qed

lemma keeps_world: "log_inv r st \<Longrightarrow> keeps r H st (Inr (st\<lparr>st_world := w\<rparr>))"
proof -
  assume inv: "log_inv r st"
  have frame: "id_frame st (st\<lparr>st_world := w\<rparr>)" by (simp add: id_frame_def)
  with inv have "log_inv r (st\<lparr>st_world := w\<rparr>)"
    by (rule log_inv_frame) (use log_invD(2) [OF inv] in simp_all)
  moreover have "log_guar H st (st\<lparr>st_world := w\<rparr>)"
    by (rule log_guarI) (use frame in \<open>auto intro!: log_rely_frame simp: formatted_def\<close>)
  ultimately show ?thesis by (simp add: keeps_def)
qed

lemma keeps_print: "log_inv r st \<Longrightarrow> keeps r H st (Inr (print_st s st))"
  by (simp add: print_st_def keeps_world)

section \<open>Programs ready to run\<close>

text \<open>\<open>ready r H st p\<close>: holding \<open>H\<close>, a thread may go on as \<open>p\<close> from every later state.\<close>

definition ready :: "nat \<Rightarrow> log_lock list \<Rightarrow> log_state \<Rightarrow> log_prog \<Rightarrow> bool" where
  "ready r H st p \<longleftrightarrow>
     (\<forall>st'. log_inv r st' \<longrightarrow> log_rely st st' \<longrightarrow>
        safe (log_rank r) (log_inv r) log_rely log_data H st' p)"

named_theorems ready_rules "how to see that a program is ready"

lemma ready_later: "ready r H st p \<Longrightarrow> log_rely st st' \<Longrightarrow> ready r H st' p"
  unfolding ready_def using log_rely_trans by blast

lemma ready_Return: "ready r [] st Return"
  by (simp add: ready_def safe_Return)

lemma ready_Acquire [ready_rules]:
  assumes "\<forall>h \<in> set H. log_rank r h < log_rank r l" and "ready r (l # H) st p"
  shows "ready r H st (Acquire l p)"
  using assms log_rely_trans unfolding ready_def rely_on_def
  by (auto intro!: safe_Acquire simp: rely_on_def)

lemma ready_Release [ready_rules]:
  "ready r H st p \<Longrightarrow> l \<notin> set H \<Longrightarrow> ready r (l # H) st (Release l p)"
  by (simp add: ready_def safe_Release)

lemma ready_Do:
  assumes "\<And>s1. log_inv r s1 \<Longrightarrow> log_rely st s1 \<Longrightarrow>
    \<exists>s2 p. f s1 = Inr (s2, p) \<and> log_inv r s2 \<and> log_guar H s1 s2 \<and> ready r H s2 p"
  shows "ready r H st (Do f)"
  unfolding ready_def
proof (intro allI impI)
  fix s'
  assume "log_inv r s'" "log_rely st s'"
  show "safe (log_rank r) (log_inv r) log_rely log_data H s' (Do f)"
  proof (rule safe_Do)
    fix s1
    assume s1: "log_inv r s1" "rely_on log_rely log_data (set H) s' s1"
    then have "log_rely st s1" using \<open>log_rely st s'\<close> log_rely_trans by (auto simp: rely_on_def)
    from assms [OF s1(1) this] obtain s2 p where "f s1 = Inr (s2, p)" "log_inv r s2"
      "log_guar H s1 s2" "ready r H s2 p" by blast
    then show "\<exists>s2 p. f s1 = Inr (s2, p) \<and> log_inv r s2 \<and> log_guar H s1 s2
        \<and> safe (log_rank r) (log_inv r) log_rely log_data H s2 p"
      by (auto simp: ready_def)
  qed
qed

lemma ready_act:
  assumes "ready r H st k" and "\<And>s1. log_inv r s1 \<Longrightarrow> log_rely st s1 \<Longrightarrow> keeps r H s1 (f s1)"
  shows "ready r H st (act f k)"
  unfolding act_def
proof (rule ready_Do)
  fix s1
  assume s1: "log_inv r s1" "log_rely st s1"
  from assms(2) [OF s1] obtain s2 where s2: "f s1 = Inr s2" "log_inv r s2" "log_guar H s1 s2"
    by (auto simp: keeps_def)
  then have "log_rely st s2" using s1(2) log_rely_trans by (auto simp: rely_on_def)
  with s2 ready_later [OF assms(1)]
  show "\<exists>s2 p. sum_bind (f s1) (\<lambda>st'. Inr (st', k)) = Inr (s2, p) \<and> log_inv r s2
      \<and> log_guar H s1 s2 \<and> ready r H s2 p" by simp
qed

lemma ready_look_logger:
  assumes "loggers st l \<noteq> None"
    and "\<And>s1 g. log_inv r s1 \<Longrightarrow> log_rely st s1 \<Longrightarrow> loggers s1 l = Some g \<Longrightarrow> ready r H s1 (f g)"
  shows "ready r H st (look_logger l f)"
  unfolding look_logger_def
proof (rule ready_Do)
  fix s1
  assume s1: "log_inv r s1" "log_rely st s1"
  with log_relyD(1) [OF s1(2) assms(1)] obtain g where "loggers s1 l = Some g" by blast
  with s1 assms(2) log_rg.rely_refl
  show "\<exists>s2 p. (case loggers s1 l of None \<Rightarrow> Inl Null_deref | Some g \<Rightarrow> Inr (s1, f g)) = Inr (s2, p)
      \<and> log_inv r s2 \<and> log_guar H s1 s2 \<and> ready r H s2 p" by auto
qed

lemma ready_look_appender:
  assumes "appenders st i \<noteq> None"
    and "\<And>s1 a. log_inv r s1 \<Longrightarrow> log_rely st s1 \<Longrightarrow> appenders s1 i = Some a \<Longrightarrow> ready r H s1 (f a)"
  shows "ready r H st (look_appender i f)"
  unfolding look_appender_def
proof (rule ready_Do)
  fix s1
  assume s1: "log_inv r s1" "log_rely st s1"
  with log_relyD(2) [OF s1(2) assms(1)] obtain a where "appenders s1 i = Some a" by blast
  with s1 assms(2) log_rg.rely_refl
  show "\<exists>s2 p. (case appenders s1 i of None \<Rightarrow> Inl Null_deref | Some a \<Rightarrow> Inr (s1, f a)) = Inr (s2, p)
      \<and> log_inv r s2 \<and> log_guar H s1 s2 \<and> ready r H s2 p" by auto
qed

lemma ready_foldr:
  assumes "\<And>x s1 k. x \<in> set xs \<Longrightarrow> log_inv r s1 \<Longrightarrow> log_rely st s1 \<Longrightarrow> ready r H s1 k \<Longrightarrow> ready r H s1 (f x k)"
    and "ready r H st k" and "log_inv r st"
  shows "ready r H st (foldr f xs k)"
  using assms by (induction xs) auto

section \<open>The operations respect the order and the discipline\<close>

abbreviation under :: "nat \<Rightarrow> log_lock list \<Rightarrow> nat \<Rightarrow> bool" where
  "under r H n \<equiv> \<forall>h \<in> set H. log_rank r h < n"

lemma underD: "under r H n \<Longrightarrow> n \<le> log_rank r l \<Longrightarrow> l \<notin> set H"
  by auto

text \<open>A scope: the lock is above those held, and the program in it ends by releasing it.\<close>

lemma ready_scope:
  assumes "under r H (log_rank r l)" and "ready r H st k"
    and "\<And>k'. ready r (l # H) st k' \<Longrightarrow> ready r (l # H) st (body k')"
  shows "ready r H st (Acquire l (body (Release l k)))"
  using assms by (auto intro!: ready_Acquire ready_Release)

lemma formattedE:
  assumes "formatted st i"
  obtains a where "appenders st i = Some a" "ap_formatter a \<noteq> None"
  using assms by (auto simp: formatted_def)

lemma formatted_there: "formatted st i \<Longrightarrow> appenders st i \<noteq> None"
  by (auto simp: formatted_def)

lemma appender_text_total:
  assumes "ap_formatter a \<noteq> None" and "ev_logger ev \<noteq> None"
  shows "\<exists>t. appender_text fe level ev a = Inr t"
  using virtual_appender.no_crash [OF TrueI assms, of 0 fe "ap_level a" w]
    format_all_total [OF assms(2)] assms(1)
  by (auto simp: appender_text_def LogFormatter_format_def)

lemma keeps_upd_file:
  assumes inv: "log_inv r st" and i: "appenders st i = Some a"
    and data: "\<And>fp. Appender_lock i \<in> set H
      \<or> m_filename (fst (f fp (st_world st))) = m_filename fp
        \<and> m_filestream (fst (f fp (st_world st))) = m_filestream fp"
  shows "keeps r H st (upd_file i f st)"
proof (cases "ap_kind a")
  case StdOutLogAppender
  with i inv log_rg.rely_refl show ?thesis by (auto simp: upd_file_def keeps_def)
next
  case (FileLogAppender fp)
  obtain fp' w' where f: "f fp (st_world st) = (fp', w')" by fastforce
  have "keeps r H st (Inr (st\<lparr>appenders := (appenders st)(i \<mapsto> a\<lparr>ap_kind := FileLogAppender fp'\<rparr>),
      st_world := w'\<rparr>))"
    by (rule keeps_write_appender [OF inv i])
      (use data [of fp] f FileLogAppender in \<open>auto simp: stream_of_def\<close>)
  with i f FileLogAppender show ?thesis by (simp add: upd_file_def)
qed

lemma ready_print_text:
  assumes "log_inv r st" and "ready r H st k"
  shows "ready r H st (foldr print_char t k)"
proof (rule ready_foldr [OF _ assms(2,1)])
  fix c s1 k
  assume "ready r H s1 k"
  then show "ready r H s1 (print_char c k)"
    unfolding print_char_def by (rule ready_act) (rule keeps_print)
qed

lemma ready_write_stdout:
  assumes i: "formatted st i" and ev: "ev_logger ev \<noteq> None" and k: "ready r H st k"
  shows "ready r H st (write_stdout_prog env level ev i k)"
  unfolding write_stdout_prog_def
proof (rule ready_Do)
  fix s1
  assume s1: "log_inv r s1" "log_rely st s1"
  from log_relyD(3) [OF s1(2) i] obtain a where a: "appenders s1 i = Some a" "ap_formatter a \<noteq> None"
    by (rule formattedE)
  with appender_text_total [OF a(2) ev] obtain t where
    "appender_text (fmt_env_of env s1) level ev a = Inr t" by blast
  with a s1 ready_print_text [OF s1(1) ready_later [OF k s1(2)]] log_rg.rely_refl
  show "\<exists>s2 p. (case appenders s1 i of None \<Rightarrow> Inl Null_deref
      | Some a \<Rightarrow> sum_bind (appender_text (fmt_env_of env s1) level ev a)
          (\<lambda>t. Inr (s1, foldr print_char t k))) = Inr (s2, p)
      \<and> log_inv r s2 \<and> log_guar H s1 s2 \<and> ready r H s2 p" by auto
qed

lemma keeps_write_file:
  assumes "log_inv r st" and "formatted st i" and "ev_logger ev \<noteq> None" and "Appender_lock i \<in> set H"
  shows "keeps r H st (write_file env level ev i st)"
proof -
  obtain a where a: "appenders st i = Some a" "ap_formatter a \<noteq> None"
    using assms(2) by (rule formattedE)
  with appender_text_total [OF a(2) assms(3)] obtain t where
    "appender_text (fmt_env_of env st) level ev a = Inr t" by blast
  with a keeps_upd_file [OF assms(1) a(1)] assms(4) show ?thesis by (simp add: write_file_def)
qed

lemma ready_reopen:
  assumes "appenders st i \<noteq> None" and "under r H 3" and "ready r H st k"
  shows "ready r H st (reopen_prog i k)"
  unfolding reopen_prog_def
proof (rule ready_scope [OF _ assms(3)])
  fix k'
  assume "ready r (Appender_lock i # H) st k'"
  then show "ready r (Appender_lock i # H) st (act (reopen_file i) k')"
  proof (rule ready_act)
    fix s1
    assume s1: "log_inv r s1" "log_rely st s1"
    from log_relyD(2) [OF s1(2) assms(1)] obtain a where "appenders s1 i = Some a" by blast
    from keeps_upd_file [OF s1(1) this] show "keeps r (Appender_lock i # H) s1 (reopen_file i s1)"
      by (simp add: reopen_file_def)
  qed
qed (use assms(2) in simp)

lemma ready_StdOut_log:
  assumes i: "formatted st i" and ev: "ev_logger ev \<noteq> None" and H: "under r H 3" and k: "ready r H st k"
  shows "ready r H st (StdOutLogAppender_log_prog env level ev i k)"
  unfolding StdOutLogAppender_log_prog_def
proof (rule ready_look_appender)
  fix s1 a
  assume s1: "log_inv r s1" "log_rely st s1"
  note i1 = log_relyD(3) [OF s1(2) i]
  have "ready r H s1 (Acquire (Appender_lock i)
      (write_stdout_prog env level ev i (Release (Appender_lock i) k)))"
    by (rule ready_scope [OF _ ready_later [OF k s1(2)]], use H in simp)
      (rule ready_write_stdout [OF i1 ev])
  then show "ready r H s1 (if ap_level a \<le> level then Acquire (Appender_lock i)
      (write_stdout_prog env level ev i (Release (Appender_lock i) k)) else k)"
    using ready_later [OF k s1(2)] by simp
qed (rule formatted_there [OF i])

lemma ready_File_log:
  assumes i: "formatted st i" and ev: "ev_logger ev \<noteq> None" and H: "under r H 3" and k: "ready r H st k"
  shows "ready r H st (FileLogAppender_log_prog env level ev i k)"
proof -
  let ?wr_prog = "Acquire (Appender_lock i) (act (write_file env level ev i) (Release (Appender_lock i) k))"
  have wr: "ready r H st ?wr_prog"
    by (rule ready_scope [OF _ k], use H in simp, erule ready_act)
      (use i ev log_rely_trans log_relyD(3) in \<open>auto intro: keeps_write_file\<close>)
  have tm: "ready r H st (act (set_lastTime i now) ?wr_prog)" for now
  proof (rule ready_act [OF wr])
    fix s1
    assume s1: "log_inv r s1" "log_rely st s1"
    from log_relyD(2) [OF s1(2) formatted_there [OF i]] obtain a where "appenders s1 i = Some a" by blast
    from keeps_upd_file [OF s1(1) this] show "keeps r H s1 (set_lastTime i now s1)"
      by (simp add: set_lastTime_def)
  qed
  have re: "ready r H st (reopen_prog i (act (set_lastTime i now) ?wr_prog))" for now
    by (rule ready_reopen [OF formatted_there [OF i] H tm])
  show ?thesis
    unfolding FileLogAppender_log_prog_def Let_def
  proof (rule ready_look_appender [OF formatted_there [OF i]])
    fix s1 a
    assume s1: "log_inv r s1" "log_rely st s1"
    have i1: "appenders s1 i \<noteq> None" by (rule log_relyD(2) [OF s1(2) formatted_there [OF i]])
    have "ready r H s1 (look_appender i (\<lambda>a. case ap_kind a of StdOutLogAppender \<Rightarrow> ?wr_prog
        | FileLogAppender fp \<Rightarrow> if le_now env i \<noteq> m_lastTime fp + 3
            then reopen_prog i (act (set_lastTime i (le_now env i)) ?wr_prog) else ?wr_prog))"
    proof (rule ready_look_appender [OF i1])
      fix s2 a
      assume "log_rely s1 s2"
      with s1(2) have "log_rely st s2" by (rule log_rely_trans)
      then show "ready r H s2 (case ap_kind a of StdOutLogAppender \<Rightarrow> ?wr_prog
        | FileLogAppender fp \<Rightarrow> if le_now env i \<noteq> m_lastTime fp + 3
            then reopen_prog i (act (set_lastTime i (le_now env i)) ?wr_prog) else ?wr_prog)"
        by (simp add: ready_later [OF wr] ready_later [OF re] split: appender_kind.split)
    qed
    then show "ready r H s1 (if ap_level a \<le> level then look_appender i (\<lambda>a. case ap_kind a of
        StdOutLogAppender \<Rightarrow> ?wr_prog | FileLogAppender fp \<Rightarrow> if le_now env i \<noteq> m_lastTime fp + 3
            then reopen_prog i (act (set_lastTime i (le_now env i)) ?wr_prog) else ?wr_prog) else k)"
      using ready_later [OF k s1(2)] by simp
  qed
qed

lemma ready_appender_log:
  assumes "formatted st i" and "ev_logger ev \<noteq> None" and "under r H 3" and "ready r H st k"
  shows "ready r H st (appender_log_prog env level ev i k)"
  unfolding appender_log_prog_def
proof (rule ready_look_appender [OF formatted_there [OF assms(1)]])
  fix s1 a
  assume s1: "log_rely st s1"
  note i = log_relyD(3) [OF s1 assms(1)] and k = ready_later [OF assms(4) s1]
  from ready_StdOut_log [OF i assms(2,3) k] ready_File_log [OF i assms(2,3) k]
  show "ready r H s1 (case ap_kind a of
      StdOutLogAppender \<Rightarrow> StdOutLogAppender_log_prog env level ev i k
    | FileLogAppender _ \<Rightarrow> FileLogAppender_log_prog env level ev i k)"
    by (simp split: appender_kind.split)
qed

text \<open>Logging: the root's lock is above the logger's.\<close>

lemma ready_log_step:
  assumes l: "loggers st l \<noteq> None" and ev: "ev_logger ev \<noteq> None"
    and H: "under r H (log_rank r (Logger_lock l))" and k: "ready r H st k"
    and root: "\<And>s1 g r' k'. log_inv r s1 \<Longrightarrow> log_rely st s1 \<Longrightarrow> loggers s1 l = Some g \<Longrightarrow>
      lg_root g = Some r' \<Longrightarrow> ready r (Logger_lock l # H) s1 k' \<Longrightarrow>
      ready r (Logger_lock l # H) s1 (Logger_log_prog n env r' level ev k')"
  shows "ready r H st (Logger_log_prog (Suc n) env l level ev k)"
  unfolding Logger_log_prog.simps
proof (rule ready_look_logger [OF l])
  fix s1 g1
  assume s1: "log_inv r s1" "log_rely st s1" "loggers s1 l = Some g1"
  let ?body = "\<lambda>k. look_logger l (\<lambda>g. if lg_appenders g \<noteq> [] then
      foldr (appender_log_prog env level ev) (lg_appenders g) k
    else (case lg_root g of Some r' \<Rightarrow> Logger_log_prog n env r' level ev k | None \<Rightarrow> k))"
  have H3: "under r (Logger_lock l # H) 3" using H by (auto split: if_splits)
  have "ready r H s1 (Acquire (Logger_lock l) (?body (Release (Logger_lock l) k)))"
  proof (rule ready_scope [OF H ready_later [OF k s1(2)]], rule ready_look_logger)
    fix k' s2 g2
    assume k': "ready r (Logger_lock l # H) s1 k'" and s2: "log_inv r s2" "log_rely s1 s2" "loggers s2 l = Some g2"
    note k2 = ready_later [OF k' s2(2)]
    have "ready r (Logger_lock l # H) s2 (foldr (appender_log_prog env level ev) (lg_appenders g2) k')"
      by (rule ready_foldr [OF _ k2 s2(1)], rule ready_appender_log)
        (use log_inv_formatted [OF s2(1,3)] log_relyD(3) ev H3 in auto)
    moreover have "ready r (Logger_lock l # H) s2 (Logger_log_prog n env r' level ev k')"
      if "lg_root g2 = Some r'" for r'
      using root [OF s2(1) log_rely_trans [OF s1(2) s2(2)] s2(3) that k2] .
    ultimately show "ready r (Logger_lock l # H) s2 (if lg_appenders g2 \<noteq> [] then
        foldr (appender_log_prog env level ev) (lg_appenders g2) k'
      else (case lg_root g2 of Some r' \<Rightarrow> Logger_log_prog n env r' level ev k' | None \<Rightarrow> k'))"
      using k2 by (simp split: option.split)
  qed (use s1(3) in simp)
  then show "ready r H s1 (if lg_level g1 \<le> level then
      Acquire (Logger_lock l) (?body (Release (Logger_lock l) k)) else k)"
    using ready_later [OF k s1(2)] by simp
qed

lemma ready_log:
  assumes l: "loggers st l \<noteq> None" and ev: "ev_logger ev \<noteq> None"
    and H: "under r H 1" and k: "ready r H st k"
  shows "ready r H st (Logger_log_prog log_fuel env l level ev k)"
  unfolding log_fuel_def numeral_2_eq_2
proof (rule ready_log_step [OF l ev _ k])
  show "under r H (log_rank r (Logger_lock l))" using H by auto
  fix s1 g r' k'
  assume s1: "log_inv r s1" "loggers s1 l = Some g" "lg_root g = Some r'"
    and k': "ready r (Logger_lock l # H) s1 k'"
  from log_invD(4) [OF s1(1,2)] s1(3) have r': "r' = r" "l \<noteq> r" by auto
  obtain h where h: "loggers s1 r = Some h" "lg_root h = None" using log_inv_root [OF s1(1)] by blast
  show "ready r (Logger_lock l # H) s1 (Logger_log_prog (Suc 0) env r' level ev k')"
    unfolding r'(1)
  proof (rule ready_log_step [OF _ ev _ k'])
    show "under r (Logger_lock l # H) (log_rank r (Logger_lock r))" using H r'(2) by auto
    fix s2 g2 r2 k2
    assume "log_rely s1 s2" "loggers s2 r = Some g2" "lg_root g2 = Some r2"
    with log_relyD(4) [OF _ h(1)] h(2) have False by fastforce
    then show "ready r (Logger_lock r # Logger_lock l # H) s2 (Logger_log_prog 0 env r2 level ev k2)" ..
  qed (use h(1) in simp)
qed

section \<open>New objects and the manager\<close>

lemma alloc_appender_keeps:
  assumes inv: "log_inv r st" and alloc: "alloc_appender a st = (i, st')"
  shows "log_inv r st' \<and> log_guar H st st' \<and> appenders st' i = Some a"
proof -
  note ok = alloc_appender_ok [OF log_invD(2) [OF inv] alloc]
  then have st': "st' = st\<lparr>appenders := (appenders st)(i \<mapsto> a), next_loc := next_loc st + 1\<rparr>" by blast
  have fresh: "appenders st i = None" using store_ok_fresh [OF log_invD(2) [OF inv]] ok by simp
  have "log_inv r st'" by (rule log_inv_frame [OF inv]) (use ok st' in auto)
  moreover have "log_rely st st'"
    by (rule log_rely_frame) (use ok st' fresh in \<open>auto simp: formatted_def\<close>)
  then have "log_guar H st st'" by (rule log_guarI) (use st' fresh in auto)
  ultimately show ?thesis using st' by simp
qed

lemma ready_make_StdOut:
  assumes "\<And>s1 i. log_inv r s1 \<Longrightarrow> log_rely st s1 \<Longrightarrow> appenders s1 i \<noteq> None \<Longrightarrow> ready r H s1 (k i)"
  shows "ready r H st (make_StdOut_prog k)"
  unfolding make_StdOut_prog_def
proof (rule ready_Do)
  fix s1
  assume s1: "log_inv r s1" "log_rely st s1"
  obtain i s2 where make: "make_StdOutLogAppender s1 = (i, s2)" by fastforce
  with alloc_appender_keeps [OF s1(1), of new_StdOutLogAppender i s2 H]
  have "log_inv r s2" "log_guar H s1 s2" "appenders s2 i \<noteq> None"
    by (simp_all add: make_StdOutLogAppender_def)
  with make assms [of s2 i] s1(2) log_rely_trans
  show "\<exists>s2 p. (case make_StdOutLogAppender s1 of (i, st') \<Rightarrow> Inr (st', k i)) = Inr (s2, p)
      \<and> log_inv r s2 \<and> log_guar H s1 s2 \<and> ready r H s2 p"
    by (auto simp: rely_on_def)
qed

lemma ready_make_File:
  assumes H: "under r H 3"
    and k: "\<And>s1 i. log_inv r s1 \<Longrightarrow> log_rely st s1 \<Longrightarrow> appenders s1 i \<noteq> None \<Longrightarrow> ready r H s1 (k i)"
  shows "ready r H st (make_File_prog uninit filename k)"
  unfolding make_File_prog_def
proof (rule ready_Do)
  fix s1
  let ?a = "new_appender (FileLogAppender
    \<lparr>m_filename = filename, m_filestream = closed_stream, m_lastTime = uninit\<rparr>)"
  assume s1: "log_inv r s1" "log_rely st s1"
  obtain i s2 where make: "alloc_appender ?a s1 = (i, s2)" by fastforce
  with alloc_appender_keeps [OF s1(1) make]
  have s2: "log_inv r s2" "log_guar H s1 s2" "appenders s2 i \<noteq> None" by auto
  moreover have "ready r H s2 (reopen_prog i (k i))"
    by (rule ready_reopen [OF s2(3) H], rule k)
      (use s1(2) s2 log_rely_trans in \<open>auto simp: rely_on_def\<close>)
  ultimately show "\<exists>s2 p. (case alloc_appender ?a s1 of (i, st') \<Rightarrow> Inr (st', reopen_prog i (k i))) = Inr (s2, p)
      \<and> log_inv r s2 \<and> log_guar H s1 s2 \<and> ready r H s2 p"
    using make by auto
qed

lemma getLogger_frame:
  assumes "getLogger name st = (l, st')"
  shows "mgr_root st' = mgr_root st \<and> appenders st' = appenders st
    \<and> (\<forall>k. k \<noteq> l \<longrightarrow> loggers st' k = loggers st k)
    \<and> (loggers st' l = loggers st l \<or> loggers st' l = Some ((Logger_init name)\<lparr>lg_root := Some (mgr_root st)\<rparr>))"
  using assms by (auto simp: getLogger_def new_Logger_def split: option.splits)

lemma getLogger_keeps:
  assumes inv: "log_inv r st" and get: "getLogger name st = (l, st')" and H: "Manager_lock \<in> set H"
  shows "log_inv r st' \<and> log_guar H st st' \<and> loggers st' l \<noteq> None"
proof -
  note ok = getLogger_ok [OF log_invD(1) [OF inv] get]
  note frame = getLogger_frame [OF get]
  have l: "map_of (mgr_loggers st') name = Some l" using ok by simp
  then have entry: "entry_ok st' name l" using ok mgr_okD(4) by blast
  have old: "map_of (mgr_loggers st') n = Some k" if "map_of (mgr_loggers st) n = Some k" for n k
  proof (cases "n = name")
    case True
    with that get show ?thesis by (simp add: getLogger_def)
  next
    case False
    with that ok show ?thesis by simp
  qed
  have roots: "lg_root g = None \<or> lg_root g = Some r \<and> k \<noteq> r" if "loggers st' k = Some g" for k g
  proof (cases "loggers st k = Some g")
    case True
    with log_invD(4) [OF inv] show ?thesis by blast
  next
    case False
    then have k: "k = l" using frame that by metis
    with False that frame have g: "lg_root g = Some (mgr_root st)" by auto
    obtain h where "loggers st r = Some h" "lg_root h = None" using log_inv_root [OF inv] by blast
    with g k ok that log_invD(3) [OF inv] show ?thesis by fastforce
  qed
  have "log_inv r st'" using ok roots frame log_invD(3) [OF inv] by (auto simp: log_inv_def)
  moreover have "log_rely st st'"
    unfolding log_rely_def formatted_def using ok frame old by simp
  then have "log_guar H st st'" by (rule log_guarI) (use H ok frame in auto)
  ultimately show ?thesis using entry by (auto simp: entry_ok_def)
qed

lemma ready_getLogger:
  assumes H: "H = []"
    and k: "\<And>s1 l. log_inv r s1 \<Longrightarrow> log_rely st s1 \<Longrightarrow> loggers s1 l \<noteq> None \<Longrightarrow> ready r H s1 (k l)"
  shows "ready r H st (getLogger_prog name k)"
  unfolding getLogger_prog_def
proof (rule ready_Acquire, use H in simp, rule ready_Do)
  fix s1
  assume s1: "log_inv r s1" "log_rely st s1"
  obtain l s2 where get: "getLogger name s1 = (l, s2)" by fastforce
  from getLogger_keeps [OF s1(1) get, of "Manager_lock # H"]
  have s2: "log_inv r s2" "log_guar (Manager_lock # H) s1 s2" "loggers s2 l \<noteq> None" by auto
  with s1(2) log_rely_trans k have "ready r H s2 (k l)" by (auto simp: rely_on_def)
  with get s2 H show "\<exists>s2 p. (case getLogger name s1 of (l, st') \<Rightarrow> Inr (st', Release Manager_lock (k l))) = Inr (s2, p)
      \<and> log_inv r s2 \<and> log_guar (Manager_lock # H) s1 s2 \<and> ready r (Manager_lock # H) s2 p"
    by (auto intro: ready_Release)
qed

lemma ready_getRoot:
  assumes "\<And>s1 l. log_inv r s1 \<Longrightarrow> log_rely st s1 \<Longrightarrow> loggers s1 l \<noteq> None \<Longrightarrow> ready r H s1 (k l)"
  shows "ready r H st (getRoot_prog k)"
  unfolding getRoot_prog_def
proof (rule ready_Do)
  fix s1
  assume s1: "log_inv r s1" "log_rely st s1"
  have "loggers s1 (mgr_root s1) \<noteq> None"
    using mgr_root_logger [OF log_invD(1) [OF s1(1)]] by blast
  with assms s1 log_rg.rely_refl
  show "\<exists>s2 p. Inr (s1, k (mgr_root s1)) = Inr (s2, p)
      \<and> log_inv r s2 \<and> log_guar H s1 s2 \<and> ready r H s2 p" by auto
qed

text \<open>A reference that leads to a logger: a pointer to one, or the manager's macros.\<close>

fun ref_ok :: "log_state \<Rightarrow> log_ref \<Rightarrow> bool" where
  "ref_ok st (Pointer l) \<longleftrightarrow> loggers st l \<noteq> None"
| "ref_ok st CHORD_LOG_ROOT \<longleftrightarrow> True"
| "ref_ok st (CHORD_LOG_NAME name) \<longleftrightarrow> True"

lemma ref_ok_later: "ref_ok st ref \<Longrightarrow> log_rely st st' \<Longrightarrow> ref_ok st' ref"
  using log_relyD(1) by (cases ref) auto

lemma ready_with_logger:
  assumes "ref_ok st ref" and "log_inv r st"
    and "\<And>s1 l. log_inv r s1 \<Longrightarrow> log_rely st s1 \<Longrightarrow> loggers s1 l \<noteq> None \<Longrightarrow> ready r [] s1 (k l)"
  shows "ready r [] st (with_logger ref k)"
  using assms by (cases ref) (auto intro: ready_getLogger ready_getRoot)

section \<open>Changing loggers and appenders\<close>

lemma log_inv_formatter: "log_inv r st \<Longrightarrow> loggers st l = Some g \<Longrightarrow> lg_formatter g \<noteq> None"
  by (drule log_invD(2), drule (1) store_okD(2)) (simp add: logger_ok_def)

lemma ready_act_then:
  assumes "\<And>s1. log_inv r s1 \<Longrightarrow> log_rely st s1 \<Longrightarrow> keeps r H s1 (f s1)"
    and "\<And>s1 s2. log_inv r s1 \<Longrightarrow> log_rely st s1 \<Longrightarrow> f s1 = Inr s2 \<Longrightarrow> log_inv r s2 \<Longrightarrow>
      log_rely st s2 \<Longrightarrow> ready r H s2 k"
  shows "ready r H st (act f k)"
  unfolding act_def
proof (rule ready_Do)
  fix s1
  assume s1: "log_inv r s1" "log_rely st s1"
  from assms(1) [OF s1] obtain s2 where s2: "f s1 = Inr s2" "log_inv r s2" "log_guar H s1 s2"
    by (auto simp: keeps_def)
  then have "log_rely st s2" using s1(2) log_rely_trans by (auto simp: rely_on_def)
  with s2 assms(2) [OF s1 s2(1,2)]
  show "\<exists>s2 p. sum_bind (f s1) (\<lambda>st'. Inr (st', k)) = Inr (s2, p) \<and> log_inv r s2
      \<and> log_guar H s1 s2 \<and> ready r H s2 p" by simp
qed

lemma ready_setLevel:
  assumes "ready r H st k"
  shows "loggers st l \<noteq> None \<Longrightarrow> ready r H st (act (Logger_setLevel l v) k)"
    and "appenders st i \<noteq> None \<Longrightarrow> ready r H st (act (appender_setLevel i v) k)"
proof -
  assume l: "loggers st l \<noteq> None"
  show "ready r H st (act (Logger_setLevel l v) k)"
  proof (rule ready_act [OF assms])
    fix s1
    assume s1: "log_inv r s1" "log_rely st s1"
    from log_relyD(1) [OF s1(2) l] obtain g where g: "loggers s1 l = Some g" by blast
    then show "keeps r H s1 (Logger_setLevel l v s1)"
      unfolding Logger_setLevel_def
      by (rule keeps_upd_logger [OF s1(1)])
        (use log_inv_formatted [OF s1(1) g] log_inv_formatter [OF s1(1) g] in auto)
  qed
next
  assume i: "appenders st i \<noteq> None"
  show "ready r H st (act (appender_setLevel i v) k)"
  proof (rule ready_act [OF assms])
    fix s1
    assume s1: "log_inv r s1" "log_rely st s1"
    from log_relyD(2) [OF s1(2) i] obtain a where "appenders s1 i = Some a" by blast
    then show "keeps r H s1 (appender_setLevel i v s1)"
      unfolding appender_setLevel_def
      by (rule keeps_upd_appender [OF s1(1)]) (simp_all add: stream_of_def)
  qed
qed

lemma ready_appender_setFormatter:
  assumes i: "appenders st i \<noteq> None" and H: "under r H 3" and k: "ready r H st k"
  shows "ready r H st (appender_setFormatter_prog i (Some f) k)"
  unfolding appender_setFormatter_prog_def
proof (rule ready_scope [OF _ k], use H in simp, erule ready_act)
  fix s1
  assume s1: "log_inv r s1" "log_rely st s1"
  from log_relyD(2) [OF s1(2) i] obtain a where "appenders s1 i = Some a" by blast
  then show "keeps r (Appender_lock i # H) s1 (appender_setFormatter i (Some f) s1)"
    unfolding appender_setFormatter_def
    by (rule keeps_upd_appender [OF s1(1)]) (simp_all add: LogAppender_setFormatter_def Let_def)
qed

lemma ready_appender_getFormatter:
  assumes i: "appenders st i \<noteq> None" and H: "under r H 3"
    and k: "\<And>s1 a. log_inv r s1 \<Longrightarrow> log_rely st s1 \<Longrightarrow> appenders s1 i = Some a \<Longrightarrow>
      ready r H s1 (k (ap_formatter a))"
  shows "ready r H st (appender_getFormatter_prog i k)"
  unfolding appender_getFormatter_prog_def
  by (rule ready_Acquire, use H in simp, rule ready_look_appender [OF i], rule ready_Release)
    (use k H in auto)

lemma ready_Logger_setFormatter:
  assumes l: "loggers st l \<noteq> None" and k: "ready r [] st k"
  shows "ready r [] st (Logger_setFormatter_prog l (Some f) k)"
  unfolding Logger_setFormatter_prog_def
proof (rule ready_scope [OF _ k], simp, rule ready_act, rule ready_look_logger [OF l])
  fix k' s1 g
  assume k': "ready r [Logger_lock l] st k'"
    and s1: "log_inv r s1" "log_rely st s1" "loggers s1 l = Some g"
  show "ready r [Logger_lock l] s1 (foldr (\<lambda>i k. Acquire (Appender_lock i)
      (act (upd_appender i (pass_formatter (lg_formatter g))) (Release (Appender_lock i) k)))
    (lg_appenders g) k')"
  proof (rule ready_foldr [OF _ ready_later [OF k' s1(2)] s1(1)])
    fix i s2 k2
    assume i: "i \<in> set (lg_appenders g)" and s2: "log_rely s1 s2" and k2: "ready r [Logger_lock l] s2 k2"
    show "ready r [Logger_lock l] s2 (Acquire (Appender_lock i)
      (act (upd_appender i (pass_formatter (lg_formatter g))) (Release (Appender_lock i) k2)))"
    proof (rule ready_scope [OF _ k2], simp, erule ready_act)
      fix s3
      assume s3: "log_inv r s3" "log_rely s2 s3"
      have "formatted s3 i"
        using log_inv_formatted [OF s1(1,3) i] log_relyD(3) s2 s3(2) by blast
      then obtain a where "appenders s3 i = Some a" by (auto simp: formatted_def)
      then show "keeps r [Appender_lock i, Logger_lock l] s3
          (upd_appender i (pass_formatter (lg_formatter g)) s3)"
        by (rule keeps_upd_appender [OF s3(1)])
          (use log_inv_formatter [OF s1(1,3)] in \<open>auto simp: pass_formatter_def\<close>)
    qed
  qed
next
  fix s1
  assume s1: "log_inv r s1" "log_rely st s1"
  from log_relyD(1) [OF s1(2) l] obtain g where g: "loggers s1 l = Some g" by blast
  then show "keeps r [Logger_lock l] s1 (upd_logger l (\<lambda>g. g\<lparr>lg_formatter := Some f\<rparr>) s1)"
    by (rule keeps_upd_logger [OF s1(1)]) (use log_inv_formatted [OF s1(1) g] in auto)
qed

lemma ready_Logger_getFormatter:
  assumes l: "loggers st l \<noteq> None" and k: "\<And>f. ready r [] st (k f)"
  shows "ready r [] st (Logger_getFormatter_prog l k)"
  unfolding Logger_getFormatter_prog_def
  by (rule ready_Acquire, simp, rule ready_look_logger [OF l], rule ready_Release)
    (use ready_later [OF k] in auto)

lemma ready_Logger_setFormatter_str:
  assumes l: "loggers st l \<noteq> None" and k: "ready r [] st k"
  shows "ready r [] st (Logger_setFormatter_str_prog l p k)"
  unfolding Logger_setFormatter_str_prog_def
proof (rule ready_Do)
  fix s1
  assume s1: "log_inv r s1" "log_rely st s1"
  from log_relyD(1) [OF s1(2) l] obtain g where g: "loggers s1 l = Some g" by blast
  have print: "log_inv r (print_st s s2) \<and> log_guar [] s2 (print_st s s2)"
    if "log_inv r s2" for s s2
    using keeps_print [OF that, of "[]" s] by (simp add: keeps_def)
  obtain f msg where f: "new_LogFormatter p = (f, msg)" by fastforce
  note p1 = print [OF s1(1), of msg]
  then have rely1: "log_rely st (print_st msg s1)"
    using s1(2) log_rely_trans by (auto simp: rely_on_def)
  show "\<exists>s2 q. (case loggers s1 l of None \<Rightarrow> Inl Null_deref
      | Some g \<Rightarrow> (case new_LogFormatter p of (new_val, out) \<Rightarrow>
          if m_error new_val then
            Inr (print_st (''Logger setFormatter name='' @ lg_name g @ ''value='' @ p
              @ '' invalid formatter'' @ newline) (print_st out s1), k)
          else Inr (print_st out s1, Logger_setFormatter_prog l (Some new_val) k))) = Inr (s2, q)
    \<and> log_inv r s2 \<and> log_guar [] s1 s2 \<and> ready r [] s2 q"
  proof (cases "m_error f")
    case True
    let ?line = "''Logger setFormatter name='' @ lg_name g @ ''value='' @ p @ '' invalid formatter'' @ newline"
    note p2 = print [OF conjunct1 [OF p1], of ?line]
    have "log_rely st (print_st ?line (print_st msg s1))"
      using p2 rely1 log_rely_trans unfolding rely_on_def by blast
    with True g f conjunct1 [OF p2] log_rg.rely_trans [OF conjunct2 [OF p1] conjunct2 [OF p2]]
      ready_later [OF k]
    show ?thesis by (simp del: print_st_print)
  next
    case False
    have "loggers (print_st msg s1) l \<noteq> None" using g by simp
    from ready_Logger_setFormatter [OF this ready_later [OF k rely1], of f] False g f p1
    show ?thesis by simp
  qed
qed

lemma ready_addAppender:
  assumes l: "loggers st l \<noteq> None" and i: "appenders st i \<noteq> None" and k: "ready r [] st k"
  shows "ready r [] st (Logger_addAppender_prog l (Some i) k)"
proof -
  let ?push = "\<lambda>k. act (upd_logger l (\<lambda>g. g\<lparr>lg_appenders := lg_appenders g @ [i]\<rparr>)) k"
  have push: "ready r [Logger_lock l] s1 (?push k')"
    if k': "ready r [Logger_lock l] s1 k'" and s1: "log_rely st s1" "formatted s1 i" for s1 k'
  proof (rule ready_act [OF k'])
    fix s2
    assume s2: "log_inv r s2" "log_rely s1 s2"
    from log_relyD(1) [OF log_rely_trans [OF s1(1) s2(2)] l] obtain g where g: "loggers s2 l = Some g"
      by blast
    then show "keeps r [Logger_lock l] s2 (upd_logger l (\<lambda>g. g\<lparr>lg_appenders := lg_appenders g @ [i]\<rparr>) s2)"
      by (rule keeps_upd_logger [OF s2(1)])
        (use log_inv_formatted [OF s2(1) g] log_inv_formatter [OF s2(1) g]
          log_relyD(3) [OF s2(2) s1(2)] in auto)
  qed
  let ?fill = "\<lambda>k. Acquire (Appender_lock i) (look_logger l (\<lambda>g.
    act (upd_appender i (\<lambda>a. a\<lparr>ap_formatter := lg_formatter g\<rparr>)) (Release (Appender_lock i) (?push k))))"
  have fill: "ready r [Logger_lock l] s1 (?fill k')"
    if k': "ready r [Logger_lock l] s1 k'" and s1: "log_rely st s1" for s1 k'
  proof (rule ready_Acquire, simp, rule ready_look_logger [OF log_relyD(1) [OF s1 l]])
    fix s2 g
    assume s2: "log_inv r s2" "log_rely s1 s2" "loggers s2 l = Some g"
    have upd: "keeps r [Appender_lock i, Logger_lock l] s3 (upd_appender i (\<lambda>a. a\<lparr>ap_formatter := lg_formatter g\<rparr>) s3)"
      if s3: "log_inv r s3" "log_rely s2 s3" for s3
    proof -
      from log_relyD(2) [OF log_rely_trans [OF log_rely_trans [OF s1 s2(2)] s3(2)] i] obtain a
        where "appenders s3 i = Some a" by blast
      then show ?thesis
        by (rule keeps_upd_appender [OF s3(1)]) (use log_inv_formatter [OF s2(1,3)] in auto)
    qed
    show "ready r [Appender_lock i, Logger_lock l] s2
      (act (upd_appender i (\<lambda>a. a\<lparr>ap_formatter := lg_formatter g\<rparr>)) (Release (Appender_lock i) (?push k')))"
    proof (rule ready_act_then [OF upd], assumption, assumption, rule ready_Release, rule push)
      fix s3 s4
      assume s4: "upd_appender i (\<lambda>a. a\<lparr>ap_formatter := lg_formatter g\<rparr>) s3 = Inr s4"
        "log_rely s2 s4"
      show "log_rely st s4" using s1 s2(2) s4(2) log_rely_trans by blast
      show "formatted s4 i"
        using s4(1) log_inv_formatter [OF s2(1,3)]
        by (auto simp: upd_appender_def formatted_def split: option.splits)
      show "ready r [Logger_lock l] s4 k'" using ready_later [OF k'] s2(2) s4(2) log_rely_trans by blast
    qed simp
  qed
  have "ready r [] st (Acquire (Logger_lock l) (appender_getFormatter_prog i (\<lambda>f.
      if f = None then ?fill (Release (Logger_lock l) k) else ?push (Release (Logger_lock l) k))))"
  proof (rule ready_scope [OF _ k], simp, rule ready_appender_getFormatter [OF i], simp)
    fix k' s1 a
    assume k': "ready r [Logger_lock l] st k'"
      and s1: "log_rely st s1" "appenders s1 i = Some a"
    show "ready r [Logger_lock l] s1 (if ap_formatter a = None then ?fill k' else ?push k')"
      using push [OF ready_later [OF k' s1(1)] s1(1)] fill [OF ready_later [OF k' s1(1)] s1(1)] s1(2)
      by (simp add: formatted_def)
  qed
  then show ?thesis by (simp add: Logger_addAppender_prog_def Let_def)
qed

lemma ready_appenders:
  assumes l: "loggers st l \<noteq> None" and k: "ready r [] st k"
  shows "ready r [] st (Logger_clearAppenders_prog l k)"
    and "ready r [] st (Logger_delAppender_prog l i k)"
proof -
  have drop: "ready r [] st (Acquire (Logger_lock l) (act (upd_logger l f) (Release (Logger_lock l) k)))"
    if f: "\<And>g. lg_name (f g) = lg_name g \<and> lg_root (f g) = lg_root g \<and> lg_formatter (f g) = lg_formatter g
      \<and> set (lg_appenders (f g)) \<subseteq> set (lg_appenders g)" for f
  proof (rule ready_scope [OF _ k], simp, erule ready_act)
    fix s1
    assume s1: "log_inv r s1" "log_rely st s1"
    from log_relyD(1) [OF s1(2) l] obtain g where g: "loggers s1 l = Some g" by blast
    then show "keeps r [Logger_lock l] s1 (upd_logger l f s1)"
      by (rule keeps_upd_logger [OF s1(1)])
        (use f [of g] log_inv_formatted [OF s1(1) g] log_inv_formatter [OF s1(1) g] in auto)
  qed
  show "ready r [] st (Logger_clearAppenders_prog l k)"
    unfolding Logger_clearAppenders_prog_def Logger_clearAppenders_def by (rule drop) simp
  show "ready r [] st (Logger_delAppender_prog l i k)"
    unfolding Logger_delAppender_prog_def Logger_delAppender_def
    by (rule drop) (simp add: set_erase_first)
qed

end
