(* ===== verification/Concurrent_Logging.thy ===== *)
theory Concurrent_Logging
  imports Log_Lock_Order
begin

text \<open>
  Any number of threads that log, reconfigure and dump the loggers: every interleaving ends,
  without deadlock or crash, under the manager's invariant, and every thread on its own computes
  what the operations without locks compute.
\<close>

section \<open>The macro, the listener and the dump\<close>

lemma ready_CHORD_LOG_LEVEL:
  assumes ref: "ref_ok st ref" and inv: "log_inv r st" and k: "ready r [] st k"
  shows "ready r [] st (CHORD_LOG_LEVEL_prog env site ref level text k)"
  unfolding CHORD_LOG_LEVEL_prog_def
proof (rule ready_with_logger [OF ref inv], rule ready_look_logger)
  fix s1 l s2 g
  assume s: "log_rely st s1" "log_inv r s2" "log_rely s1 s2"
  have st2: "log_rely st s2" using s(1,3) log_rely_trans by blast
  have "ready r [] s2 (with_logger ref (\<lambda>l. Logger_log_prog log_fuel env l level
      (site_event site l level\<lparr>ev_ss := text\<rparr>) k))"
  proof (rule ready_with_logger [OF ref_ok_later [OF ref st2] s(2)])
    fix s3 l'
    assume "log_rely s2 s3" "loggers s3 l' \<noteq> None"
    then show "ready r [] s3 (Logger_log_prog log_fuel env l' level
        (site_event site l' level\<lparr>ev_ss := text\<rparr>) k)"
      by (intro ready_log) (use ready_later [OF k] st2 log_rely_trans in
        \<open>auto simp: site_event_def new_LogEvent_def\<close>)
  qed
  then show "ready r [] s2 (if lg_level g \<le> level then with_logger ref (\<lambda>l. Logger_log_prog log_fuel env l
      level (site_event site l level\<lparr>ev_ss := text\<rparr>) k) else k)"
    using ready_later [OF k st2] by simp
qed

lemma ready_print:
  "ready r H st k \<Longrightarrow> ready r H st (act (\<lambda>st. Inr (print_st s st)) k)"
  by (rule ready_act) (auto intro: keeps_print)

lemma keeps_print_line:
  "log_inv r st \<Longrightarrow> log_inv r (print_st s st) \<and> log_guar [] st (print_st s st) \<and> log_rely st (print_st s st)"
  using keeps_print [of r st "[]" s] by (auto simp: keeps_def rely_on_def)

lemma ready_set_defined_formatter:
  assumes i: "appenders st i \<noteq> None" and k: "ready r [] st k"
  shows "ready r [] st (set_defined_formatter_prog name a i k)"
proof (cases "lad_formatter a = []")
  case False
  obtain f msg where f: "new_LogFormatter (lad_formatter a) = (f, msg)" by fastforce
  let ?line = "''log name='' @ name @ ''appender type='' @ dec_nat (lad_type a) @ ''formatter''
    @ lad_formatter a @ ''invalid'' @ newline"
  have "ready r [] st (Do (\<lambda>st. case new_LogFormatter (lad_formatter a) of
     (fmt, out) \<Rightarrow>
       if \<not> m_error fmt then Inr (print_st out st, appender_setFormatter_prog i (Some fmt) k)
       else Inr (print_st ?line (print_st out st), k)))"
  proof (rule ready_Do)
    fix s1
    assume s1: "log_inv r s1" "log_rely st s1"
    note p1 = keeps_print_line [OF s1(1), of msg]
    note p2 = keeps_print_line [OF conjunct1 [OF p1], of ?line]
    have st1: "log_rely st (print_st msg s1)" "log_rely st (print_st ?line (print_st msg s1))"
      using p1 p2 s1(2) log_rely_trans by blast+
    have "ready r [] (print_st msg s1) (appender_setFormatter_prog i (Some f) k)"
      by (rule ready_appender_setFormatter [OF log_relyD(2) [OF st1(1) i] _ ready_later [OF k st1(1)]]) simp
    with f p1 p2 log_rg.rely_trans [of "- set []", OF conjunct1 [OF conjunct2 [OF p1]] conjunct1 [OF conjunct2 [OF p2]]]
      ready_later [OF k st1(2)]
    show "\<exists>s2 p. (case new_LogFormatter (lad_formatter a) of
       (fmt, out) \<Rightarrow>
         if \<not> m_error fmt then Inr (print_st out s1, appender_setFormatter_prog i (Some fmt) k)
         else Inr (print_st ?line (print_st out s1), k)) = Inr (s2, p)
      \<and> log_inv r s2 \<and> log_guar [] s1 s2 \<and> ready r [] s2 p"
      by (cases "m_error f") (simp_all del: print_st_print)
  qed
  with False show ?thesis by (simp add: set_defined_formatter_prog_def)
qed (simp add: set_defined_formatter_prog_def k)

lemma ready_add_defined:
  assumes l: "loggers st l \<noteq> None" and a: "known_type a" and k: "ready r [] st k"
  shows "ready r [] st (add_defined_prog uninit name l a k)"
proof -
  have configure: "ready r [] s1 (act (appender_setLevel i (lad_level a))
      (set_defined_formatter_prog name a i (Logger_addAppender_prog l (Some i) k)))"
    if s1: "log_rely st s1" "appenders s1 i \<noteq> None" for s1 i
    by (intro ready_setLevel(2) ready_set_defined_formatter ready_addAppender)
      (use s1 log_relyD(1) [OF s1(1) l] ready_later [OF k s1(1)] in auto)
  show ?thesis
    unfolding add_defined_prog_def Let_def
    using a configure by (auto simp: known_type_def intro!: ready_make_File ready_make_StdOut)
qed

lemma ready_configure_logger:
  assumes inv: "log_inv r st" and l: "loggers st l \<noteq> None" and d: "\<forall>a \<in> set (ld_appenders d). known_type a"
    and k: "ready r [] st k"
  shows "ready r [] st (configure_logger_prog uninit d l k)"
proof -
  have "ready r [] st (foldr (add_defined_prog uninit (ld_name d) l) (ld_appenders d) k)"
    by (rule ready_foldr [OF ready_add_defined k inv])
      (use l d log_relyD(1) in auto)
  from ready_appenders(1) [OF l this] show ?thesis
    unfolding configure_logger_prog_def Let_def
    by (intro ready_setLevel(1)) (use l ready_Logger_setFormatter_str [OF l] in auto)
qed

lemma ready_apply_define:
  assumes inv: "log_inv r st" and d: "\<not> fatal_define old_value d" and k: "ready r [] st k"
  shows "ready r [] st (apply_define_prog uninit old_value d k)"
proof -
  have "ready r [] st (getLogger_prog (ld_name d) (\<lambda>l. configure_logger_prog uninit d l k))"
    by (rule ready_getLogger [OF HOL.refl], rule ready_configure_logger)
      (use d ready_later [OF k] in \<open>auto simp: fatal_define_def\<close>)
  with d show ?thesis by (auto simp: apply_define_prog_def fatal_define_def split: option.split)
qed

lemma ready_retire_define:
  assumes k: "ready r [] st k"
  shows "ready r [] st (retire_define_prog new_value d k)"
proof -
  have "ready r [] st (getLogger_prog (ld_name d) (\<lambda>l.
      act (Logger_setLevel l too_high) (Logger_clearAppenders_prog l k)))"
    by (rule ready_getLogger [OF HOL.refl], rule ready_setLevel, rule ready_appenders)
      (use ready_later [OF k] in auto)
  with k show ?thesis by (auto simp: retire_define_prog_def split: option.split)
qed

lemma ready_conf_listener:
  assumes inv: "log_inv r st" and new: "\<forall>d \<in> set new_value. \<not> fatal_define old_value d"
    and k: "ready r [] st k"
  shows "ready r [] st (conf_listener_prog env site uninit old_value new_value k)"
  unfolding conf_listener_prog_def
proof (rule ready_CHORD_LOG_LEVEL [OF _ inv])
  have retire: "ready r [] st (foldr (retire_define_prog new_value) old_value k)"
    by (rule ready_foldr [OF ready_retire_define k inv])
  show "ready r [] st (foldr (apply_define_prog uninit old_value) new_value
      (foldr (retire_define_prog new_value) old_value k))"
    by (rule ready_foldr [OF ready_apply_define retire inv]) (use new in auto)
qed simp

lemma ready_dump_appenders:
  assumes "\<forall>i \<in> set is. appenders st i \<noteq> None" and "under r H 3" and "\<And>x. ready r H st (k x)"
  shows "ready r H st (dump_appenders_prog Y is node k)"
  using assms
proof (induction "is" arbitrary: node st)
  case (Cons i "is")
  have "ready r H st (appender_toYamlString_prog Y i (\<lambda>txt.
      case y_Load Y txt of Inl e \<Rightarrow> k (Inl e)
      | Inr v \<Rightarrow> dump_appenders_prog Y is (node_put ''appenders'' (node_push v
          (case map_of (node_entries node) (YScalar ''appenders'') of None \<Rightarrow> YNull | Some m \<Rightarrow> m)) node) k))"
    unfolding appender_toYamlString_prog_def
  proof (rule ready_Acquire, use Cons.prems(2) in simp, rule ready_look_appender, use Cons.prems(1) in simp,
      rule ready_Release)
    fix s1 a
    assume s1: "log_rely st s1"
    have "ready r H s1 (dump_appenders_prog Y is n k)" for n
      by (rule Cons.IH) (use Cons.prems log_relyD(2) [OF s1] ready_later [OF Cons.prems(3) s1] in auto)
    with ready_later [OF Cons.prems(3) s1]
    show "ready r H s1 (case y_Load Y (appender_toYamlString Y a) of Inl e \<Rightarrow> k (Inl e)
      | Inr v \<Rightarrow> dump_appenders_prog Y is (node_put ''appenders'' (node_push v
          (case map_of (node_entries node) (YScalar ''appenders'') of None \<Rightarrow> YNull | Some m \<Rightarrow> m)) node) k)"
      by (simp split: sum.split)
  qed (use Cons.prems(2) in auto)
  then show ?case by simp
qed simp

lemma ready_Logger_toYamlString:
  assumes l: "loggers st l \<noteq> None" and H: "under r H 1" and k: "\<And>s1 x. log_rely st s1 \<Longrightarrow> ready r H s1 (k x)"
  shows "ready r H st (Logger_toYamlString_prog Y l k)"
  unfolding Logger_toYamlString_prog_def
proof (rule ready_Acquire, use H in force, rule ready_look_logger [OF l], rule ready_dump_appenders)
  fix s1 g
  assume s1: "log_inv r s1" "log_rely st s1" "loggers s1 l = Some g"
  show "\<forall>i \<in> set (lg_appenders g). appenders s1 i \<noteq> None"
    using log_inv_formatted [OF s1(1,3)] by (auto simp: formatted_def)
  show "under r (Logger_lock l # H) 3" using H by auto
  show "ready r (Logger_lock l # H) s1 (Release (Logger_lock l) (k (map_sum id (y_emit Y) x)))" for x
    by (rule ready_Release [OF k [OF s1(2)]]) (use underD [OF H, of "Logger_lock l"] in simp)
qed

lemma ready_dump_loggers:
  assumes "\<forall>l \<in> set ls. loggers st l \<noteq> None" and "under r H 1"
    and "\<And>s1 x. log_rely st s1 \<Longrightarrow> ready r H s1 (k x)"
  shows "ready r H st (dump_loggers_prog Y ls node k)"
  using assms
proof (induction ls arbitrary: node st)
  case (Cons l ls)
  have "ready r H st (Logger_toYamlString_prog Y l (\<lambda>x.
      case sum_bind x (y_Load Y) of Inl e \<Rightarrow> k (Inl e)
      | Inr v \<Rightarrow> dump_loggers_prog Y ls (node_push v node) k))"
  proof (rule ready_Logger_toYamlString)
    fix s1 x
    assume s1: "log_rely st s1"
    have "ready r H s1 (dump_loggers_prog Y ls n k)" for n
      by (rule Cons.IH) (use Cons.prems log_relyD(1) [OF s1] log_rely_trans [OF s1] in auto)
    with Cons.prems(3) [OF s1] show "ready r H s1 (case sum_bind x (y_Load Y) of Inl e \<Rightarrow> k (Inl e)
      | Inr v \<Rightarrow> dump_loggers_prog Y ls (node_push v node) k)" by (simp split: sum.split)
  qed (use Cons.prems in auto)
  then show ?case by simp
qed simp

lemma ready_LoggerManager_toYamlString:
  assumes k: "\<And>x. ready r [] st (k x)"
  shows "ready r [] st (LoggerManager_toYamlString_prog Y k)"
  unfolding LoggerManager_toYamlString_prog_def
proof (rule ready_Acquire, simp, rule ready_Do)
  fix s1
  assume s1: "log_inv r s1" "log_rely st s1"
  have "\<forall>l \<in> set (map snd (mgr_loggers s1)). loggers s1 l \<noteq> None"
  proof
    fix l
    assume "l \<in> set (map snd (mgr_loggers s1))"
    then obtain n where "(n, l) \<in> set (mgr_loggers s1)" by auto
    with map_of_smap_iff [OF mgr_okD(2) [OF log_invD(1) [OF s1(1)]]]
    have "map_of (mgr_loggers s1) n = Some l" by simp
    from mgr_okD(4) [OF log_invD(1) [OF s1(1)] this] show "loggers s1 l \<noteq> None"
      by (auto simp: entry_ok_def)
  qed
  then have "ready r [Manager_lock] s1 (dump_loggers_prog Y (map snd (mgr_loggers s1)) YNull
      (\<lambda>x. Release Manager_lock (k (map_sum id (y_emit Y) x))))"
    by (rule ready_dump_loggers)
      (use ready_later [OF k] s1(2) log_rely_trans in \<open>auto intro!: ready_Release\<close>)
  with s1 log_rg.rely_refl
  show "\<exists>s2 p. Inr (s1, dump_loggers_prog Y (map snd (mgr_loggers s1)) YNull
      (\<lambda>r. Release Manager_lock (k (map_sum id (y_emit Y) r)))) = Inr (s2, p)
    \<and> log_inv r s2 \<and> log_guar [Manager_lock] s1 s2 \<and> ready r [Manager_lock] s2 p" by auto
qed

section \<open>Every call\<close>

text \<open>Pointers lead to objects, events carry a logger, a new configuration is one the listener survives.\<close>

fun call_ok :: "log_state \<Rightarrow> log_call \<Rightarrow> bool" where
  "call_ok st (Log env ref level ev) \<longleftrightarrow> ref_ok st ref \<and> ev_logger ev \<noteq> None"
| "call_ok st (Log_text env site ref level text) \<longleftrightarrow> ref_ok st ref"
| "call_ok st (Set_level ref v) \<longleftrightarrow> ref_ok st ref"
| "call_ok st (Set_formatter ref f) \<longleftrightarrow> ref_ok st ref"
| "call_ok st (Set_pattern ref p) \<longleftrightarrow> ref_ok st ref"
| "call_ok st (Get_formatter ref) \<longleftrightarrow> ref_ok st ref"
| "call_ok st (Add_appender ref i) \<longleftrightarrow> ref_ok st ref \<and> appenders st i \<noteq> None"
| "call_ok st (Add_new_stdout ref) \<longleftrightarrow> ref_ok st ref"
| "call_ok st (Add_new_file ref uninit filename) \<longleftrightarrow> ref_ok st ref"
| "call_ok st (Del_appender ref i) \<longleftrightarrow> ref_ok st ref"
| "call_ok st (Clear_appenders ref) \<longleftrightarrow> ref_ok st ref"
| "call_ok st (Appender_set_level i v) \<longleftrightarrow> appenders st i \<noteq> None"
| "call_ok st (Appender_set_formatter i f) \<longleftrightarrow> appenders st i \<noteq> None"
| "call_ok st (Appender_get_formatter i) \<longleftrightarrow> appenders st i \<noteq> None"
| "call_ok st (Configure env site uninit old_value new_value) \<longleftrightarrow>
     (\<forall>d \<in> set new_value. \<not> fatal_define old_value d)"
| "call_ok st (Print_dump Y) \<longleftrightarrow> True"

lemma call_ok_later: "call_ok st c \<Longrightarrow> log_rely st st' \<Longrightarrow> call_ok st' c"
  using ref_ok_later log_relyD(2) by (cases c) auto

lemma ready_call:
  assumes c: "call_ok st c" and inv: "log_inv r st" and k: "ready r [] st k"
  shows "ready r [] st (call_prog c k)"
proof -
  have on: "ready r [] st (with_logger ref p)"
    if "ref_ok st ref" "\<And>s1 l. log_inv r s1 \<Longrightarrow> log_rely st s1 \<Longrightarrow> loggers s1 l \<noteq> None \<Longrightarrow>
      ready r [] s1 k \<Longrightarrow> ready r [] s1 (p l)" for ref p
    using that ready_with_logger [OF that(1) inv] ready_later [OF k] by blast
  note k' = ready_later [OF k]
  show ?thesis
  proof (cases c)
    case (Add_appender ref i)
    with c log_relyD(2) show ?thesis by (auto intro!: on ready_addAppender)
  next
    case (Add_new_stdout ref)
    with c log_relyD(1) ready_later show ?thesis
      by (auto intro!: on ready_make_StdOut ready_addAppender)
  next
    case (Add_new_file ref uninit filename)
    with c log_relyD(1) ready_later show ?thesis
      by (auto intro!: on ready_make_File ready_addAppender)
  next
    case (Print_dump Y)
    then show ?thesis
      by (auto intro!: ready_LoggerManager_toYamlString ready_print k split: sum.split)
  next
    case (Appender_get_formatter i)
    with c k' show ?thesis by (auto intro!: ready_appender_getFormatter)
  qed (use c inv k ready_later [OF k] in
    \<open>auto intro!: on ready_log ready_CHORD_LOG_LEVEL ready_setLevel ready_Logger_setFormatter
      ready_Logger_setFormatter_str ready_Logger_getFormatter ready_appenders
      ready_appender_setFormatter ready_conf_listener\<close>)
qed

section \<open>The start\<close>

text \<open>Every root pointer a program can make leads to the manager's root.\<close>

definition roots_ok :: "log_state \<Rightarrow> bool" where
  "roots_ok st \<longleftrightarrow> (\<forall>l g r. loggers st l = Some g \<longrightarrow> lg_root g = Some r \<longrightarrow> r = mgr_root st)"

lemma roots_ok_same:
  "roots_ok st \<Longrightarrow> loggers st' = loggers st \<Longrightarrow> mgr_root st' = mgr_root st \<Longrightarrow> roots_ok st'"
  by (simp add: roots_ok_def)

lemma roots_ok_upd_logger:
  assumes "upd_logger l f st = Inr st'" and "roots_ok st" and "\<And>g. lg_root (f g) = lg_root g"
  shows "roots_ok st'"
  using assms by (auto simp: upd_logger_def roots_ok_def split: option.splits if_splits)

lemma upd_appender_loggers:
  "upd_appender i f st = Inr st' \<Longrightarrow> loggers st' = loggers st \<and> mgr_root st' = mgr_root st"
  by (auto simp: upd_appender_def split: option.splits)

lemma roots_ok_setFormatter:
  assumes "Logger_setFormatter l f st = Inr st'" and "roots_ok st"
  shows "roots_ok st'"
proof -
  obtain g where g: "loggers st l = Some g" and loop: "for_each (\<lambda>i. upd_appender i (pass_formatter f))
      (lg_appenders g) (st\<lparr>loggers := (loggers st)(l \<mapsto> g\<lparr>lg_formatter := f\<rparr>)\<rparr>) = Inr st'"
    using assms(1) by (auto simp: Logger_setFormatter_def split: option.splits)
  from loop show ?thesis
  proof (rule for_each_invariant [where I = roots_ok])
    show "roots_ok (st\<lparr>loggers := (loggers st)(l \<mapsto> g\<lparr>lg_formatter := f\<rparr>)\<rparr>)"
      using assms(2) g by (auto simp: roots_ok_def)
  qed (use upd_appender_loggers roots_ok_same in blast)
qed

lemma api_step_roots:
  assumes "api_step st st'" and "roots_ok st" and "mgr_ok st"
  shows "roots_ok st'"
  using assms(1)
proof cases
  case (get_logger name l)
  from getLogger_frame [OF this] assms(2) show ?thesis unfolding roots_ok_def
    by (metis Logger.select_convs(5) Logger.surjective Logger.update_convs(5) option.inject)
next
  case (log ev env l level)
  then obtain g where "loggers st l = Some g" by (cases "loggers st l") (simp_all add: Logger_log.simps)
  from Logger_log_ok [OF mgr_okD(1) [OF assms(3)] this log(1), of env level] log(2)
  have "log_frame st st'" by auto
  then show ?thesis using assms(2) roots_ok_same by (simp add: log_frame_def)
next
  case (logger_pattern l p)
  then show ?thesis using assms(2) roots_ok_same
    by (auto simp: Logger_setFormatter_str_def print_st_def split: option.splits prod.splits if_splits
        intro: roots_ok_setFormatter roots_ok_same)
next
  case (add l i)
  then show ?thesis using assms(2)
    by (auto simp: Logger_addAppender_def sum_bind_Inr_iff split: option.splits
        intro: roots_ok_upd_logger roots_ok_same dest!: upd_appender_loggers)
next
  case (logger_level l v)
  then show ?thesis using assms(2) by (auto simp: Logger_setLevel_def intro: roots_ok_upd_logger)
next
  case (logger_format l f)
  then show ?thesis using assms(2) by (rule roots_ok_setFormatter)
next
  case (clear l)
  then show ?thesis using assms(2) by (auto simp: Logger_clearAppenders_def intro: roots_ok_upd_logger)
next
  case (del l i)
  then show ?thesis using assms(2) by (auto simp: Logger_delAppender_def intro: roots_ok_upd_logger)
qed (use assms(2) in \<open>auto simp: new_Logger_def make_StdOutLogAppender_def make_FileLogAppender_def
    alloc_appender_def appender_setLevel_def appender_setFormatter_def roots_ok_def Logger_init_def
    dest!: upd_appender_loggers split: prod.splits if_splits\<close>)

lemma api_reachable_log_inv:
  assumes "api_reachable st"
  shows "log_inv (mgr_root st) st"
proof -
  have "roots_ok st \<and> mgr_ok st"
    using assms
  proof (induction rule: api_reachable.induct)
    case (start w st)
    then show ?case using new_LoggerManager_ok [OF start]
      by (auto simp: new_LoggerManager_eq roots_ok_def Logger_init_def split: if_splits)
  next
    case (step st st')
    then show ?case using api_step_roots api_step_ok by blast
  qed
  then have roots: "roots_ok st" and ok: "mgr_ok st" by simp_all
  obtain h where "loggers st (mgr_root st) = Some h" "lg_root h = None"
    using mgr_root_logger [OF ok] by blast
  moreover have "lg_root g = None \<or> lg_root g = Some (mgr_root st)" if "loggers st l = Some g" for l g
    using roots that by (cases "lg_root g") (auto simp: roots_ok_def)
  ultimately show ?thesis using ok unfolding log_inv_def by fastforce
qed

section \<open>Every interleaving\<close>

lemma ready_thread:
  assumes "log_inv r st" and "\<forall>c \<in> set cs. call_ok st c"
  shows "ready r [] st (thread_prog cs)"
  unfolding thread_prog_def
  by (rule ready_foldr [OF ready_call ready_Return assms(1)]) (use assms(2) call_ok_later in auto)

lemma log_system_ok:
  assumes inv: "log_inv r st" and "\<forall>cs \<in> set css. \<forall>c \<in> set cs. call_ok st c"
  shows "sys_ok (log_rank r) (log_inv r) log_rely log_data (log_system st css)"
  unfolding log_system_def
  by (rule sys_ok_start, rule inv)
    (use ready_thread [OF inv] assms(2) inv in \<open>auto simp: ready_def\<close>)

lemma log_system_reached:
  assumes "api_reachable st" and "\<forall>cs \<in> set css. \<forall>c \<in> set cs. call_ok st c"
    and "sys_step\<^sup>*\<^sup>* (log_system st css) S"
  shows "sys_ok (log_rank (mgr_root st)) (log_inv (mgr_root st)) log_rely log_data S
    \<and> log_rely st (sys_state S)"
  using log_rg.steps_ok [OF assms(3) log_system_ok [OF api_reachable_log_inv [OF assms(1)] assms(2)]]
  by (simp add: log_system_def new_system_def)

text \<open>
  C1: However many threads log, get loggers, change levels, formatters and appenders, reconfigure
  and dump the loggers, as long as each call is used as it is meant (its pointers lead to objects
  that exist at the start, formatters are not null, events carry a logger, and a reconfiguration
  brings only definitions that are new or changed and appenders of known types), and in whatever
  order their steps come: no thread crashes, as long as one
  has not ended some thread can go on (so none of the locks is ever waited for in a circle), no
  run goes on for ever, and the end, with every thread through and every lock free, is always in
  reach.
\<close>

theorem concurrent_logging_completes:
  assumes "api_reachable st" and "\<forall>cs \<in> set css. \<forall>c \<in> set cs. call_ok st c"
    and "sys_step\<^sup>*\<^sup>* (log_system st css) S"
  shows "\<not> sys_crashes S \<and> (sys_finished S \<or> (\<exists>S'. sys_step S S'))
    \<and> (\<exists>S'. sys_step\<^sup>*\<^sup>* S S' \<and> sys_finished S')
    \<and> (\<nexists>run. run 0 = S \<and> (\<forall>n. sys_step (run n) (run (Suc n))))"
  using log_rg.no_crash log_rg.progress log_rg.completes log_system_reached [OF assms] no_infinite_run
  by blast

text \<open>
  C14: In every interleaving of such threads, with calls used as they are meant, the store and the manager stay well-formed, a name
  that led to a logger leads to it for ever, loggers keep their names and roots, and an appender
  that had a formatter still has one, not necessarily the same.
\<close>

theorem concurrent_logging_invariant:
  assumes "api_reachable st" and "\<forall>cs \<in> set css. \<forall>c \<in> set cs. call_ok st c"
    and "sys_step\<^sup>*\<^sup>* (log_system st css) S"
  shows "mgr_ok (sys_state S) \<and> store_ok (sys_state S) \<and> mgr_root (sys_state S) = mgr_root st
    \<and> (\<forall>name l. find_logger st name = Some l \<longrightarrow> find_logger (sys_state S) name = Some l)
    \<and> (\<forall>l g. loggers st l = Some g \<longrightarrow> (\<exists>g'. loggers (sys_state S) l = Some g'
          \<and> lg_name g' = lg_name g \<and> lg_root g' = lg_root g))
    \<and> (\<forall>i. formatted st i \<longrightarrow> formatted (sys_state S) i)"
proof -
  note ok = log_system_reached [OF assms]
  note inv = log_rg.sys_ok_inv [OF conjunct1 [OF ok]]
  from ok log_invD(1-3) [OF inv] show ?thesis
    by (simp add: log_rely_def find_logger_def)
qed

text \<open>
  C12: The locks protect what they are meant to: a step of a thread that changes the map of the
  manager, the formatter or the list of appenders of a logger that was there before, or the formatter, the own-formatter
  flag or the file of an appender that was there before, is taken while the thread holds the lock
  of this manager, logger or appender. (Levels and \<open>m_lastTime\<close> are written without a lock.)
\<close>

theorem writes_hold_the_lock:
  assumes "api_reachable st" and "\<forall>cs \<in> set css. \<forall>c \<in> set cs. call_ok st c"
    and "sys_step\<^sup>*\<^sup>* (log_system st css) S" and "exec_step t S = Inr (Some S')"
    and "\<not> log_data l (sys_state S) (sys_state S')"
  shows "spin_holder (sys_locks S l) = Some t"
  using log_rg.step_ok [OF conjunct1 [OF log_system_reached [OF assms(1-3)]] assms(4)] assms(5)
  by (auto simp: rely_on_def holds_def)

section \<open>A thread on its own\<close>

lemma call_run:
  assumes inv: "log_inv r st" and c: "call_ok st c"
  shows "prog_run (call_prog c k) st = sum_bind (call_effect c st) (prog_run k)"
proof -
  have ref: "mgr_ok (snd (ref_logger ref st)) \<and> loggers (snd (ref_logger ref st)) (fst (ref_logger ref st)) \<noteq> None"
    if "ref_ok st ref" for ref
  proof (cases ref)
    case (CHORD_LOG_NAME name)
    with getLogger_keeps [OF inv, of name _ _ "[Manager_lock]"] log_invD(1)
    show ?thesis by (cases "getLogger name st") auto
  next
    case CHORD_LOG_ROOT
    with mgr_root_logger [OF log_invD(1) [OF inv]] log_invD(1) [OF inv] show ?thesis by auto
  qed (use that log_invD(1) [OF inv] in auto)
  show ?thesis
  proof (cases c)
    case (Log env rf level ev)
    with c ref [of rf] obtain l st' g where l: "ref_logger rf st = (l, st')" "loggers st' l = Some g"
      "mgr_ok st'" by (cases "ref_logger rf st") auto
    from Logger_log_run [OF mgr_okD(1) [OF l(3)] l(2)] l(1) Log show ?thesis
      by (simp add: run_simps on_logger_def)
  next
    case (Log_text env site rf level text')
    with c ref [of rf] mgr_okD(2) [OF log_invD(1) [OF inv]] show ?thesis
      by (simp add: CHORD_LOG_LEVEL_run)
  next
    case (Configure env site uninit old_value new_value)
    with conf_listener_run [OF log_invD(1) [OF inv]] show ?thesis by simp
  next
    case (Print_dump Y)
    then show ?thesis
      by (auto simp: LoggerManager_toYamlString_run run_simps settle_def split: sum.split)
  qed (simp_all add: run_simps on_logger_def Logger_getFormatter_def appender_getFormatter_def
      split: prod.split option.split)
qed

lemma call_effect_ok:
  assumes "log_inv r st" and "call_ok st c"
  shows "\<exists>st'. call_effect c st = Inr st' \<and> log_inv r st' \<and> log_rely st st'"
proof -
  from ready_call [OF assms(2,1) ready_Return] assms(1)
  have "safe (log_rank r) (log_inv r) log_rely log_data [] st (call_prog c Return)"
    by (simp add: ready_def)
  from log_rg.safe_run [OF this assms(1)] call_run [OF assms, of Return] show ?thesis
    by (auto simp: sum_bind_Inr_iff)
qed

lemma thread_run:
  assumes "log_inv r st" and "\<forall>c \<in> set cs. call_ok st c"
  shows "prog_run (thread_prog cs) st = for_each call_effect cs st"
  using assms
proof (induction cs arbitrary: st)
  case (Cons c cs)
  then obtain st' where st': "call_effect c st = Inr st'" "log_inv r st'" "log_rely st st'"
    using call_effect_ok by fastforce
  with Cons.prems call_ok_later have "\<forall>c \<in> set cs. call_ok st' c" by auto
  from Cons.IH [OF st'(2) this] call_run [OF Cons.prems(1), of c "thread_prog cs"] Cons.prems(2) st'(1)
  show ?case by (simp add: thread_prog_def)
qed (simp add: thread_prog_def)

text \<open>
  C8: A thread on its own always comes to the end of its calls, and leaves the state that the
  operations without locks compute, one after another: with the scopes of the code's locks, the
  two evaluations of a logger in the macros, the fuel of two for the chain of roots and every
  section a step of its own, the code refines the operations the other theories speak about.
\<close>

theorem thread_alone_refines:
  assumes "api_reachable st" and "\<forall>c \<in> set cs. call_ok st c"
  shows "(\<exists>S. sys_step\<^sup>*\<^sup>* (log_system st [cs]) S \<and> sys_finished S)
    \<and> (\<forall>S. sys_step\<^sup>*\<^sup>* (log_system st [cs]) S \<and> sys_finished S \<longrightarrow>
          for_each call_effect cs st = Inr (sys_state S))"
proof -
  note inv = api_reachable_log_inv [OF assms(1)]
  have "\<forall>cs' \<in> set [cs]. \<forall>c \<in> set cs'. call_ok st c" using assms(2) by simp
  from log_rg.completes [OF log_system_ok [OF inv this]] prog_run_alone [of st "thread_prog cs"]
    thread_run [OF inv assms(2)]
  show ?thesis by (auto simp: log_system_def)
qed

section \<open>A formatter lost between two scopes\<close>


text \<open>
  C27: \<open>addAppender\<close> tests in one scope of the appender's lock whether it has a formatter and writes
  the logger's formatter in another. A thread that gives the appender its own formatter in between
  loses it: the appender ends with the logger's formatter, marked as its own, so that later
  changes of the logger's formatter pass it by. One after the other, in either order, the two
  calls leave the appender with its own formatter.
\<close>

theorem addAppender_loses_formatter:
  assumes "loggers st l = Some g" and "appenders st i = Some a" and "ap_formatter a = None"
    and "add = Add_appender (Pointer l) i" and "own = Appender_set_formatter i F"
  shows "(\<exists>S. sys_step\<^sup>*\<^sup>* (log_system st [[add], [own]]) S \<and> sys_finished S
      \<and> appenders (sys_state S) i = Some (a\<lparr>ap_formatter := lg_formatter g, ap_has_formatter := True\<rparr>))
    \<and> (\<exists>st'. for_each call_effect [add, own] st = Inr st'
      \<and> appenders st' i = Some (a\<lparr>ap_formatter := Some F, ap_has_formatter := True\<rparr>))
    \<and> (\<exists>st'. for_each call_effect [own, add] st = Inr st'
      \<and> appenders st' i = Some (a\<lparr>ap_formatter := Some F, ap_has_formatter := True\<rparr>))"
proof (intro conjI)
  let ?sched = "[0, 0, 0, 0, 1, 1, 1, 0, 0, 0, 0, 0, 0] :: thread list"
  have "\<exists>S. sys_run ?sched (log_system st [[add], [own]]) = Inr S \<and> sys_finished S
    \<and> appenders (sys_state S) i = Some (a\<lparr>ap_formatter := lg_formatter g, ap_has_formatter := True\<rparr>)"
    using assms
    by (simp add: log_system_def new_system_def thread_prog_def Logger_addAppender_prog_def
        appender_getFormatter_prog_def appender_setFormatter_prog_def exec_step_def goes_on_def
        act_def look_logger_def look_appender_def Spinlock_lock_def Spinlock_unlock_def new_Spinlock_def
        upd_logger_def upd_appender_def appender_setFormatter_def LogAppender_setFormatter_def Let_def
        sys_finished_iff less_Suc_eq)
  then show "\<exists>S. sys_step\<^sup>*\<^sup>* (log_system st [[add], [own]]) S \<and> sys_finished S
      \<and> appenders (sys_state S) i = Some (a\<lparr>ap_formatter := lg_formatter g, ap_has_formatter := True\<rparr>)"
    using sys_run_steps by blast
qed (use assms in \<open>simp_all add: on_logger_def Logger_addAppender_def upd_logger_def upd_appender_def
    appender_setFormatter_def LogAppender_setFormatter_def Let_def\<close>)

section \<open>Instances\<close>

text \<open>One thread logs to the root, the other makes a logger, sets its pattern and drops the root's appenders.\<close>

definition sample_calls :: "log_call list list" where
  "sample_calls =
     [[Log_text sample_env sample_site CHORD_LOG_ROOT FATAL ''hi'', Get_formatter (Pointer 0)],
      [Set_pattern (CHORD_LOG_NAME ''net'') ''%m'', Clear_appenders CHORD_LOG_ROOT,
       Configure sample_env sample_site 0 [] []]]"

lemma start_state_reachable: "api_reachable start_state"
  by (rule api_reachable.start [OF start_state_new])

lemma sample_calls_ok: "\<forall>cs \<in> set sample_calls. \<forall>c \<in> set cs. call_ok start_state c"
  by (simp add: sample_calls_def start_state_def)

theorem concurrent_logging_completes_witness:
  "\<not> sys_crashes (log_system start_state sample_calls)
   \<and> (\<exists>S. sys_step\<^sup>*\<^sup>* (log_system start_state sample_calls) S \<and> sys_finished S)"
  using concurrent_logging_completes [OF start_state_reachable sample_calls_ok rtranclp.rtrancl_refl]
  by blast

theorem concurrent_logging_invariant_witness:
  "mgr_ok (sys_state (log_system start_state sample_calls))
   \<and> find_logger (sys_state (log_system start_state sample_calls)) ''root'' = Some 0"
  using concurrent_logging_invariant [OF start_state_reachable sample_calls_ok rtranclp.rtrancl_refl]
  by (simp add: find_logger_def start_state_def)

text \<open>The root's appenders are dropped under the root's lock.\<close>

theorem writes_hold_the_lock_witness:
  "\<exists>S S'. sys_run [0] (log_system start_state [[Clear_appenders (Pointer 0)]]) = Inr S
     \<and> exec_step 0 S = Inr (Some S') \<and> \<not> log_data (Logger_lock 0) (sys_state S) (sys_state S')
     \<and> spin_holder (sys_locks S (Logger_lock 0)) = Some 0"
proof -
  have ok: "\<forall>cs \<in> set [[Clear_appenders (Pointer 0)]]. \<forall>c \<in> set cs. call_ok start_state c"
    by (simp add: start_state_def)
  have "\<exists>S S'. sys_run [0] (log_system start_state [[Clear_appenders (Pointer 0)]]) = Inr S
     \<and> exec_step 0 S = Inr (Some S') \<and> \<not> log_data (Logger_lock 0) (sys_state S) (sys_state S')"
    by (simp add: log_system_def new_system_def thread_prog_def Logger_clearAppenders_prog_def
        exec_step_def goes_on_def act_def Spinlock_lock_def new_Spinlock_def Logger_clearAppenders_def
        upd_logger_def start_state_def)
  then obtain S S' where run: "sys_run [0] (log_system start_state [[Clear_appenders (Pointer 0)]]) = Inr S"
    and step: "exec_step 0 S = Inr (Some S')" "\<not> log_data (Logger_lock 0) (sys_state S) (sys_state S')"
    by blast
  from writes_hold_the_lock [OF start_state_reachable ok sys_run_steps [OF run] step] run step
  show ?thesis by blast
qed

theorem thread_alone_refines_witness:
  "\<exists>S. sys_step\<^sup>*\<^sup>* (log_system start_state [sample_calls ! 0]) S \<and> sys_finished S
    \<and> for_each call_effect (sample_calls ! 0) start_state = Inr (sys_state S)"
proof -
  have "\<forall>c \<in> set (sample_calls ! 0). call_ok start_state c"
    using sample_calls_ok by (simp add: sample_calls_def)
  from thread_alone_refines [OF start_state_reachable this] show ?thesis by blast
qed

theorem addAppender_loses_formatter_witness:
  "\<exists>S. sys_step\<^sup>*\<^sup>* (log_system sample_store [[Add_appender (Pointer 0) 3],
        [Appender_set_formatter 3 (formatter_of ''%n'')]]) S
     \<and> appenders (sys_state S) 3 = Some (new_StdOutLogAppender
          \<lparr>ap_formatter := Some sample_formatter, ap_has_formatter := True\<rparr>)"
proof -
  have "appenders sample_store 3 = Some new_StdOutLogAppender" "ap_formatter new_StdOutLogAppender = None"
    "lg_formatter sample_root = Some sample_formatter"
    by (simp_all add: sample_store_def new_StdOutLogAppender_def new_appender_def sample_root_def)
  with addAppender_loses_formatter [OF sample_loggers(1) this(1,2) HOL.refl HOL.refl, of "formatter_of ''%n''"]
  show ?thesis by auto
qed

end
