(* ===== verification/Concurrent_Lines.thy ===== *)
theory Concurrent_Lines
  imports Concurrent_Logging
begin

text \<open>
  What several logging threads print on standard output, which takes characters one by one:
  through one appender an interleaving of their lines, each line in one piece, none lost, and the
  lines of one thread in its order; through two appenders every mix of the characters.
\<close>

section \<open>Interleavings\<close>

inductive interleaved :: "'a list list \<Rightarrow> 'a list \<Rightarrow> bool" where
  interleaved_Nil: "\<forall>xs \<in> set xss. xs = [] \<Longrightarrow> interleaved xss []"
| interleaved_Cons: "t < length xss \<Longrightarrow> xss ! t = x # xs \<Longrightarrow> interleaved (xss[t := xs]) out \<Longrightarrow>
    interleaved xss (x # out)"

lemma interleaved_mset: "interleaved xss out \<Longrightarrow> mset out = (\<Sum>xs \<leftarrow> xss. mset xs)"
proof (induction rule: interleaved.induct)
  case (interleaved_Nil xss)
  then show ?case by (induction xss) auto
next
  case (interleaved_Cons t xss x xs out)
  have "(\<Sum>ys \<leftarrow> xss. mset ys) = add_mset x (\<Sum>ys \<leftarrow> xss[t := xs]. mset ys)"
    using interleaved_Cons.hyps(1,2)
  proof (induction xss arbitrary: t)
    case (Cons ys xss)
    then show ?case by (cases t) auto
  qed simp
  with interleaved_Cons.IH show ?case by simp
qed

section \<open>Programs that only print\<close>

text \<open>
  Programs that print through one appender \<open>i\<close>, whatever has been printed since the state \<open>st\<close>.
  \<open>prints st i p ls\<close>: outside the appender's lock, \<open>p\<close> will print the lines \<open>ls\<close>, each within one scope
  of the lock; \<open>in_line st i p cs ls\<close>: inside the lock, \<open>p\<close> still has the characters \<open>cs\<close> of its line to
  print before the scope ends, and then the lines \<open>ls\<close>.
\<close>

inductive prints :: "log_state \<Rightarrow> nat \<Rightarrow> log_prog \<Rightarrow> string list \<Rightarrow> bool"
  and in_line :: "log_state \<Rightarrow> nat \<Rightarrow> log_prog \<Rightarrow> string \<Rightarrow> string list \<Rightarrow> bool"
  for st i where
  prints_Return: "prints st i Return []"
| prints_Acquire: "l \<noteq> Appender_lock i \<Longrightarrow> prints st i p ls \<Longrightarrow> prints st i (Acquire l p) ls"
| prints_Release: "l \<noteq> Appender_lock i \<Longrightarrow> prints st i p ls \<Longrightarrow> prints st i (Release l p) ls"
| prints_silent: "(\<And>w. f (print_st w st) = Inr (print_st w st, p)) \<Longrightarrow> prints st i p ls \<Longrightarrow>
    prints st i (Do f) ls"
| prints_line: "in_line st i p cs ls \<Longrightarrow> prints st i (Acquire (Appender_lock i) p) (cs # ls)"
| in_line_silent: "(\<And>w. f (print_st w st) = Inr (print_st w st, p)) \<Longrightarrow> in_line st i p cs ls \<Longrightarrow>
    in_line st i (Do f) cs ls"
| in_line_char: "(\<And>w. f (print_st w st) = Inr (print_st (w @ [c]) st, p)) \<Longrightarrow>
    in_line st i p cs ls \<Longrightarrow> in_line st i (Do f) (c # cs) ls"
| in_line_end: "prints st i p ls \<Longrightarrow> in_line st i (Release (Appender_lock i) p) [] ls"

inductive_cases prints_ReturnE: "prints st i Return ls"
inductive_cases prints_AcquireE: "prints st i (Acquire l p) ls"
inductive_cases prints_ReleaseE: "prints st i (Release l p) ls"
inductive_cases prints_DoE: "prints st i (Do f) ls"
inductive_cases in_line_AcquireE: "in_line st i (Acquire l p) cs ls"
inductive_cases in_line_ReleaseE: "in_line st i (Release l p) cs ls"
inductive_cases in_line_DoE: "in_line st i (Do f) cs ls"
inductive_cases in_line_ReturnE: "in_line st i Return cs ls"

text \<open>
  What is still to come from the system: the rest \<open>cs\<close> of the line of the thread that holds the
  appender's lock, and the lines \<open>lss\<close> of every thread.
\<close>

definition to_print :: "log_state \<Rightarrow> nat \<Rightarrow> string \<Rightarrow> string list list \<Rightarrow> (log_lock, log_state) system \<Rightarrow> bool"
where
  "to_print st i cs lss S \<longleftrightarrow>
     length (sys_progs S) = length lss
     \<and> (case spin_holder (sys_locks S (Appender_lock i)) of
          None \<Rightarrow> cs = []
        | Some h \<Rightarrow> h < length lss \<and> in_line st i (sys_progs S ! h) cs (lss ! h))
     \<and> (\<forall>t < length lss. spin_holder (sys_locks S (Appender_lock i)) \<noteq> Some t \<longrightarrow>
          prints st i (sys_progs S ! t) (lss ! t))"

lemma to_printD:
  assumes "to_print st i cs lss S" and "t < length (sys_progs S)"
  shows "spin_holder (sys_locks S (Appender_lock i)) = Some t \<Longrightarrow> in_line st i (sys_progs S ! t) cs (lss ! t)"
    and "spin_holder (sys_locks S (Appender_lock i)) \<noteq> Some t \<Longrightarrow> prints st i (sys_progs S ! t) (lss ! t)"
  using assms by (auto simp: to_print_def)

text \<open>The step of a thread outside the lock, and of the thread inside.\<close>

lemma to_print_outside:
  assumes "to_print st i cs lss S" and "t < length lss"
    and "spin_holder (sys_locks S (Appender_lock i)) \<noteq> Some t" and "prints st i p (lss ! t)"
    and "sys_progs S1 = (sys_progs S)[t := p]"
    and "sys_locks S1 (Appender_lock i) = sys_locks S (Appender_lock i)"
  shows "to_print st i cs lss S1"
  using assms by (auto simp: to_print_def nth_list_update split: option.splits)

lemma to_print_inside:
  assumes "to_print st i cs lss S" and "t < length lss"
    and "spin_holder (sys_locks S (Appender_lock i)) = Some t" and "in_line st i p cs' (lss ! t)"
    and "sys_progs S1 = (sys_progs S)[t := p]"
    and "sys_locks S1 (Appender_lock i) = sys_locks S (Appender_lock i)"
  shows "to_print st i cs' lss S1"
  using assms by (auto simp: to_print_def nth_list_update split: option.splits)

lemma to_print_step:
  assumes "exec_step t S = Inr (Some S1)" and "to_print st i cs lss S" and "sys_state S = print_st w st"
  shows "(\<exists>w' cs'. sys_state S1 = print_st w' st \<and> to_print st i cs' lss S1 \<and> w @ cs = w' @ cs')
    \<or> (\<exists>line ls. t < length lss \<and> cs = [] \<and> lss ! t = line # ls \<and> sys_state S1 = print_st w st
        \<and> to_print st i line (lss[t := ls]) S1)"
  using assms(1)
proof (cases rule: exec_step_cases)
  case (acquire l p)
  have t: "t < length lss" using assms(2) acquire(1) by (simp add: to_print_def)
  have out: "spin_holder (sys_locks S (Appender_lock i)) \<noteq> Some t"
    using to_printD(1) [OF assms(2) acquire(1)] acquire(2) by (auto elim: in_line_AcquireE)
  with to_printD(2) [OF assms(2) acquire(1)] acquire(2) have "prints st i (Acquire l p) (lss ! t)" by simp
  then consider (other) "l \<noteq> Appender_lock i" "prints st i p (lss ! t)"
    | (line) line ls where "l = Appender_lock i" "lss ! t = line # ls" "in_line st i p line ls"
    by (elim prints_AcquireE) auto
  then show ?thesis
  proof cases
    case other
    have "to_print st i cs lss S1"
      by (rule to_print_outside [OF assms(2) t out other(2)])
        (use acquire(4) other(1) in \<open>simp_all add: goes_on_def\<close>)
    with assms(3) acquire(4) show ?thesis by (auto simp: goes_on_def)
  next
    case line
    then have "cs = []" "to_print st i line (lss[t := ls]) S1"
      using assms(2) t acquire by (auto simp: to_print_def goes_on_def nth_list_update)
    with line t assms(3) acquire(4) show ?thesis by (auto simp: goes_on_def)
  qed
next
  case (release l p)
  have t: "t < length lss" using assms(2) release(1) by (simp add: to_print_def)
  show ?thesis
  proof (cases "spin_holder (sys_locks S (Appender_lock i)) = Some t")
    case True
    with to_printD(1) [OF assms(2) release(1)] release(2) have "in_line st i (Release l p) cs (lss ! t)"
      by simp
    then have "l = Appender_lock i" "cs = []" "prints st i p (lss ! t)"
      by (auto elim: in_line_ReleaseE)
    then have "to_print st i cs lss S1"
      using assms(2) t True release(3) by (auto simp: to_print_def goes_on_def nth_list_update)
    with assms(3) release(3) show ?thesis by (auto simp: goes_on_def)
  next
    case False
    with to_printD(2) [OF assms(2) release(1)] release(2) have "prints st i (Release l p) (lss ! t)" by simp
    then have "l \<noteq> Appender_lock i" "prints st i p (lss ! t)" by (auto elim: prints_ReleaseE)
    then have "to_print st i cs lss S1"
      using to_print_outside [OF assms(2) t False] release(3) by (auto simp: goes_on_def)
    with assms(3) release(3) show ?thesis by (auto simp: goes_on_def)
  qed
next
  case (body f s' p)
  have t: "t < length lss" using assms(2) body(1) by (simp add: to_print_def)
  have S1: "sys_progs S1 = (sys_progs S)[t := p]" "sys_locks S1 = sys_locks S" "sys_state S1 = s'"
    using body(4) by (simp_all add: goes_on_def)
  show ?thesis
  proof (cases "spin_holder (sys_locks S (Appender_lock i)) = Some t")
    case True
    with to_printD(1) [OF assms(2) body(1)] body(2) have "in_line st i (Do f) cs (lss ! t)" by simp
    then consider (silent) q where "\<forall>w. f (print_st w st) = Inr (print_st w st, q)"
        "in_line st i q cs (lss ! t)"
      | (char) c q cs' where "cs = c # cs'"
        "\<forall>w. f (print_st w st) = Inr (print_st (w @ [c]) st, q)" "in_line st i q cs' (lss ! t)"
      by (rule in_line_DoE) blast+
    then show ?thesis
    proof cases
      case silent
      with body(3) assms(3) have "s' = print_st w st" "in_line st i p cs (lss ! t)" by auto
      with to_print_inside [OF assms(2) t True this(2) S1(1)] S1 show ?thesis by auto
    next
      case char
      with body(3) assms(3) have "s' = print_st (w @ [c]) st" "in_line st i p cs' (lss ! t)" by auto
      with to_print_inside [OF assms(2) t True this(2) S1(1)] S1 char(1) show ?thesis by fastforce
    qed
  next
    case False
    with to_printD(2) [OF assms(2) body(1)] body(2) have "prints st i (Do f) (lss ! t)" by simp
    then obtain q where "\<forall>w. f (print_st w st) = Inr (print_st w st, q)" "prints st i q (lss ! t)"
      by (rule prints_DoE) blast
    with body(3) assms(3) have "s' = print_st w st" "prints st i p (lss ! t)" by auto
    with to_print_outside [OF assms(2) t False this(2) S1(1)] S1 show ?thesis by auto
  qed
qed

text \<open>The line begun is finished first; what follows is an interleaving of the other lines.\<close>

lemma prints_steps:
  assumes "sys_step\<^sup>*\<^sup>* S S'" and "sys_finished S'"
    and "sys_state S = print_st w st" and "to_print st i cs lss S"
  shows "\<exists>out. interleaved lss out \<and> sys_state S' = print_st (w @ cs @ concat out) st"
  using assms(1,3,4)
proof (induction arbitrary: w cs lss rule: converse_rtranclp_induct)
  case base
  have free: "spin_holder (sys_locks S' (Appender_lock i)) = None"
    and ret: "\<forall>t < length lss. sys_progs S' ! t = Return"
    using assms(2) base(2) by (simp_all add: sys_finished_iff to_print_def)
  have "\<forall>t < length lss. lss ! t = []"
    using base(2) free ret by (auto simp: to_print_def elim: prints_ReturnE)
  then have "interleaved lss []" by (intro interleaved_Nil) (auto simp: in_set_conv_nth)
  moreover have "cs = []" using base(2) free by (simp add: to_print_def)
  ultimately show ?case using base(1) by (intro exI [of _ "[]"]) simp
next
  case (step S S1)
  then obtain t where t: "exec_step t S = Inr (Some S1)" by (auto elim: sys_step.cases)
  from to_print_step [OF t step.prems(2,1)] consider
    (same) w' cs' where "sys_state S1 = print_st w' st" "to_print st i cs' lss S1" "w @ cs = w' @ cs'"
  | (line) line ls where "t < length lss" "cs = []" "lss ! t = line # ls"
      "sys_state S1 = print_st w st" "to_print st i line (lss[t := ls]) S1"
    by blast
  then show ?case
  proof cases
    case same
    from step.IH [OF same(1,2)] same(3) show ?thesis by (metis append.assoc)
  next
    case line
    from step.IH [OF line(4,5)] obtain out where
      "interleaved (lss[t := ls]) out" "sys_state S' = print_st (w @ line @ concat out) st" by blast
    with interleaved_Cons [OF line(1,3)] line(2) show ?thesis
      by (intro exI [of _ "line # out"]) simp
  qed
qed

section \<open>The lines of a log call\<close>

definition lines_at :: "log_env \<Rightarrow> Level \<Rightarrow> LogEvent \<Rightarrow> log_state \<Rightarrow> nat list \<Rightarrow> string list" where
  "lines_at env level ev st is =
     map (output_at env level ev st)
       (filter (\<lambda>i. case appenders st i of None \<Rightarrow> False | Some a \<Rightarrow> ap_level a \<le> level) is)"

definition log_lines :: "log_env \<Rightarrow> nat \<Rightarrow> Level \<Rightarrow> LogEvent \<Rightarrow> log_state \<Rightarrow> string list" where
  "log_lines env l level ev st =
     (case loggers st l of
        None \<Rightarrow> []
      | Some g \<Rightarrow>
          if level < lg_level g then []
          else if lg_appenders g \<noteq> [] then lines_at env level ev st (lg_appenders g)
          else (case lg_root g of
                  None \<Rightarrow> []
                | Some r \<Rightarrow>
                    (case loggers st r of
                       None \<Rightarrow> []
                     | Some h \<Rightarrow>
                         if level < lg_level h then [] else lines_at env level ev st (lg_appenders h))))"

fun ref_at :: "log_state \<Rightarrow> log_ref \<Rightarrow> nat option" where
  "ref_at st (Pointer l) = Some l"
| "ref_at st CHORD_LOG_ROOT = Some (mgr_root st)"
| "ref_at st (CHORD_LOG_NAME name) = map_of (mgr_loggers st) name"

fun logs_only :: "log_state \<Rightarrow> log_call \<Rightarrow> bool" where
  "logs_only st (Log env ref level ev) \<longleftrightarrow> ref_at st ref \<noteq> None"
| "logs_only st (Log_text env site ref level text) \<longleftrightarrow> ref_at st ref \<noteq> None"
| "logs_only st _ \<longleftrightarrow> False"

fun call_lines :: "log_state \<Rightarrow> log_call \<Rightarrow> string list" where
  "call_lines st (Log env ref level ev) = log_lines env (the (ref_at st ref)) level ev st"
| "call_lines st (Log_text env site ref level text) =
     log_lines env (the (ref_at st ref)) level (site_event site (the (ref_at st ref)) level\<lparr>ev_ss := text\<rparr>) st"
| "call_lines st _ = []"

text \<open>All loggers log through one appender, which writes to standard output.\<close>

definition one_stdout :: "log_state \<Rightarrow> nat \<Rightarrow> bool" where
  "one_stdout st i \<longleftrightarrow>
     (\<forall>l g. loggers st l = Some g \<longrightarrow> set (lg_appenders g) \<subseteq> {i})
     \<and> (\<forall>a. appenders st i = Some a \<longrightarrow> ap_kind a = StdOutLogAppender)"

lemma print_st_mgr [simp]:
  "mgr_loggers (print_st s st) = mgr_loggers st" "mgr_root (print_st s st) = mgr_root st"
  by (simp_all add: print_st_def)

lemma prints_look:
  "loggers st l = Some g \<Longrightarrow> prints st i (h g) ls \<Longrightarrow> prints st i (look_logger l h) ls"
  "appenders st j = Some a \<Longrightarrow> prints st i (h' a) ls \<Longrightarrow> prints st i (look_appender j h') ls"
  unfolding look_logger_def look_appender_def by (rule prints_silent; simp)+

lemma prints_unlock: "prints st i p ls \<Longrightarrow> prints st i (Release (Logger_lock l) p) ls"
  by (rule prints_Release) simp_all

lemma in_line_print:
  "in_line st i k [] ls \<Longrightarrow> in_line st i (foldr print_char cs k) cs ls"
  by (induction cs) (auto simp: print_char_def act_def intro!: in_line_char)

lemma prints_appender_log:
  assumes "appenders st i = Some a" and "ap_kind a = StdOutLogAppender" and "ap_formatter a \<noteq> None"
    and "ev_logger ev \<noteq> None" and "prints st i k ls"
  shows "prints st i (appender_log_prog env level ev i k) (lines_at env level ev st [i] @ ls)"
proof -
  obtain t where t: "appender_text (fmt_env_of env st) level ev a = Inr t"
    using appender_text_total [OF assms(3,4)] by blast
  have "prints st i (StdOutLogAppender_log_prog env level ev i k) (lines_at env level ev st [i] @ ls)"
  proof (cases "ap_level a \<le> level")
    case True
    have "in_line st i (write_stdout_prog env level ev i (Release (Appender_lock i) k)) t ls"
      unfolding write_stdout_prog_def
      by (rule in_line_silent [OF _ in_line_print [OF in_line_end [OF assms(5)]]])
        (use assms(1) t in simp)
    then have "prints st i (Acquire (Appender_lock i)
        (write_stdout_prog env level ev i (Release (Appender_lock i) k))) (t # ls)"
      by (rule prints_line)
    with True assms(1) t show ?thesis
      by (auto simp: StdOutLogAppender_log_prog_def lines_at_def output_at_def appender_output_def
          intro!: prints_look)
  next
    case False
    with assms(1,5) show ?thesis
      by (auto simp: StdOutLogAppender_log_prog_def lines_at_def intro!: prints_look)
  qed
  with assms(1,2) show ?thesis by (auto simp: appender_log_prog_def intro!: prints_look)
qed

lemma lines_at_Nil [simp]: "lines_at env level ev st [] = []"
  by (simp add: lines_at_def)

lemma lines_at_Cons:
  "lines_at env level ev st (i # is) = lines_at env level ev st [i] @ lines_at env level ev st is"
  by (simp add: lines_at_def)

lemma prints_log_loop:
  assumes "\<forall>j \<in> set is. j = i \<and> formatted st j" and "one_stdout st i" and "ev_logger ev \<noteq> None"
    and "prints st i k ls"
  shows "prints st i (foldr (appender_log_prog env level ev) is k) (lines_at env level ev st is @ ls)"
  using assms(1)
proof (induction "is")
  case (Cons j "is")
  then obtain a where j: "j = i" "appenders st i = Some a" "ap_formatter a \<noteq> None"
    by (auto simp: formatted_def)
  with assms(2) have "ap_kind a = StdOutLogAppender" by (simp add: one_stdout_def)
  with j have "prints st i (appender_log_prog env level ev i (foldr (appender_log_prog env level ev) is k))
      (lines_at env level ev st [i] @ lines_at env level ev st is @ ls)"
    using Cons by (intro prints_appender_log [OF _ _ _ assms(3)]) auto
  with j(1) show ?case by (simp add: lines_at_Cons [of _ _ _ _ i "is"])
qed (simp add: assms(4))

lemma prints_log:
  assumes inv: "log_inv r st" and std: "one_stdout st i" and l: "loggers st l = Some g"
    and ev: "ev_logger ev \<noteq> None" and k: "prints st i k ls"
  shows "prints st i (Logger_log_prog log_fuel env l level ev k) (log_lines env l level ev st @ ls)"
proof -
  have loop: "prints st i (foldr (appender_log_prog env level ev) (lg_appenders h) k')
      (lines_at env level ev st (lg_appenders h) @ ls)"
    if "loggers st l' = Some h" "prints st i k' ls" for l' h k'
    by (rule prints_log_loop [OF _ std ev that(2)]) (use log_inv_formatted [OF inv that(1)] std that(1) in \<open>auto simp: one_stdout_def\<close>)
  have top: "prints st i (Logger_log_prog (Suc n) env l' level ev k') (log_lines env l' level ev st @ ls)"
    if h: "loggers st l' = Some h" "lg_root h = None" and k': "prints st i k' ls" for n l' h k'
  proof (cases "lg_level h \<le> level")
    case True
    have "prints st i (if lg_appenders h \<noteq> [] then
        foldr (appender_log_prog env level ev) (lg_appenders h) (Release (Logger_lock l') k')
      else (case lg_root h of Some r \<Rightarrow> Logger_log_prog n env r level ev (Release (Logger_lock l') k')
        | None \<Rightarrow> Release (Logger_lock l') k')) (log_lines env l' level ev st @ ls)"
      using loop [OF h(1) prints_unlock [OF k']] h True k'
      by (auto simp: log_lines_def intro: prints_Release)
    with True h(1) show ?thesis
      by (auto intro!: prints_look prints_Acquire)
  next
    case False
    with h(1) k' show ?thesis by (auto simp: log_lines_def intro!: prints_look)
  qed
  have fuel: "log_fuel = Suc (Suc 0)" by (simp add: log_fuel_def)
  show ?thesis
  proof (cases "lg_root g")
    case None
    from top [OF l None k] show ?thesis unfolding fuel .
  next
    case (Some r')
    with log_invD(4) [OF inv l] have r': "r' = r" by auto
    obtain h where h: "loggers st r = Some h" "lg_root h = None" using log_inv_root [OF inv] by blast
    show ?thesis
    proof (cases "lg_level g \<le> level")
      case True
      have lines: "log_lines env l level ev st =
          (if lg_appenders g \<noteq> [] then lines_at env level ev st (lg_appenders g)
           else log_lines env r level ev st)"
        using l h Some r' True by (auto simp: log_lines_def)
      have "prints st i (if lg_appenders g \<noteq> [] then
          foldr (appender_log_prog env level ev) (lg_appenders g) (Release (Logger_lock l) k)
        else (case lg_root g of
            Some r \<Rightarrow> Logger_log_prog (Suc 0) env r level ev (Release (Logger_lock l) k)
          | None \<Rightarrow> Release (Logger_lock l) k)) (log_lines env l level ev st @ ls)"
        using loop [OF l prints_unlock [OF k]] top [OF h prints_unlock [OF k], of 0] Some r'
        unfolding lines by (simp del: Logger_log_prog.simps)
      with True l show ?thesis
        unfolding fuel Logger_log_prog.simps(2) [of _ _ l] by (auto intro!: prints_look prints_Acquire
            simp del: Logger_log_prog.simps)
    next
      case False
      with l k show ?thesis unfolding fuel by (auto simp: log_lines_def intro!: prints_look)
    qed
  qed
qed

lemma prints_with_logger:
  assumes "ref_at st ref = Some l" and "prints st i (h l) ls"
  shows "prints st i (with_logger ref h) ls"
proof (cases ref)
  case CHORD_LOG_ROOT
  with assms show ?thesis by (auto simp: getRoot_prog_def intro!: prints_silent)
next
  case (CHORD_LOG_NAME name)
  with assms have "getLogger name (print_st w st) = (l, print_st w st)" for w
    by (simp add: getLogger_def)
  with CHORD_LOG_NAME assms(2) show ?thesis
    by (auto simp: getLogger_prog_def intro!: prints_Acquire prints_silent intro: prints_Release)
qed (use assms in simp)

lemma prints_call:
  assumes inv: "log_inv r st" and std: "one_stdout st i" and c: "call_ok st c" "logs_only st c"
    and k: "prints st i k ls"
  shows "prints st i (call_prog c k) (call_lines st c @ ls)"
proof -
  have logger: "\<exists>g. loggers st l = Some g" if "ref_ok st ref" "ref_at st ref = Some l" for ref l
  proof (cases ref)
    case CHORD_LOG_ROOT
    with that log_inv_root [OF inv] log_invD(3) [OF inv] show ?thesis by auto
  next
    case (CHORD_LOG_NAME name)
    with that mgr_okD(4) [OF log_invD(1) [OF inv]] show ?thesis by (fastforce simp: entry_ok_def)
  qed (use that in auto)
  show ?thesis
  proof (cases c)
    case (Log env ref level ev)
    with c obtain l where l: "ref_at st ref = Some l" by auto
    with logger c Log obtain g where "loggers st l = Some g" by fastforce
    from prints_log [OF inv std this _ k, of ev] l c Log show ?thesis
      by (auto intro!: prints_with_logger)
  next
    case (Log_text env site ref level text')
    with c obtain l where l: "ref_at st ref = Some l" by auto
    with logger c Log_text obtain g where g: "loggers st l = Some g" by fastforce
    have "ev_logger (site_event site l level\<lparr>ev_ss := text'\<rparr>) \<noteq> None"
      by (simp add: site_event_def new_LogEvent_def)
    note log = prints_log [OF inv std g this k, of env level]
    show ?thesis
    proof (cases "lg_level g \<le> level")
      case True
      have "prints st i (with_logger ref (\<lambda>l. Logger_log_prog log_fuel env l level
          (site_event site l level\<lparr>ev_ss := text'\<rparr>) k)) (call_lines st c @ ls)"
        using prints_with_logger [OF l] log l Log_text by simp
      with True g Log_text l show ?thesis
        by (auto simp: CHORD_LOG_LEVEL_prog_def intro!: prints_with_logger prints_look)
    next
      case False
      with g Log_text l k show ?thesis
        by (auto simp: CHORD_LOG_LEVEL_prog_def log_lines_def intro!: prints_with_logger prints_look)
    qed
  qed (use c in simp_all)
qed

lemma prints_thread:
  assumes "log_inv r st" and "one_stdout st i" and "\<forall>c \<in> set cs. call_ok st c \<and> logs_only st c"
  shows "prints st i (thread_prog cs) (concat (map (call_lines st) cs))"
  using assms(3) unfolding thread_prog_def
proof (induction cs)
  case (Cons c cs)
  with prints_call [OF assms(1,2), of c "foldr call_prog cs Return"] show ?case by simp
qed (simp add: prints_Return)

text \<open>
  C4: When threads only log, through loggers that share one appender that writes to standard
  output, then in every interleaving of their steps (and \<open>std::cout\<close> takes the characters of a text in
  separate steps, between which other threads run) what they have printed in the end is an
  interleaving of whole lines: every line once and in one piece, those of one thread in its
  order; nothing else has changed. The lines of a call are those the appender renders if the event
  reaches the levels of the logger and of the appender, through the root's if the logger has no
  appenders.
\<close>

theorem concurrent_lines:
  assumes "api_reachable st" and "one_stdout st i"
    and "\<forall>cs \<in> set css. \<forall>c \<in> set cs. call_ok st c \<and> logs_only st c"
    and "sys_step\<^sup>*\<^sup>* (log_system st css) S" and "sys_finished S"
  shows "\<exists>out. interleaved (map (\<lambda>cs. concat (map (call_lines st) cs)) css) out
    \<and> mset out = (\<Sum>cs \<leftarrow> css. mset (concat (map (call_lines st) cs)))
    \<and> sys_state S = print_st (concat out) st"
proof -
  let ?lss = "map (\<lambda>cs. concat (map (call_lines st) cs)) css"
  have "prints st i (thread_prog (css ! t)) (?lss ! t)" if "t < length css" for t
  proof -
    have "\<forall>c \<in> set (css ! t). call_ok st c \<and> logs_only st c"
      using assms(3) nth_mem [OF that] by blast
    from prints_thread [OF api_reachable_log_inv [OF assms(1)] assms(2) this] that show ?thesis by simp
  qed
  then have "to_print st i [] ?lss (log_system st css)"
    by (simp add: to_print_def log_system_def new_system_def new_Spinlock_def)
  moreover have "sys_state (log_system st css) = print_st [] st"
    by (simp add: log_system_def new_system_def)
  ultimately obtain out where "interleaved ?lss out" "sys_state S = print_st ([] @ [] @ concat out) st"
    using prints_steps [OF assms(4,5)] by blast
  with interleaved_mset [OF this(1)] show ?thesis by (auto simp: comp_def)
qed

theorem concurrent_lines_witness:
  "\<exists>(S :: (log_lock, log_state) system) out. sys_finished S
     \<and> interleaved [[output_at sample_env FATAL sample_event start_state 1],
          [output_at sample_env ERROR sample_event start_state 1]] out
     \<and> sys_state S = print_st (concat out) start_state"
proof -
  let ?css = "[[Log sample_env (Pointer 0) FATAL sample_event], [Log sample_env CHORD_LOG_ROOT ERROR sample_event]]"
  have ok: "\<forall>cs \<in> set ?css. \<forall>c \<in> set cs. call_ok start_state c"
    and logs: "\<forall>cs \<in> set ?css. \<forall>c \<in> set cs. call_ok start_state c \<and> logs_only start_state c"
    by (simp_all add: start_state_def sample_event_def new_LogEvent_def)
  have std: "one_stdout start_state 1"
    by (simp add: one_stdout_def start_state_def Logger_init_def new_StdOutLogAppender_def new_appender_def)
  have lines: "map (\<lambda>cs. concat (map (call_lines start_state) cs)) ?css =
      [[output_at sample_env FATAL sample_event start_state 1],
       [output_at sample_env ERROR sample_event start_state 1]]"
    by (simp add: log_lines_def lines_at_def start_state_def Logger_init_def new_StdOutLogAppender_def
        new_appender_def)
  obtain S where "sys_step\<^sup>*\<^sup>* (log_system start_state ?css) S" "sys_finished S"
    using log_rg.completes [OF log_system_ok [OF api_reachable_log_inv [OF start_state_reachable] ok]]
    by blast
  with concurrent_lines [OF start_state_reachable std logs this] show ?thesis
    unfolding lines by blast
qed

section \<open>Two appenders\<close>

text \<open>What an event of the level needs to be printed by the logger's only appender, \<open>i\<close>.\<close>

definition prints_through :: "log_state \<Rightarrow> nat \<Rightarrow> Level \<Rightarrow> nat \<Rightarrow> bool" where
  "prints_through st l level i \<longleftrightarrow>
     (\<exists>g a. loggers st l = Some g \<and> lg_level g \<le> level \<and> lg_appenders g = [i]
        \<and> appenders st i = Some a \<and> ap_kind a = StdOutLogAppender \<and> ap_level a \<le> level
        \<and> ap_formatter a \<noteq> None)"

abbreviation log_alone :: "log_env \<Rightarrow> nat \<Rightarrow> Level \<Rightarrow> LogEvent \<Rightarrow> log_prog" where
  "log_alone env l level ev \<equiv> Logger_log_prog log_fuel env l level ev Return"

abbreviation log_end :: "nat \<Rightarrow> nat \<Rightarrow> log_prog" where
  "log_end l i \<equiv> Release (Appender_lock i) (Release (Logger_lock l) Return)"

lemma log_enter:
  assumes "prints_through st l level i" and "ev_logger ev \<noteq> None" and "t < length ps"
    and "ps ! t = log_alone env l level ev"
    and "L (Logger_lock l) = new_Spinlock" and "L (Appender_lock i) = new_Spinlock"
  shows "sys_step\<^sup>*\<^sup>* \<lparr>sys_state = st, sys_locks = L, sys_progs = ps\<rparr>
     \<lparr>sys_state = st, sys_locks = L(Logger_lock l := Spinlock (Some t), Appender_lock i := Spinlock (Some t)),
      sys_progs = ps[t := foldr print_char (output_at env level ev st i) (log_end l i)]\<rparr>"
proof (rule sys_run_steps [of "[t, t, t, t, t, t, t]"])
  obtain g a where ga: "loggers st l = Some g" "lg_level g \<le> level" "lg_appenders g = [i]"
    "appenders st i = Some a" "ap_kind a = StdOutLogAppender" "ap_level a \<le> level"
    and f: "ap_formatter a \<noteq> None" using assms(1) by (auto simp: prints_through_def)
  obtain x where "appender_text (fmt_env_of env st) level ev a = Inr x"
    using appender_text_total [OF f assms(2)] by blast
  with ga assms(3-6) show "sys_run [t, t, t, t, t, t, t] \<lparr>sys_state = st, sys_locks = L, sys_progs = ps\<rparr>
     = Inr \<lparr>sys_state = st, sys_locks = L(Logger_lock l := Spinlock (Some t), Appender_lock i := Spinlock (Some t)),
      sys_progs = ps[t := foldr print_char (output_at env level ev st i) (log_end l i)]\<rparr>"
    by (simp add: exec_step_def goes_on_def log_fuel_def numeral_2_eq_2 look_logger_def look_appender_def
      appender_log_prog_def StdOutLogAppender_log_prog_def write_stdout_prog_def Spinlock_lock_def
      output_at_def appender_output_def new_Spinlock_def)
qed


lemma log_leave:
  shows "sys_step\<^sup>*\<^sup>* \<lparr>sys_state = st, sys_locks = L, sys_progs = [log_end l i, q]\<rparr>
     \<lparr>sys_state = st, sys_locks = L(Appender_lock i := Spinlock None, Logger_lock l := Spinlock None),
      sys_progs = [Return, q]\<rparr>"
    and "sys_step\<^sup>*\<^sup>* \<lparr>sys_state = st, sys_locks = L, sys_progs = [p, log_end l i]\<rparr>
     \<lparr>sys_state = st, sys_locks = L(Appender_lock i := Spinlock None, Logger_lock l := Spinlock None),
      sys_progs = [p, Return]\<rparr>"
  by (rule sys_run_steps [of "[0, 0]"], simp add: exec_step_def goes_on_def Spinlock_unlock_def)
    (rule sys_run_steps [of "[1, 1]"], simp add: exec_step_def goes_on_def Spinlock_unlock_def)

text \<open>Every way of mixing two texts can come out once both threads print.\<close>

lemma print_mixed:
  "out \<in> shuffles cs ds \<Longrightarrow>
   sys_step\<^sup>*\<^sup>* \<lparr>sys_state = st, sys_locks = L, sys_progs = [foldr print_char cs p, foldr print_char ds q]\<rparr>
     \<lparr>sys_state = print_st out st, sys_locks = L, sys_progs = [p, q]\<rparr>"
proof (induction out arbitrary: cs ds st)
  case (Cons c out)
  let ?S = "\<lparr>sys_state = st, sys_locks = L, sys_progs = [foldr print_char cs p, foldr print_char ds q]\<rparr>"
  from Cons.prems consider
    (first) cs' where "cs = c # cs'" "out \<in> shuffles cs' ds"
  | (second) ds' where "ds = c # ds'" "out \<in> shuffles cs ds'"
    by (cases cs; cases ds) (auto simp: Cons_in_shuffles_iff)
  then show ?case
  proof cases
    case first
    then have "exec_step 0 ?S = Inr (Some \<lparr>sys_state = print_st [c] st, sys_locks = L,
        sys_progs = [foldr print_char cs' p, foldr print_char ds q]\<rparr>)"
      by (simp add: exec_step_def goes_on_def print_char_def act_def)
    from converse_rtranclp_into_rtranclp [OF sys_step.intros [OF this] Cons.IH [OF first(2)]]
    show ?thesis by simp
  next
    case second
    then have "exec_step 1 ?S = Inr (Some \<lparr>sys_state = print_st [c] st, sys_locks = L,
        sys_progs = [foldr print_char cs p, foldr print_char ds' q]\<rparr>)"
      by (simp add: exec_step_def goes_on_def print_char_def act_def)
    from converse_rtranclp_into_rtranclp [OF sys_step.intros [OF this] Cons.IH [OF second(2)]]
    show ?thesis by simp
  qed
qed simp

lemma log_mixed:
  assumes "prints_through st l1 level1 i1" and "prints_through st l2 level2 i2"
    and "l1 \<noteq> l2" and "i1 \<noteq> i2" and "ev_logger ev1 \<noteq> None" and "ev_logger ev2 \<noteq> None"
    and "out \<in> shuffles (output_at env1 level1 ev1 st i1) (output_at env2 level2 ev2 st i2)"
      (is "_ \<in> shuffles ?t1 ?t2")
  shows "\<exists>L. sys_step\<^sup>*\<^sup>* \<lparr>sys_state = st, sys_locks = \<lambda>_. new_Spinlock,
        sys_progs = [log_alone env1 l1 level1 ev1, log_alone env2 l2 level2 ev2]\<rparr>
      \<lparr>sys_state = print_st out st, sys_locks = L, sys_progs = [Return, Return]\<rparr>
    \<and> (\<forall>l. L l = new_Spinlock)"
proof -
  let ?p = "log_alone env1 l1 level1 ev1" and ?q = "log_alone env2 l2 level2 ev2"
  let ?L = "\<lambda>_ :: log_lock. new_Spinlock"
  let ?L1 = "?L(Logger_lock l1 := Spinlock (Some 0), Appender_lock i1 := Spinlock (Some 0))"
  let ?L2 = "?L1(Logger_lock l2 := Spinlock (Some 1), Appender_lock i2 := Spinlock (Some 1))"
  let ?L3 = "?L2(Appender_lock i1 := Spinlock None, Logger_lock l1 := Spinlock None)"
  let ?L4 = "?L3(Appender_lock i2 := Spinlock None, Logger_lock l2 := Spinlock None)"
  let ?s = "print_st out st"
  let ?S0 = "\<lparr>sys_state = st, sys_locks = ?L, sys_progs = [?p, ?q]\<rparr>"
  let ?S1 = "\<lparr>sys_state = st, sys_locks = ?L1, sys_progs = [foldr print_char ?t1 (log_end l1 i1), ?q]\<rparr>"
  let ?S2 = "\<lparr>sys_state = st, sys_locks = ?L2,
      sys_progs = [foldr print_char ?t1 (log_end l1 i1), foldr print_char ?t2 (log_end l2 i2)]\<rparr>"
  let ?S3 = "\<lparr>sys_state = ?s, sys_locks = ?L2, sys_progs = [log_end l1 i1, log_end l2 i2]\<rparr>"
  let ?S4 = "\<lparr>sys_state = ?s, sys_locks = ?L3, sys_progs = [Return, log_end l2 i2]\<rparr>"
  let ?S5 = "\<lparr>sys_state = ?s, sys_locks = ?L4, sys_progs = [Return, Return]\<rparr>"
  have s1: "sys_step\<^sup>*\<^sup>* ?S0 ?S1" using log_enter [OF assms(1,5), of 0 "[?p, ?q]"] by simp
  have s2: "sys_step\<^sup>*\<^sup>* ?S1 ?S2"
    using log_enter [OF assms(2,6), of 1 "[foldr print_char ?t1 (log_end l1 i1), ?q]"] assms(3,4)
    by simp
  have s3: "sys_step\<^sup>*\<^sup>* ?S2 ?S3" by (rule print_mixed) (rule assms(7))
  have s4: "sys_step\<^sup>*\<^sup>* ?S3 ?S4" by (rule log_leave(1))
  have s5: "sys_step\<^sup>*\<^sup>* ?S4 ?S5" by (rule log_leave(2))
  have "sys_step\<^sup>*\<^sup>* ?S0 ?S5"
    by (rule rtranclp_trans [OF s1 rtranclp_trans [OF s2 rtranclp_trans [OF s3 rtranclp_trans [OF s4 s5]]]])
  moreover have "\<forall>l. ?L4 l = new_Spinlock" by (simp add: new_Spinlock_def)
  ultimately show ?thesis by blast
qed

text \<open>
  \<open>utters st p cs\<close>: whatever else is printed meanwhile, \<open>p\<close> prints the characters \<open>cs\<close> and does
  nothing else.
\<close>

inductive utters :: "log_state \<Rightarrow> log_prog \<Rightarrow> string \<Rightarrow> bool" for st where
  utters_Return: "utters st Return []"
| utters_Acquire: "utters st p cs \<Longrightarrow> utters st (Acquire l p) cs"
| utters_Release: "utters st p cs \<Longrightarrow> utters st (Release l p) cs"
| utters_silent: "(\<And>w. f (print_st w st) = Inr (print_st w st, p)) \<Longrightarrow> utters st p cs \<Longrightarrow>
    utters st (Do f) cs"
| utters_char: "(\<And>w. f (print_st w st) = Inr (print_st (w @ [c]) st, p)) \<Longrightarrow> utters st p cs \<Longrightarrow>
    utters st (Do f) (c # cs)"

inductive_cases utters_ReturnE: "utters st Return cs"
inductive_cases utters_AcquireE: "utters st (Acquire l p) cs"
inductive_cases utters_ReleaseE: "utters st (Release l p) cs"
inductive_cases utters_DoE: "utters st (Do f) cs"

lemma utters_step:
  assumes "exec_step t S = Inr (Some S1)" and "list_all2 (utters st) (sys_progs S) css"
    and "sys_state S = print_st w st"
  shows "\<exists>u cs. t < length css \<and> css ! t = u @ cs \<and> length u \<le> 1 \<and> sys_state S1 = print_st (w @ u) st
    \<and> list_all2 (utters st) (sys_progs S1) (css[t := cs])"
  using assms(1)
proof (cases rule: exec_step_cases)
  case (acquire l p)
  with assms(2) have "utters st (Acquire l p) (css ! t)" by (metis list_all2_nthD)
  then have "utters st p (css ! t)" by (rule utters_AcquireE)
  from list_all2_update_cong [OF assms(2) this, of t] acquire assms(2,3) show ?thesis
    by - (rule exI [of _ "[]"], rule exI [of _ "css ! t"], auto simp: goes_on_def list_all2_lengthD)
next
  case (release l p)
  with assms(2) have "utters st (Release l p) (css ! t)" by (metis list_all2_nthD)
  then have "utters st p (css ! t)" by (rule utters_ReleaseE)
  from list_all2_update_cong [OF assms(2) this, of t] release assms(2,3) show ?thesis
    by - (rule exI [of _ "[]"], rule exI [of _ "css ! t"], auto simp: goes_on_def list_all2_lengthD)
next
  case (body f s' p)
  with assms(2) have "utters st (Do f) (css ! t)" by (metis list_all2_nthD)
  then consider (silent) q where "\<forall>w. f (print_st w st) = Inr (print_st w st, q)" "utters st q (css ! t)"
    | (char) c q cs where "css ! t = c # cs" "\<forall>w. f (print_st w st) = Inr (print_st (w @ [c]) st, q)"
      "utters st q cs"
    by (rule utters_DoE) blast+
  then obtain u cs where u: "css ! t = u @ cs" "length u \<le> 1" "s' = print_st (w @ u) st" "utters st p cs"
  proof cases
    case silent
    with body(3) assms(3) that [of "[]" "css ! t"] show thesis by auto
  next
    case (char c)
    with body(3) assms(3) that [of "[c]"] show thesis by auto
  qed
  from list_all2_update_cong [OF assms(2) u(4)] u(1-3) body assms(2) show ?thesis
    by - (rule exI [of _ u], rule exI [of _ cs], auto simp: goes_on_def list_all2_lengthD)
qed

lemma utters_steps:
  assumes "sys_step\<^sup>*\<^sup>* S S'" and "sys_finished S'"
    and "sys_state S = print_st w st" and "list_all2 (utters st) (sys_progs S) css"
  shows "\<exists>out. interleaved css out \<and> sys_state S' = print_st (w @ out) st"
  using assms(1,3,4)
proof (induction arbitrary: w css rule: converse_rtranclp_induct)
  case base
  have "cs = []" if "cs \<in> set css" for cs
  proof -
    from that obtain t where t: "t < length css" "cs = css ! t" by (auto simp: in_set_conv_nth)
    with base(2) have "utters st (sys_progs S' ! t) cs" "t < length (sys_progs S')"
      by (auto simp: list_all2_conv_all_nth)
    with assms(2) have "utters st Return cs" by (simp add: sys_finished_iff)
    then show ?thesis by (rule utters_ReturnE)
  qed
  with base(1) show ?case by (intro exI [of _ "[]"]) (simp add: interleaved_Nil)
next
  case (step S S1)
  then obtain t where "exec_step t S = Inr (Some S1)" by (auto elim: sys_step.cases)
  from utters_step [OF this step.prems(2,1)] obtain u cs where u: "t < length css" "css ! t = u @ cs"
    "length u \<le> 1" "sys_state S1 = print_st (w @ u) st" "list_all2 (utters st) (sys_progs S1) (css[t := cs])"
    by blast
  from step.IH [OF u(4,5)] obtain out where out: "interleaved (css[t := cs]) out"
    "sys_state S' = print_st (w @ u @ out) st" by auto
  have "interleaved css (u @ out)"
  proof (cases u)
    case Nil
    with u(2) out(1) show ?thesis by (metis append_Nil list_update_id)
  next
    case (Cons c v)
    with u(2,3) interleaved_Cons [OF u(1) _ out(1), of c] show ?thesis by simp
  qed
  with out(2) show ?case by blast
qed

inductive_cases interleaved_ConsE: "interleaved xss (x # out)"
inductive_cases interleaved_NilE: "interleaved xss []"

lemma interleaved_shuffles: "interleaved [xs, ys] out \<Longrightarrow> out \<in> shuffles xs ys"
proof (induction out arbitrary: xs ys)
  case (Cons c out)
  from Cons.prems obtain t zs where t: "t < 2" "[xs, ys] ! t = c # zs" "interleaved ([xs, ys][t := zs]) out"
    by (rule interleaved_ConsE) (auto simp: numeral_2_eq_2)
  then consider "xs = c # zs" "interleaved [zs, ys] out" | "ys = c # zs" "interleaved [xs, zs] out"
    by (auto simp: numeral_2_eq_2 less_Suc_eq)
  then show ?case using Cons.IH by cases (auto simp: Cons_in_shuffles_iff)
qed (auto elim: interleaved_NilE)

lemma print_st_inject [simp]: "print_st u st = print_st v st \<longleftrightarrow> u = v"
  by (auto simp: print_st_def print_out_def dest: arg_cong [of _ _ "\<lambda>s. w_stdout (st_world s)"])

lemma utters_log:
  assumes "prints_through st l level i" and "ev_logger ev \<noteq> None"
  shows "utters st (log_alone env l level ev) (output_at env level ev st i)"
proof -
  obtain g a where ga: "loggers st l = Some g" "lg_level g \<le> level" "lg_appenders g = [i]"
    "appenders st i = Some a" "ap_kind a = StdOutLogAppender" "ap_level a \<le> level"
    and f: "ap_formatter a \<noteq> None" using assms(1) by (auto simp: prints_through_def)
  obtain x where x: "appender_text (fmt_env_of env st) level ev a = Inr x"
    using appender_text_total [OF f assms(2)] by blast
  have "utters st (foldr print_char cs k) cs" if "utters st k []" for cs k
    using that by (induction cs) (auto simp: print_char_def act_def intro!: utters_char)
  then have print: "utters st (foldr print_char x (log_end l i)) x"
    by (blast intro: utters.intros)
  have look: "utters st (look_logger l h) x" if "utters st (h g) x" for h
    unfolding look_logger_def by (rule utters_silent [OF _ that]) (simp add: ga(1))
  have look': "utters st (look_appender i h) x" if "utters st (h a) x" for h
    unfolding look_appender_def by (rule utters_silent [OF _ that]) (simp add: ga(4))
  have "utters st (write_stdout_prog env level ev i (log_end l i)) x"
    unfolding write_stdout_prog_def by (rule utters_silent [OF _ print]) (use ga(4) x in simp)
  then show ?thesis
    using ga x
    by (auto simp: log_fuel_def numeral_2_eq_2 appender_log_prog_def StdOutLogAppender_log_prog_def
        output_at_def appender_output_def intro!: look look' utters_Acquire)
qed

text \<open>
  C40: The lock of standard output is the appender's own. Two threads that log through two
  loggers, each with one standard output appender, do not exclude each other: what can come out
  is every mix of the two texts, character by character, and nothing else.
\<close>

theorem two_appenders_mix_lines:
  assumes "prints_through st l1 level1 i1" and "prints_through st l2 level2 i2"
    and "l1 \<noteq> l2" and "i1 \<noteq> i2" and "ev_logger ev1 \<noteq> None" and "ev_logger ev2 \<noteq> None"
  shows "{out. \<exists>S. sys_step\<^sup>*\<^sup>* (log_system st
        [[Log env1 (Pointer l1) level1 ev1], [Log env2 (Pointer l2) level2 ev2]]) S
      \<and> sys_finished S \<and> sys_state S = print_st out st}
    = shuffles (output_at env1 level1 ev1 st i1) (output_at env2 level2 ev2 st i2)"
    (is "{out. \<exists>S. ?reach out S} = shuffles ?t1 ?t2")
proof (rule set_eqI, unfold mem_Collect_eq, rule iffI)
  let ?p = "log_alone env1 l1 level1 ev1" and ?q = "log_alone env2 l2 level2 ev2"
  have start: "log_system st [[Log env1 (Pointer l1) level1 ev1], [Log env2 (Pointer l2) level2 ev2]]
      = \<lparr>sys_state = st, sys_locks = \<lambda>_. new_Spinlock, sys_progs = [?p, ?q]\<rparr>"
    by (simp add: log_system_def new_system_def thread_prog_def)
  {
    fix out
    assume "\<exists>S. ?reach out S"
    then obtain S where S: "sys_step\<^sup>*\<^sup>* \<lparr>sys_state = st, sys_locks = \<lambda>_. new_Spinlock, sys_progs = [?p, ?q]\<rparr> S"
      "sys_finished S" "sys_state S = print_st out st" unfolding start by blast
    have "list_all2 (utters st) [?p, ?q] [?t1, ?t2]"
      using utters_log [OF assms(1,5)] utters_log [OF assms(2,6)] by simp
    with utters_steps [OF S(1,2), of "[]" st "[?t1, ?t2]"] obtain out' where
      "interleaved [?t1, ?t2] out'" "sys_state S = print_st out' st" by auto
    with S(3) interleaved_shuffles show "out \<in> shuffles ?t1 ?t2" by auto
  next
    fix out
    assume "out \<in> shuffles ?t1 ?t2"
    from log_mixed [OF assms(1,2) _ _ assms(5,6) this] assms(3,4) obtain L where
      "sys_step\<^sup>*\<^sup>* \<lparr>sys_state = st, sys_locks = \<lambda>_. new_Spinlock, sys_progs = [?p, ?q]\<rparr>
         \<lparr>sys_state = print_st out st, sys_locks = L, sys_progs = [Return, Return]\<rparr>"
      "\<forall>l. L l = new_Spinlock" by blast
    moreover from this(2) have "sys_finished \<lparr>sys_state = print_st out st, sys_locks = L,
        sys_progs = [Return, Return]\<rparr>" by (simp add: sys_finished_def fun_eq_iff)
    ultimately show "\<exists>S. ?reach out S" unfolding start by fastforce
  }
qed

definition two_loggers_state :: log_state where
  "two_loggers_state =
     (let new = new_StdOutLogAppender\<lparr>ap_formatter := default_formatter_opt\<rparr>
      in start_state\<lparr>loggers := (loggers start_state)(2 \<mapsto> (Logger_init ''net'')\<lparr>lg_appenders := [3]\<rparr>),
           appenders := (appenders start_state)(3 \<mapsto> new), next_loc := 4,
           mgr_loggers := mgr_loggers start_state @ [(''net'', 2)]\<rparr>)"

theorem two_appenders_mix_lines_witness:
  "{out. \<exists>S. sys_step\<^sup>*\<^sup>* (log_system two_loggers_state
        [[Log sample_env (Pointer 0) FATAL sample_event], [Log sample_env (Pointer 2) ERROR sample_event]]) S
      \<and> sys_finished S \<and> sys_state S = print_st out two_loggers_state}
    = shuffles (output_at sample_env FATAL sample_event two_loggers_state 1)
        (output_at sample_env ERROR sample_event two_loggers_state 3)"
proof (rule two_appenders_mix_lines)
  show "prints_through two_loggers_state 0 FATAL 1" "prints_through two_loggers_state 2 ERROR 3"
    by (simp_all add: prints_through_def two_loggers_state_def start_state_def Logger_init_def
        new_StdOutLogAppender_def new_appender_def default_formatter_opt_def Let_def)
qed (simp_all add: sample_event_def new_LogEvent_def)

end
