(* ===== verification/Config_Logging.thy ===== *)
theory Config_Logging
  imports Log_Config_Laws
begin

text \<open>
  Configuration and logging together: the program that has installed the listener of
  \<open>LogIniter\<close> (\<open>chord/logger.cpp\<close>, lines 809-886) loads YAML documents with
  \<open>Config::LoadFromYaml\<close> (\<open>chord/config.cpp\<close>), and the configuration code logs through the
  same manager that the listener reconfigures.
\<close>

section \<open>The host is the logger manager\<close>

text \<open>\<open>CHORD_LOG_INFO(CHORD_LOG_ROOT()) << text\<close> in \<open>config.h\<close> and \<open>config.cpp\<close>, and the other levels.\<close>

definition log_host :: "log_env \<Rightarrow> log_site \<Rightarrow> string \<Rightarrow> log_state host" where
  "log_host env site string_type =
     \<lparr>h_log = (\<lambda>level text st. case CHORD_LOG_LEVEL env site (mgr_root st) level text st of
         Some (Inr st') \<Rightarrow> st' | _ \<Rightarrow> st),
      h_string_type = string_type\<rparr>"

lemma log_host_ok:
  "mgr_ok st \<Longrightarrow> mgr_ok (h_log (log_host env site tn) level txt st)
     \<and> log_frame st (h_log (log_host env site tn) level txt st)"
proof -
  assume ok: "mgr_ok st"
  then obtain g where g: "loggers st (mgr_root st) = Some g" using mgr_root_logger by blast
  let ?ev = "site_event site (mgr_root st) level\<lparr>ev_ss := txt\<rparr>"
  have ev: "ev_logger ?ev = Some (mgr_root st)" by (simp add: site_event_def new_LogEvent_def)
  then obtain st' where "Logger_log env (mgr_root st) (ev_level ?ev) ?ev st = Some (Inr st')"
    "log_frame st st'" "store_ok st'"
    using Logger_log_ok [OF mgr_okD(1) [OF ok] g, of ?ev env "ev_level ?ev"] by auto
  with ok g ev mgr_ok_frame [OF ok log_frame_id_frame] show ?thesis
    by (auto simp: log_host_def CHORD_LOG_LEVEL_def LogEventWrap_destroy_def)
qed

text \<open>Listing the members logs the names that are not valid, and changes nothing else.\<close>

lemma ListAllMember_host:
  assumes "\<And>level txt s. I s \<Longrightarrow> I (h_log H level txt s)" and "I (snd acc)"
  shows "I (snd (ListAllMember Y H prefix node acc))"
  using assms
proof (induction Y H prefix node acc rule: ListAllMember.induct)
  case (1 Y H prefix node outp s)
  show ?case
  proof (cases "find_first_not_of prefix valid_chars = None \<and> (\<exists>es. node = YMap es)")
    case True
    then obtain es where node: "node = YMap es" and ok: "find_first_not_of prefix valid_chars = None" by blast
    have step: "I (snd (ListAllMember Y H (child_name prefix k) v acc))"
      if "(k, v) \<in> set es" "I (snd acc)" for k v acc
      using "1.IH" [of "(outp @ [(prefix, node)], s)" es "(k, v)" k v acc] ok node that "1.prems"(1)
      by simp
    have "I (snd (fold (\<lambda>(k, v) acc. ListAllMember Y H (child_name prefix k) v acc) es acc))"
      if "I (snd acc)" for acc
      by (rule fold_invariant [where Q = "\<lambda>e. e \<in> set es" and P = "\<lambda>acc. I (snd acc)"])
        (use that step in auto)
    then show ?thesis
      using ok node "1.prems"(2) by (simp add: ListAllMember.simps [of Y H prefix "YMap es"])
  next
    case False
    then show ?thesis using "1.prems"
      by (cases node) (auto simp: ListAllMember.simps [of Y H prefix] Let_def)
  qed
qed

section \<open>The variable "logs"\<close>

definition logs_var ::
  "log_env \<Rightarrow> log_site \<Rightarrow> 64 word \<Rightarrow> yaml_lib \<Rightarrow> string \<Rightarrow> define_set \<Rightarrow> (define_set, log_state) ConfigVar"
where
  "logs_var env site uninit Y type_id v =
     (new_ConfigVar (log_define_type Y type_id) ''logs'' v ''logs config'')
       \<lparr>cv_cbs := [(1, conf_listener env site uninit)]\<rparr>"

lemma logs_var_fields [simp]:
  "cv_val (logs_var env site uninit Y type_id v) = v"
  "cv_cbs (logs_var env site uninit Y type_id v) = [(1, conf_listener env site uninit)]"
  "cv_type (logs_var env site uninit Y type_id v) = log_define_type Y type_id"
  "logs_var env site uninit Y type_id v\<lparr>cv_val := w\<rparr> = logs_var env site uninit Y type_id w"
  by (simp_all add: logs_var_def new_ConfigVar_def)

definition logs_config ::
  "log_env \<Rightarrow> log_site \<Rightarrow> 64 word \<Rightarrow> yaml_lib \<Rightarrow> string \<Rightarrow> define_set \<Rightarrow> log_state
     \<Rightarrow> (define_set, log_state) config" where
  "logs_config env site uninit Y type_id v st =
     \<lparr>cfg_datas = [''logs'' \<mapsto> logs_var env site uninit Y type_id v], cfg_host = st\<rparr>"

lemma logs_valid: "valid_name ''logs''" "lower ''logs'' = ''logs''"
  by (simp_all add: valid_name_iff valid_chars_def lower_def tolower_def)

lemma install_logs:
  "install_log_conf env site uninit Y type_id H \<lparr>cfg_datas = Map.empty, cfg_host = st\<rparr> =
     logs_config env site uninit Y type_id [] st"
proof -
  let ?cfg = "\<lparr>cfg_datas = Map.empty, cfg_host = st\<rparr> :: (define_set, log_state) config"
  have "Lookup H (log_define_type Y type_id) ''logs'' [] ''logs config'' ?cfg =
      (Inr (Some ''logs''), ?cfg\<lparr>cfg_datas := [''logs'' \<mapsto>
         new_ConfigVar (log_define_type Y type_id) ''logs'' [] ''logs config'']\<rparr>)"
    using Lookup_new [of ?cfg "''logs''" H "log_define_type Y type_id" "[]" "''logs config''"] logs_valid(1)
    by simp
  then show ?thesis
    by (simp add: install_log_conf_def addListener_def Let_def logs_config_def logs_var_def)
qed

text \<open>What the conversion gives is ordered by name, so no name is defined twice.\<close>

definition yields :: "('a \<Rightarrow> bool) \<Rightarrow> 'e + 'a \<Rightarrow> bool" where
  "yields Q r \<longleftrightarrow> (\<forall>x. r = Inr x \<longrightarrow> Q x)"

lemma yields_Inr: "Q x \<Longrightarrow> yields Q (Inr x)"
  by (simp add: yields_def)

lemma yields_bind: "(\<And>a. yields Q (f a)) \<Longrightarrow> yields Q (sum_bind r f)"
  by (cases r) (auto simp: yields_def)

lemma define_at_ordered:
  assumes "oset_ok ld_name (fst s)"
  shows "yields (\<lambda>s. oset_ok ld_name (fst s)) (define_at Y node i s)"
  using assms oset_ok_insert [of ld_name "fst s"]
  by (auto simp: define_at_def Let_def set_insert_def intro!: yields_bind yields_Inr
      split: option.split prod.split)

lemma defines_ordered:
  assumes "defines_from_string Y txt = Inr (v, out)"
  shows "oset_ok ld_name v \<and> inj_on ld_name (set v)"
proof -
  obtain node where "for_each (define_at Y node) [0..<node_size node] ([], []) = Inr (v, out)"
    using assms by (auto simp: defines_from_string_def sum_bind_Inr_iff)
  then have "oset_ok ld_name (fst (v, out))"
  proof (rule for_each_invariant [where I = "\<lambda>s. oset_ok ld_name (fst s)"])
    show "oset_ok ld_name (fst ([] :: define_set, [] :: string))" by (simp add: oset_ok_def)
    show "oset_ok ld_name (fst s')" if "oset_ok ld_name (fst s)" "define_at Y node i s = Inr s'" for i s s'
      using define_at_ordered [OF that(1), of Y node i] that(2) by (simp add: yields_def)
  qed
  then have ok: "oset_ok ld_name v" by simp
  then have "distinct (map ld_name v)" by (simp add: oset_ok_def strict_sorted_iff)
  with ok show ?thesis by (simp add: distinct_map)
qed

section \<open>Loading a document\<close>

lemma load_nodes_logs:
  assumes "\<forall>(key, m) \<in> set is. valid_name key"
    and "filter (\<lambda>i. fst i = ''logs'') is = [(''logs'', n)]"
    and "\<And>cfg'. load_one Y H (''logs'', n) (logs_config env site uninit Y tid v st) = Returns cfg' \<Longrightarrow>
      dom (cfg_datas cfg') \<subseteq> {''logs''}"
  shows "load_nodes Y H is (logs_config env site uninit Y tid v st) =
    load_one Y H (''logs'', n) (logs_config env site uninit Y tid v st)"
proof -
  have other: "load_one Y H (key, m) cfg = Returns cfg"
    if "valid_name key" "key \<noteq> ''logs''" "dom (cfg_datas cfg) \<subseteq> {''logs''}"
    for key m and cfg :: "(define_set, log_state) config"
  proof -
    have "cfg_datas cfg key = None" using that(2,3) by auto
    with that(1) show ?thesis by (simp add: load_one_def LookupBase_def valid_name_lower)
  qed
  have rest: "load_nodes Y H js cfg = Returns cfg"
    if "\<forall>(key, m) \<in> set js. valid_name key" "filter (\<lambda>i. fst i = ''logs'') js = []"
      "dom (cfg_datas cfg) \<subseteq> {''logs''}" for js and cfg :: "(define_set, log_state) config"
    using that by (induction js) (auto simp: other split: if_splits)
  have dom: "dom (cfg_datas (logs_config env site uninit Y tid v st)) \<subseteq> {''logs''}"
    by (simp add: logs_config_def)
  show ?thesis
    using assms(1,2)
  proof (induction "is")
    case (Cons i "is")
    obtain key m where i: "i = (key, m)" by fastforce
    show ?case
    proof (cases "key = ''logs''")
      case True
      with Cons.prems(2) i have n: "m = n" "filter (\<lambda>i. fst i = ''logs'') is = []" by simp_all
      have "\<forall>(key, m) \<in> set is. valid_name key" using Cons.prems(1) by simp
      from rest [OF this n(2)] assms(3) show ?thesis
        unfolding i True n(1) by (auto split: outcome.split)
    next
      case False
      with Cons i other [OF _ False dom] show ?thesis by simp
    qed
  qed simp
qed

text \<open>A document with one node "logs": its value is set, through the listener.\<close>

lemma LoadFromYaml_logs:
  assumes ok: "mgr_ok st" and one: "filter (\<lambda>i. fst i = ''logs'') (members [] root) = [(''logs'', n)]"
    and new: "defines_from_string Y (node_text Y n) = Inr (new, out)"
  shows "\<exists>st1. mgr_ok st1 \<and> log_frame st st1
    \<and> LoadFromYaml Y (log_host env site tn) root (logs_config env site uninit Y tid v st) =
        (if new = v then Returns (logs_config env site uninit Y tid v st1)
         else case conf_listener env site uninit v new st1 of
             Returns s' \<Rightarrow> Returns (logs_config env site uninit Y tid new s')
           | Throws e s' \<Rightarrow> load_one Y (log_host env site tn) (''logs'', n)
               (logs_config env site uninit Y tid v st1)
           | Crashes c \<Rightarrow> Crashes c)"
proof -
  let ?H = "log_host env site tn"
  obtain st1 where st1: "ListAllMember Y ?H [] root ([], st) = (members [] root, st1)"
    using ListAllMember_members [of Y ?H "[]" root "([], st)"] by (metis append_Nil fst_conv surj_pair)
  have keep: "mgr_ok (h_log ?H level msg s) \<and> log_frame st (h_log ?H level msg s)"
    if "mgr_ok s \<and> log_frame st s" for level msg s
    using log_host_ok [of s env site tn level msg] that log_frame_trans by blast
  have ok1: "mgr_ok st1 \<and> log_frame st st1"
    using ListAllMember_host [where I = "\<lambda>s. mgr_ok s \<and> log_frame st s" and acc = "([], st)" and H = ?H,
        OF keep] ok st1 by (metis snd_conv log_frame_refl)
  let ?cfg = "logs_config env site uninit Y tid v st1"
  have load: "LoadFromYaml Y ?H root (logs_config env site uninit Y tid v st) =
      load_nodes Y ?H (members [] root) ?cfg"
    using st1 by (simp add: LoadFromYaml_def logs_config_def)
  have from_new: "t_from (log_define_type Y tid) (node_text Y n) = Inr new"
    using new by (simp add: log_define_type_def)
  have step: "load_one Y ?H (''logs'', n) ?cfg =
      (if new = v then Returns ?cfg
       else case conf_listener env site uninit v new st1 of
           Returns s' \<Rightarrow> Returns (logs_config env site uninit Y tid new s')
         | Throws e s' \<Rightarrow> load_one Y ?H (''logs'', n) ?cfg
         | Crashes c \<Rightarrow> Crashes c)"
    using from_new logs_valid
    by (auto simp: load_one_def LookupBase_def var_fromString_def logs_config_def fromString_def
        setValue_def split: outcome.split)
  have "load_nodes Y ?H (members [] root) ?cfg = load_one Y ?H (''logs'', n) ?cfg"
  proof (rule load_nodes_logs [OF _ one])
    show "\<forall>(key, m) \<in> set (members [] root). valid_name key"
      using members_listed listed_valid by auto
    fix cfg' assume "load_one Y ?H (''logs'', n) ?cfg = Returns cfg'"
    from load_one_cases [OF this logs_valid(1)] show "dom (cfg_datas cfg') \<subseteq> {''logs''}"
      by (auto simp: logs_config_def split: if_splits)
  qed
  with load step ok1 show ?thesis by (intro exI [of _ st1]) simp
qed

text \<open>
  C2: From the YAML document to the loggers. A program that has installed the listener loads a
  document with one node "logs" whose definitions are all new or changed and have appenders of
  known types: the call returns, the variable holds the new definitions, the manager's invariant
  holds, every defined name leads to a logger with the level, formatter and appenders of its
  definition, the names that were defined before and are no longer lead to silent loggers, and
  loggers under other names stay as they were. A document with the definitions the variable has
  changes no logger.
\<close>

theorem document_configures_loggers:
  assumes "mgr_ok st" and "filter (\<lambda>i. fst i = ''logs'') (members [] root) = [(''logs'', n)]"
    and "defines_from_string Y (node_text Y n) = Inr (new, out)"
    and "new = old \<or> (\<forall>i \<in> set new. \<not> fatal_define old i)"
  shows "\<exists>st'. LoadFromYaml Y (log_host env site tn) root (logs_config env site uninit Y tid old st) =
        Returns (logs_config env site uninit Y tid new st')
    \<and> mgr_ok st'
    \<and> (new \<noteq> old \<longrightarrow> (\<forall>i \<in> set new. named_as st' i)
        \<and> (\<forall>i \<in> set old. set_find i new = None \<longrightarrow> retired st' (ld_name i)))
    \<and> others_kept (if new = old then {} else ld_name ` (set old \<union> set new)) st st'
    \<and> install_log_conf env site uninit Y tid (log_host env site tn)
        \<lparr>cfg_datas = Map.empty, cfg_host = st\<rparr> = logs_config env site uninit Y tid [] st"
proof -
  from LoadFromYaml_logs [OF assms(1-3), of env site tn uninit tid old] obtain st1 where st1: "mgr_ok st1" "log_frame st st1"
    "LoadFromYaml Y (log_host env site tn) root (logs_config env site uninit Y tid old st) =
        (if new = old then Returns (logs_config env site uninit Y tid old st1)
         else case conf_listener env site uninit old new st1 of
             Returns s' \<Rightarrow> Returns (logs_config env site uninit Y tid new s')
           | Throws e s' \<Rightarrow> load_one Y (log_host env site tn) (''logs'', n)
               (logs_config env site uninit Y tid old st1)
           | Crashes c \<Rightarrow> Crashes c)" by blast
  show ?thesis
  proof (cases "new = old")
    case True
    with st1 install_logs others_kept_log show ?thesis by auto
  next
    case False
    obtain st2 where st2: "mgr_ok st2" "log_frame st1 st2" "conf_listener env site uninit old new st1 =
        as_outcome (Some (apply_defines uninit old new st2))"
      using conf_listener_logs [OF st1(1)] by blast
    have "\<forall>i \<in> set new. \<not> fatal_define old i" using assms(4) False by blast
    from apply_defines_works [OF st2(1) conjunct2 [OF defines_ordered [OF assms(3)]] this, of uninit]
    obtain st' where "apply_defines uninit old new st2 = Inr st'" "mgr_ok st'"
      "\<forall>i \<in> set new. named_as st' i" "\<forall>i \<in> set old. set_find i new = None \<longrightarrow> retired st' (ld_name i)"
      "others_kept (ld_name ` (set old \<union> set new)) st2 st'"
      by (elim exE conjE)
    moreover have "others_kept (ld_name ` (set old \<union> set new)) st st'"
      using others_kept_trans [OF others_kept_log [OF log_frame_trans [OF st1(2) st2(2)]]] calculation(5) .
    ultimately show ?thesis using False st1(3) st2(3) install_logs by (auto simp: as_outcome_def)
  qed
qed

text \<open>
  C26: Loading a changed document in which one of the definitions is the same as before ends the
  process: so no logger can be added to a configuration, or changed in it, while another one
  stays as it is.
\<close>

theorem document_with_unchanged_logger_crashes:
  assumes "mgr_ok st" and "filter (\<lambda>i. fst i = ''logs'') (members [] root) = [(''logs'', n)]"
    and "defines_from_string Y (node_text Y n) = Inr (new, out)"
    and "new \<noteq> old" and "i \<in> set new" and "set_find i old = Some i"
  shows "LoadFromYaml Y (log_host env site tn) root (logs_config env site uninit Y tid old st) =
    Crashes Null_deref"
proof -
  from LoadFromYaml_logs [OF assms(1-3), of env site tn uninit tid old] obtain st1 where st1: "mgr_ok st1" "log_frame st st1"
    "LoadFromYaml Y (log_host env site tn) root (logs_config env site uninit Y tid old st) =
        (case conf_listener env site uninit old new st1 of
             Returns s' \<Rightarrow> Returns (logs_config env site uninit Y tid new s')
           | Throws e s' \<Rightarrow> load_one Y (log_host env site tn) (''logs'', n)
               (logs_config env site uninit Y tid old st1)
           | Crashes c \<Rightarrow> Crashes c)" using assms(4) by (auto simp only: if_False)
  have "fatal_define old i" using assms(6) by (simp add: fatal_define_def)
  from apply_defines_fatal [OF assms(5) this] conf_listener_logs [OF st1(1)]
  have "conf_listener env site uninit old new st1 = Crashes Null_deref"
    by (metis as_outcome_def option.simps(5) sum.simps(5))
  with st1(3) show ?thesis by simp
qed

section \<open>Instances\<close>

text \<open>A document with the definitions of "http" and "net" under "logs".\<close>

definition sample_document :: yaml where
  "sample_document = YMap [(YScalar ''logs'', defines_node sample_set)]"

definition sample_loaded :: define_set where
  "sample_loaded = map kept_define sample_set"

lemma sample_loaded_eq:
  "sample_loaded = [sample_old, new_LogDefine\<lparr>ld_name := ''net'',
     ld_appenders := [new_LogAppenderDefine\<lparr>lad_type := 2\<rparr>]\<rparr>]"
  by (simp add: sample_loaded_def sample_set_def kept_define_def kept_appender_def known_type_def
      sample_old_def sample_define_def new_LogDefine_def)

lemma sample_document_members:
  "filter (\<lambda>i. fst i = ''logs'') (members [] sample_document) = [(''logs'', defines_node sample_set)]"
proof -
  have node: "defines_node sample_set = YSeq (map define_node sample_set)"
    by (simp add: defines_node_eq sample_set_def)
  have "valid_name []" by (rule sample_valid)
  with logs_valid(1) show ?thesis
    by (simp add: sample_document_def node child_name_def members.simps [of "[]"]
        members.simps [of "''logs''"])
qed

lemma sample_document_defines:
  "\<exists>out. defines_from_string sample_reader (node_text sample_reader (defines_node sample_set)) =
     Inr (sample_loaded, out)"
proof -
  have "yaml_access sample_reader" "yaml_reload sample_reader (defines_node sample_set)"
    by (simp_all add: yaml_access_def yaml_reload_def sample_reader_def sample_yaml_def)
  moreover have "oset_ok ld_name sample_set"
    by (simp add: oset_ok_def sample_set_def sample_old_def sample_define_def less_list_code
        less_char_def)
  moreover have "node_text sample_reader (defines_node sample_set) = defines_to_string sample_reader sample_set"
    by (simp add: node_text_def defines_to_string_def defines_node_eq sample_set_def)
  ultimately show ?thesis using defines_reload unfolding sample_loaded_def by metis
qed

theorem document_configures_loggers_witness:
  "\<exists>st'. LoadFromYaml sample_reader (log_host sample_env sample_site ''s'') sample_document
        (logs_config sample_env sample_site 0 sample_reader ''d'' [] start_state) =
      Returns (logs_config sample_env sample_site 0 sample_reader ''d'' sample_loaded st')
    \<and> named_as st' sample_old"
proof -
  obtain out where defs: "defines_from_string sample_reader (node_text sample_reader (defines_node sample_set)) =
     Inr (sample_loaded, out)" using sample_document_defines by blast
  have "\<forall>i \<in> set sample_loaded. \<not> fatal_define [] i"
    by (simp add: sample_loaded_eq fatal_define_def set_find_def oset_find_def known_type_def
        sample_old_def new_LogDefine_def)
  then have new: "sample_loaded = [] \<or> (\<forall>i \<in> set sample_loaded. \<not> fatal_define [] i)" ..
  from document_configures_loggers [OF start_state_ok sample_document_members defs new,
      of sample_env sample_site "''s''" 0 "''d''"]
  show ?thesis by (auto simp: sample_loaded_eq)
qed

theorem document_with_unchanged_logger_crashes_witness:
  "LoadFromYaml sample_reader (log_host sample_env sample_site ''s'') sample_document
     (logs_config sample_env sample_site 0 sample_reader ''d'' [sample_old] start_state) =
   Crashes Null_deref"
proof -
  obtain out where defs: "defines_from_string sample_reader (node_text sample_reader (defines_node sample_set)) =
     Inr (sample_loaded, out)" using sample_document_defines by blast
  have "sample_loaded \<noteq> [sample_old]" "sample_old \<in> set sample_loaded"
    "set_find sample_old [sample_old] = Some sample_old"
    by (simp_all add: sample_loaded_eq set_find_def oset_find_def)
  from document_with_unchanged_logger_crashes [OF start_state_ok sample_document_members defs this]
  show ?thesis .
qed

end
