(* ===== verification/Backtrace.thy ===== *)
theory Backtrace
  imports Log_Formatter
begin

text \<open>
  The stack traces of the assertion macros (\<open>chord/util.cpp\<close>, lines 23-52): \<open>Backtrace\<close> and
  \<open>BacktraceToString\<close>. The library calls \<open>backtrace\<close> and \<open>backtrace_symbols\<close> are one parameter:
  the descriptions of at most the given number of frames, innermost first, or nothing.
\<close>

section \<open>Definitions\<close>

text \<open>
  \<open>skip\<close> is an \<open>int\<close> that the loop's \<open>size_t\<close> starts from, so a negative value becomes a huge one.
  The result is the vector and the log.
\<close>

definition frames_from :: "32 word \<Rightarrow> string list \<Rightarrow> string list" where
  "frames_from skip strings =
     map (\<lambda>i. strings ! i) [unat (scast skip :: 64 word)..<length strings]"

definition backtrace_into ::
  "(nat \<Rightarrow> string list option) \<Rightarrow> 32 word \<Rightarrow> 32 word \<Rightarrow> string list \<times> (Level \<times> string) list
     \<Rightarrow> string list \<times> (Level \<times> string) list" where
  "backtrace_into symbols sz skip = (\<lambda>(bt, log).
     case symbols (unat sz) of
       None \<Rightarrow> (bt, log @ [(ERROR, ''backtrace_symbols error'')])
     | Some strings \<Rightarrow> (bt @ frames_from skip strings, log))"

definition BacktraceToString ::
  "(nat \<Rightarrow> string list option) \<Rightarrow> 32 word \<Rightarrow> 32 word \<Rightarrow> string \<Rightarrow> (Level \<times> string) list
     \<Rightarrow> string \<times> (Level \<times> string) list" where
  "BacktraceToString symbols sz skip prefix log =
     (case backtrace_into symbols sz skip ([], log) of
        (bt, log') \<Rightarrow>
          (fold (\<lambda>i ss. ss @ prefix @ bt ! i @ newline) [0..<length bt] [], log'))"

section \<open>Laws\<close>

lemma frames_from_drop:
  assumes "0 \<le> sint skip"
  shows "frames_from skip strings = drop (nat (sint skip)) strings"
proof -
  have "sint skip < 2 ^ 31" using sint_lt [of skip] by simp
  have "(scast skip :: 64 word) = word_of_int (sint skip)" by (simp only: scast_eq)
  then have "uint (scast skip :: 64 word) = take_bit 64 (sint skip)"
    by (simp only: unsigned_of_int) simp
  with assms \<open>sint skip < 2 ^ 31\<close> have "uint (scast skip :: 64 word) = sint skip"
    by (simp add: take_bit_int_eq_self_iff)
  then have start: "unat (scast skip :: 64 word) = nat (sint skip)" by (simp only: unat_eq_nat_uint)
  have "map ((!) strings) [n..<length strings] = drop n (map ((!) strings) [0..<length strings])" for n
    by (simp add: drop_map)
  then show ?thesis by (simp add: frames_from_def start map_nth)
qed

text \<open>One line per frame.\<close>

lemma fold_lines:
  "fold (\<lambda>i ss. ss @ prefix @ bt ! i @ newline) [0..<length bt] [] =
     concat (map (\<lambda>l. prefix @ l @ newline) bt)"
proof -
  have "fold (\<lambda>i ss. ss @ prefix @ bt ! i @ newline) [0..<n] [] =
      concat (map (\<lambda>l. prefix @ l @ newline) (take n bt))" if "n \<le> length bt" for n
    using that by (induction n) (simp_all add: take_Suc_conv_app_nth)
  from this [of "length bt"] show ?thesis by simp
qed

lemma BacktraceToString_lines:
  assumes "symbols (unat sz) = Some strings" and "0 \<le> sint skip"
  shows "BacktraceToString symbols sz skip prefix log =
    (concat (map (\<lambda>l. prefix @ l @ newline) (drop (nat (sint skip)) strings)), log)"
  using assms by (simp add: BacktraceToString_def backtrace_into_def fold_lines frames_from_drop)

end
