(* ===== verification/Assertions.thy ===== *)
theory Assertions
  imports Backtrace Logger_Manager
begin

text \<open>
  The assertion macros (\<open>chord/marco.h\<close>), which log to the root logger before they end the
  process, and the singleton the logger manager is reached through (\<open>chord/singleton.h\<close>;
  \<open>CHORD_LOG_ROOT\<close> and \<open>CHORD_LOG_NAME\<close> of \<open>chord/config.h\<close>, lines 46-47).
\<close>

section \<open>Assertions\<close>

text \<open>
  How the macro ends: control goes on behind it, \<open>assert\<close> aborts the process, or the logging ends
  the process. The state is what the condition can see and change: the rest of the program, of
  type \<open>'p\<close>, and the loggers. \<open>NDEBUG\<close> is not defined in the build.
\<close>

datatype 'p assert_end = Passed "'p \<times> log_state" | Aborted "'p \<times> log_state" | Broken crash

text \<open>
  What \<open>BacktraceToString\<close> logs on the way goes to the logger "system", which the library keeps
  a pointer to; the macro's event is sent at the end of the statement.
\<close>

definition log_lines_to ::
  "log_env \<Rightarrow> log_site \<Rightarrow> nat \<Rightarrow> (Level \<times> string) list \<Rightarrow> log_state \<Rightarrow> log_state may_crash" where
  "log_lines_to env site l =
     for_each (\<lambda>(level, txt) st.
       case CHORD_LOG_LEVEL env site l level txt st of None \<Rightarrow> Inl Deadlock | Some r \<Rightarrow> r)"

definition assert_text :: "string \<Rightarrow> string option \<Rightarrow> string \<Rightarrow> string" where
  "assert_text x w trace =
     ''ASSERTION: '' @ x @ (case w of None \<Rightarrow> [] | Some t \<Rightarrow> newline @ t)
       @ newline @ ''backtrace:'' @ newline @ trace"

definition log_assertion ::
  "log_env \<Rightarrow> log_site \<Rightarrow> log_site \<Rightarrow> (nat \<Rightarrow> string list option) \<Rightarrow> nat \<Rightarrow> string \<Rightarrow> string option
     \<Rightarrow> log_state \<Rightarrow> log_state may_crash" where
  "log_assertion env site util_site symbols system x w st =
     (case loggers st (mgr_root st) of
        None \<Rightarrow> Inl Null_deref
      | Some g \<Rightarrow>
          if lg_level g \<le> ERROR then
            (case BacktraceToString symbols 20 2 ''    '' [] of
               (trace, lines) \<Rightarrow>
                 sum_bind (log_lines_to env util_site system lines st) (\<lambda>st1.
                   case LogEventWrap_destroy env
                       (site_event site (mgr_root st) ERROR\<lparr>ev_ss := assert_text x w trace\<rparr>) st1 of
                     None \<Rightarrow> Inl Deadlock
                   | Some r \<Rightarrow> r))
          else Inr st)"

text \<open>
  The macros evaluate the condition, an expression that may have side effects, twice: in \<open>if\<close> and,
  after the event was sent, in \<open>assert\<close>.
\<close>

definition assert_again :: "('p \<times> log_state \<Rightarrow> bool \<times> 'p \<times> log_state) \<Rightarrow> 'p \<times> log_state \<Rightarrow> 'p assert_end"
where
  "assert_again cond s = (case cond s of (b, s') \<Rightarrow> if b then Passed s' else Aborted s')"

definition CHORD_ASSERT2 ::
  "log_env \<Rightarrow> log_site \<Rightarrow> log_site \<Rightarrow> (nat \<Rightarrow> string list option) \<Rightarrow> nat
     \<Rightarrow> ('p \<times> log_state \<Rightarrow> bool \<times> 'p \<times> log_state) \<Rightarrow> string \<Rightarrow> string \<Rightarrow> 'p \<times> log_state \<Rightarrow> 'p assert_end"
where
  "CHORD_ASSERT2 env site util_site symbols system cond x w s =
     (case cond s of (b, p, st) \<Rightarrow>
        if \<not> b then
          (case log_assertion env site util_site symbols system x (Some w) st of
             Inl c \<Rightarrow> Broken c | Inr st' \<Rightarrow> assert_again cond (p, st'))
        else Passed (p, st))"

definition CHORD_ASSERT ::
  "log_env \<Rightarrow> log_site \<Rightarrow> log_site \<Rightarrow> (nat \<Rightarrow> string list option) \<Rightarrow> nat
     \<Rightarrow> ('p \<times> log_state \<Rightarrow> bool \<times> 'p \<times> log_state) \<Rightarrow> string \<Rightarrow> 'p \<times> log_state \<Rightarrow> 'p assert_end"
where
  "CHORD_ASSERT env site util_site symbols system cond x s =
     (case cond s of (b, p, st) \<Rightarrow>
        if \<not> b then
          (case log_assertion env site util_site symbols system x None st of
             Inl c \<Rightarrow> Broken c | Inr st' \<Rightarrow> assert_again cond (p, st'))
        else Passed (p, st))"

lemma CHORD_LOG_LEVEL_ok:
  assumes "mgr_ok st" and "loggers st l \<noteq> None"
  shows "\<exists>st'. CHORD_LOG_LEVEL env site l level txt st = Some (Inr st') \<and> log_frame st st' \<and> mgr_ok st'"
proof -
  obtain g where g: "loggers st l = Some g" using assms(2) by blast
  let ?ev = "site_event site l level\<lparr>ev_ss := txt\<rparr>"
  have ev: "ev_logger ?ev = Some l" by (simp add: site_event_def new_LogEvent_def)
  then obtain st' where st': "Logger_log env l (ev_level ?ev) ?ev st = Some (Inr st')"
    "log_frame st st'" "store_ok st'"
    using Logger_log_ok [OF mgr_okD(1) [OF assms(1)] g, of ?ev env "ev_level ?ev"] by auto
  have "mgr_ok st'" using mgr_ok_frame [OF assms(1) log_frame_id_frame [OF st'(2)] st'(3)] .
  with g ev st' assms(1) show ?thesis
    by (cases "lg_level g \<le> level") (auto simp: CHORD_LOG_LEVEL_def LogEventWrap_destroy_def)
qed

lemma log_lines_to_ok:
  assumes "mgr_ok st" and "loggers st l \<noteq> None"
  shows "\<exists>st'. log_lines_to env site l lines st = Inr st' \<and> log_frame st st' \<and> mgr_ok st'"
  using assms
proof (induction lines arbitrary: st)
  case (Cons e lines)
  obtain level msg where e: "e = (level, msg)" by fastforce
  from CHORD_LOG_LEVEL_ok [OF Cons.prems] obtain s1 where s1: "log_frame st s1" "mgr_ok s1"
    "CHORD_LOG_LEVEL env site l level msg st = Some (Inr s1)" by blast
  have "loggers s1 l \<noteq> None" using s1(1) Cons.prems(2) by (simp add: log_frame_def)
  from Cons.IH [OF s1(2) this] log_frame_trans [OF s1(1)] s1(3) e show ?case
    by (auto simp: log_lines_to_def)
qed (simp add: log_lines_to_def)

text \<open>The event reaches the root logger in the state the lines for "system" leave.\<close>

lemma log_assertion_ok:
  assumes "mgr_ok st" and "loggers st system \<noteq> None" and "loggers st (mgr_root st) = Some g"
    and "lg_level g \<le> ERROR" and "BacktraceToString symbols 20 2 ''    '' [] = (trace, lines)"
  shows "\<exists>st1 st'. log_lines_to env util_site system lines st = Inr st1 \<and> mgr_ok st'
    \<and> Logger_log env (mgr_root st) ERROR
        (site_event site (mgr_root st) ERROR\<lparr>ev_ss := assert_text x w trace\<rparr>) st1 = Some (Inr st')
    \<and> log_assertion env site util_site symbols system x w st = Inr st'"
proof -
  obtain st1 where st1: "log_lines_to env util_site system lines st = Inr st1" "log_frame st st1" "mgr_ok st1"
    using log_lines_to_ok [OF assms(1,2)] by blast
  let ?ev = "site_event site (mgr_root st) ERROR\<lparr>ev_ss := assert_text x w trace\<rparr>"
  have ev: "ev_logger ?ev = Some (mgr_root st)" "ev_level ?ev = ERROR"
    by (simp_all add: site_event_def new_LogEvent_def)
  have g1: "loggers st1 (mgr_root st) = Some g" using st1(2) assms(3) by (simp add: log_frame_def)
  obtain st' where st': "Logger_log env (mgr_root st) ERROR ?ev st1 = Some (Inr st')" "log_frame st1 st'"
    "store_ok st'"
    using Logger_log_ok [OF mgr_okD(1) [OF st1(3)] g1, of ?ev env ERROR] ev(1) by auto
  have "mgr_ok st'" using mgr_ok_frame [OF st1(3) log_frame_id_frame [OF st'(2)] st'(3)] .
  with assms(3-5) st1(1) ev st'(1) show ?thesis
    by (simp add: log_assertion_def LogEventWrap_destroy_def)
qed

text \<open>
  C25: A failed assertion. When the condition is false at its first evaluation, in the state
  \<open>(p, st)\<close> that this evaluation leaves, the event is sent without a crash and the condition is
  evaluated again; the process ends in \<open>assert\<close> exactly if it is false again, and otherwise control
  goes on as if nothing had failed. A condition without side effects that does not look at the
  loggers always ends the process. If the stack could be read and the root logger passes errors to
  appenders that all write to standard output, the second evaluation starts in the state with one
  more text of each of them: what its formatter makes of the event whose message is the condition,
  the message of the macro, and a line for every frame from the third on.
\<close>

theorem failed_assertion_reports:
  assumes "cond s = (False, p, st)" and "mgr_ok st" and "loggers st system \<noteq> None"
  shows "\<exists>st'. CHORD_ASSERT2 env site util_site symbols system cond x w s =
        (if fst (cond (p, st')) then Passed (snd (cond (p, st'))) else Aborted (snd (cond (p, st'))))
    \<and> mgr_ok st'
    \<and> (\<forall>holds. (\<forall>q l. cond (q, l) = (holds q, q, l)) \<longrightarrow>
         CHORD_ASSERT2 env site util_site symbols system cond x w s = Aborted (p, st'))
    \<and> (\<forall>frames g. symbols 20 = Some frames \<longrightarrow> loggers st (mgr_root st) = Some g \<longrightarrow>
         lg_level g \<le> ERROR \<longrightarrow> lg_appenders g \<noteq> [] \<longrightarrow>
         (\<forall>i \<in> set (lg_appenders g). \<exists>a. appenders st i = Some a \<and> ap_kind a = StdOutLogAppender) \<longrightarrow>
         st' = print_st (concat (map (output_at env ERROR (site_event site (mgr_root st) ERROR
             \<lparr>ev_ss := ''ASSERTION: '' @ x @ newline @ w @ newline @ ''backtrace:'' @ newline
                @ concat (map (\<lambda>l. ''    '' @ l @ newline) (drop 2 frames))\<rparr>) st)
           (lg_appenders g))) st)"
proof -
  obtain g where g: "loggers st (mgr_root st) = Some g" using mgr_root_logger [OF assms(2)] .
  have ends: "CHORD_ASSERT2 env site util_site symbols system cond x w s =
      (if fst (cond (p, st')) then Passed (snd (cond (p, st'))) else Aborted (snd (cond (p, st'))))
    \<and> (\<forall>holds. (\<forall>q l. cond (q, l) = (holds q, q, l)) \<longrightarrow>
         CHORD_ASSERT2 env site util_site symbols system cond x w s = Aborted (p, st'))"
    if "log_assertion env site util_site symbols system x (Some w) st = Inr st'" for st'
  proof -
    have run: "CHORD_ASSERT2 env site util_site symbols system cond x w s = assert_again cond (p, st')"
      using that assms(1) by (simp add: CHORD_ASSERT2_def)
    have "assert_again cond (p, st') = Aborted (p, st')" if "\<forall>q l. cond (q, l) = (holds q, q, l)" for holds
      using assms(1) that by (cases s) (simp add: assert_again_def)
    with run show ?thesis by (auto simp: assert_again_def split: prod.split)
  qed
  show ?thesis
  proof (cases "lg_level g \<le> ERROR")
    case False
    with g have "log_assertion env site util_site symbols system x (Some w) st = Inr st"
      by (simp add: log_assertion_def)
    note e = ends [OF this]
    show ?thesis
      by (intro exI [of _ st] conjI, rule conjunct1 [OF e], rule assms(2), rule conjunct2 [OF e])
        (use g False in auto)
  next
    case True
    obtain trace lines where bt: "BacktraceToString symbols 20 2 ''    '' [] = (trace, lines)" by fastforce
    from log_assertion_ok [OF assms(2,3) g True bt] obtain st1 st' where
      st': "log_lines_to env util_site system lines st = Inr st1" "mgr_ok st'"
        "Logger_log env (mgr_root st) ERROR
          (site_event site (mgr_root st) ERROR\<lparr>ev_ss := assert_text x (Some w) trace\<rparr>) st1 = Some (Inr st')"
        "log_assertion env site util_site symbols system x (Some w) st = Inr st'" by blast
    have printed: "st' = print_st (concat (map (output_at env ERROR (site_event site (mgr_root st) ERROR
             \<lparr>ev_ss := ''ASSERTION: '' @ x @ newline @ w @ newline @ ''backtrace:'' @ newline
                @ concat (map (\<lambda>l. ''    '' @ l @ newline) (drop 2 frames))\<rparr>) st) (lg_appenders g))) st"
      if frames: "symbols 20 = Some frames" and as: "lg_appenders g \<noteq> []"
        "\<forall>i \<in> set (lg_appenders g). \<exists>a. appenders st i = Some a \<and> ap_kind a = StdOutLogAppender" for frames
    proof -
      have t: "trace = concat (map (\<lambda>l. ''    '' @ l @ newline) (drop 2 frames))" "lines = []"
        using BacktraceToString_lines [of symbols 20 frames 2 "''    ''" "[]"] frames bt by simp_all
      have "\<forall>i \<in> set (lg_appenders g). \<exists>a. appenders st i = Some a \<and> ap_kind a = StdOutLogAppender
          \<and> ap_formatter a \<noteq> None"
        using as(2) store_okD(2) [OF mgr_okD(1) [OF assms(2)] g] by (fastforce simp: logger_ok_def)
      from log_loop_stdout [OF this] g True as(1) st'(1,3) t show ?thesis
        by (simp add: Logger_log_appenders log_lines_to_def assert_text_def site_event_def new_LogEvent_def)
    qed
    note e = ends [OF st'(4)]
    show ?thesis
      by (intro exI [of _ st'] conjI, rule conjunct1 [OF e], rule st'(2), rule conjunct2 [OF e])
        (use g printed in auto)
  qed
qed

section \<open>The singleton\<close>

text \<open>
  \<open>Singleton<T>::GetInstance\<close> and \<open>SingletonPtr<T>::GetInstance\<close>: the local static object is
  constructed by the first call; every call hands out the same object. \<open>ctor\<close> is its
  constructor, \<open>None\<close> the object that is not there yet.
\<close>

definition Singleton_GetInstance :: "('e + 'a) \<Rightarrow> 'a option \<Rightarrow> 'e + 'a" where
  "Singleton_GetInstance ctor v = (case v of Some x \<Rightarrow> Inr x | None \<Rightarrow> ctor)"

text \<open>The state of the one manager, before or after its construction.\<close>

definition LoggerMgr :: "world \<Rightarrow> log_state option \<Rightarrow> log_state may_crash" where
  "LoggerMgr w v = Singleton_GetInstance (new_LoggerManager w) v"

definition CHORD_LOG_ROOT_macro :: "world \<Rightarrow> log_state option \<Rightarrow> crash + nat \<times> log_state" where
  "CHORD_LOG_ROOT_macro w v = sum_bind (LoggerMgr w v) (\<lambda>st. Inr (mgr_root st, st))"

definition CHORD_LOG_NAME_macro :: "world \<Rightarrow> string \<Rightarrow> log_state option \<Rightarrow> crash + nat \<times> log_state" where
  "CHORD_LOG_NAME_macro w name v = sum_bind (LoggerMgr w v) (\<lambda>st. Inr (getLogger name st))"

text \<open>
  Whichever macro runs first makes the manager; the next one finds it: asking for "root" by name
  gives the root logger, in either order.
\<close>

lemma manager_on_first_use:
  "\<exists>r st. CHORD_LOG_ROOT_macro w None = Inr (r, st) \<and> api_reachable st
    \<and> CHORD_LOG_ROOT_macro w (Some st) = Inr (r, st)
    \<and> CHORD_LOG_NAME_macro w ''root'' None = Inr (r, st)
    \<and> CHORD_LOG_NAME_macro w ''root'' (Some st) = Inr (r, st)"
proof -
  obtain st where st: "new_LoggerManager w = Inr st" by (simp add: new_LoggerManager_eq)
  have "map_of (mgr_loggers st) ''root'' = Some (mgr_root st)"
    using mgr_okD(3) [OF new_LoggerManager_ok [OF st]] .
  with st api_reachable.start [OF st] show ?thesis
    by (auto simp: CHORD_LOG_ROOT_macro_def CHORD_LOG_NAME_macro_def LoggerMgr_def Singleton_GetInstance_def
        getLogger_def)
qed

section \<open>Instances\<close>

text \<open>A condition that counts its evaluations fails only the first time: nothing is aborted.\<close>

definition counting :: "nat \<times> log_state \<Rightarrow> bool \<times> nat \<times> log_state" where
  "counting s = (case s of (n, st) \<Rightarrow> (0 < n, n + 1, st))"

definition positive :: "nat \<times> log_state \<Rightarrow> bool \<times> nat \<times> log_state" where
  "positive s = (case s of (n, st) \<Rightarrow> (0 < n, n, st))"

theorem failed_assertion_reports_witness:
  "(\<exists>st'. CHORD_ASSERT2 sample_env sample_site sample_site (\<lambda>n. Some [''a'', ''b'', ''main'']) 0 positive
      ''n > 0'' ''n'' (0, start_state) = Aborted (0, st') \<and> mgr_ok st')
   \<and> (\<exists>st'. CHORD_ASSERT2 sample_env sample_site sample_site (\<lambda>n. Some [''a'', ''b'', ''main'']) 0 counting
      ''n++ > 0'' ''n'' (0, start_state) = Passed (2, st') \<and> mgr_ok st')"
proof -
  have there: "loggers start_state 0 \<noteq> None" by (simp add: start_state_def)
  have first: "positive (0, start_state) = (False, 0, start_state)"
    "counting (0, start_state) = (False, 1, start_state)" by (simp_all add: positive_def counting_def)
  have "\<forall>q l. positive (q, l) = (0 < q, q, l)" by (simp add: positive_def)
  with failed_assertion_reports [where cond = positive and s = "(0, start_state)" and p = 0 and st = start_state
      and system = 0 and env = sample_env and site = sample_site and util_site = sample_site
      and symbols = "\<lambda>n. Some [''a'', ''b'', ''main'']" and x = "''n > 0''" and w = "''n''",
      OF first(1) start_state_ok there]
  have "\<exists>st'. CHORD_ASSERT2 sample_env sample_site sample_site (\<lambda>n. Some [''a'', ''b'', ''main'']) 0 positive
      ''n > 0'' ''n'' (0, start_state) = Aborted (0, st') \<and> mgr_ok st'"
    by (elim exE conjE) (rule exI, rule conjI, erule allE [of _ "\<lambda>q. 0 < q"], erule mp, assumption+)
  moreover have "\<exists>st'. CHORD_ASSERT2 sample_env sample_site sample_site (\<lambda>n. Some [''a'', ''b'', ''main'']) 0
      counting ''n++ > 0'' ''n'' (0, start_state) = Passed (2, st') \<and> mgr_ok st'"
    using failed_assertion_reports [where cond = counting and s = "(0, start_state)" and p = 1 and st = start_state
      and system = 0 and env = sample_env and site = sample_site and util_site = sample_site
      and symbols = "\<lambda>n. Some [''a'', ''b'', ''main'']" and x = "''n++ > 0''" and w = "''n''",
      OF first(2) start_state_ok there]
    by (elim exE conjE) (rule exI, rule conjI, simp add: counting_def, assumption)
  ultimately show ?thesis by blast
qed

end
