(* ===== verification/Lexical_Cast.thy ===== *)
theory Lexical_Cast
  imports Config_Var Yaml_Node
begin

text \<open>
  The conversions between values and text (\<open>LexicalCast\<close> of \<open>chord/config.h\<close>, lines 79-305):
  the containers are written as one YAML document whose items are the documents of the elements,
  and read back item by item. The primary template calls \<open>boost::lexical_cast\<close>, which is a
  parameter: a pair of functions. An element conversion is an argument of the container's, so
  that nested containers arise by nesting the definitions, as the code's templates do.
\<close>

section \<open>Sequences and sets\<close>

text \<open>
  The loop over \<open>node[i]\<close>, for every container that is filled one element after the other.
\<close>

definition read_items ::
  "yaml_lib \<Rightarrow> (string \<Rightarrow> exn + 'a) \<Rightarrow> ('a \<Rightarrow> 'c \<Rightarrow> 'c) \<Rightarrow> 'c \<Rightarrow> string \<Rightarrow> exn + 'c" where
  "read_items Y from add start v =
     sum_bind (y_Load Y v) (\<lambda>node.
       for_each (\<lambda>i c. sum_bind (y_index Y node i) (\<lambda>n.
                       sum_bind (from (y_emit Y n)) (\<lambda>x. Inr (add x c))))
         [0..<node_size node] start)"

definition vector_from :: "yaml_lib \<Rightarrow> (string \<Rightarrow> exn + 'a) \<Rightarrow> string \<Rightarrow> exn + 'a list" where
  "vector_from Y from = read_items Y from (\<lambda>x vec. vec @ [x]) []"

definition list_from :: "yaml_lib \<Rightarrow> (string \<Rightarrow> exn + 'a) \<Rightarrow> string \<Rightarrow> exn + 'a list" where
  "list_from Y from = read_items Y from (\<lambda>x l. l @ [x]) []"

text \<open>A \<open>std::set\<close> is the list of its elements in order; an unordered set is a set.\<close>

definition set_from :: "yaml_lib \<Rightarrow> (string \<Rightarrow> exn + 'a::linorder) \<Rightarrow> string \<Rightarrow> exn + 'a list" where
  "set_from Y from = read_items Y from (oset_insert (\<lambda>x. x)) []"

definition unordered_set_from :: "yaml_lib \<Rightarrow> (string \<Rightarrow> exn + 'a) \<Rightarrow> string \<Rightarrow> exn + 'a set" where
  "unordered_set_from Y from = read_items Y from insert {}"

text \<open>The loop over the elements, in the container's iteration order.\<close>

definition write_items :: "yaml_lib \<Rightarrow> ('a \<Rightarrow> exn + string) \<Rightarrow> 'a list \<Rightarrow> exn + string" where
  "write_items Y to v =
     sum_bind
       (for_each (\<lambda>i node. sum_bind (to i) (\<lambda>s. sum_bind (y_Load Y s) (\<lambda>n. Inr (node_push n node)))) v YNull)
       (\<lambda>node. Inr (y_emit Y node))"

definition vector_to :: "yaml_lib \<Rightarrow> ('a \<Rightarrow> exn + string) \<Rightarrow> 'a list \<Rightarrow> exn + string" where
  "vector_to = write_items"

definition list_to :: "yaml_lib \<Rightarrow> ('a \<Rightarrow> exn + string) \<Rightarrow> 'a list \<Rightarrow> exn + string" where
  "list_to = write_items"

definition set_to :: "yaml_lib \<Rightarrow> ('a \<Rightarrow> exn + string) \<Rightarrow> 'a list \<Rightarrow> exn + string" where
  "set_to = write_items"

text \<open>The iteration order of a hash table is not specified: a parameter of the writers.\<close>

definition unordered_set_to ::
  "yaml_lib \<Rightarrow> ('a set \<Rightarrow> 'a list) \<Rightarrow> ('a \<Rightarrow> exn + string) \<Rightarrow> 'a set \<Rightarrow> exn + string" where
  "unordered_set_to Y order to v = write_items Y to (order v)"

section \<open>Maps\<close>

definition read_pairs ::
  "yaml_lib \<Rightarrow> (string \<Rightarrow> exn + 'a) \<Rightarrow> (string \<Rightarrow> 'a \<Rightarrow> 'c \<Rightarrow> 'c) \<Rightarrow> 'c \<Rightarrow> string \<Rightarrow> exn + 'c" where
  "read_pairs Y from add start v =
     sum_bind (y_Load Y v) (\<lambda>node.
     sum_bind (y_pairs Y node) (\<lambda>es.
       for_each (\<lambda>(k, n) m. sum_bind (from (y_emit Y n)) (\<lambda>x. Inr (add k x m))) es start))"

text \<open>\<open>m.insert\<close> keeps an entry that is already there.\<close>

definition smap_insert :: "string \<Rightarrow> 'a \<Rightarrow> (string \<times> 'a) list \<Rightarrow> (string \<times> 'a) list" where
  "smap_insert k x m = (if map_of m k = None then smap_put k x m else m)"

definition umap_insert :: "string \<Rightarrow> 'a \<Rightarrow> (string \<Rightarrow> 'a option) \<Rightarrow> string \<Rightarrow> 'a option" where
  "umap_insert k x m = (if m k = None then m(k \<mapsto> x) else m)"

definition map_from ::
  "yaml_lib \<Rightarrow> (string \<Rightarrow> exn + 'a) \<Rightarrow> string \<Rightarrow> exn + (string \<times> 'a) list" where
  "map_from Y from = read_pairs Y from smap_insert []"

definition unordered_map_from ::
  "yaml_lib \<Rightarrow> (string \<Rightarrow> exn + 'a) \<Rightarrow> string \<Rightarrow> exn + (string \<Rightarrow> 'a option)" where
  "unordered_map_from Y from = read_pairs Y from umap_insert (\<lambda>_. None)"

definition write_pairs ::
  "yaml_lib \<Rightarrow> ('a \<Rightarrow> exn + string) \<Rightarrow> (string \<times> 'a) list \<Rightarrow> exn + string" where
  "write_pairs Y to v =
     sum_bind
       (for_each (\<lambda>(k, x) node. sum_bind (to x) (\<lambda>s. sum_bind (y_Load Y s) (\<lambda>n. Inr (node_put k n node)))) v YNull)
       (\<lambda>node. Inr (y_emit Y node))"

definition map_to ::
  "yaml_lib \<Rightarrow> ('a \<Rightarrow> exn + string) \<Rightarrow> (string \<times> 'a) list \<Rightarrow> exn + string" where
  "map_to = write_pairs"

definition unordered_map_to ::
  "yaml_lib \<Rightarrow> ((string \<Rightarrow> 'a option) \<Rightarrow> (string \<times> 'a) list) \<Rightarrow> ('a \<Rightarrow> exn + string)
     \<Rightarrow> (string \<Rightarrow> 'a option) \<Rightarrow> exn + string" where
  "unordered_map_to Y order to v = write_pairs Y to (order v)"

section \<open>What reading computes\<close>

text \<open>Converting the elements one by one, up to the first that fails.\<close>

fun convert_all :: "('a \<Rightarrow> exn + 'b) \<Rightarrow> 'a list \<Rightarrow> exn + 'b list" where
  "convert_all f [] = Inr []"
| "convert_all f (x # xs) =
     sum_bind (f x) (\<lambda>y. sum_bind (convert_all f xs) (\<lambda>ys. Inr (y # ys)))"

lemma for_each_convert:
  "for_each (\<lambda>n c. sum_bind (g n) (\<lambda>x. Inr (add x c))) ns st =
     map_sum id (\<lambda>xs. fold add xs st) (convert_all g ns)"
proof (induction ns arbitrary: st)
  case (Cons n ns)
  show ?case
  proof (cases "g n")
    case (Inr x)
    with Cons show ?thesis by (cases "convert_all g ns") simp_all
  qed simp
qed simp

lemma convert_all_Inr_iff:
  "convert_all f xs = Inr ys \<longleftrightarrow> list_all2 (\<lambda>x y. f x = Inr y) xs ys"
  by (induction xs arbitrary: ys) (auto simp: sum_bind_Inr_iff list_all2_Cons1)

lemma convert_all_error:
  "list_all2 (\<lambda>x y. f x = Inr y) pre ys \<Longrightarrow> f x = Inl e \<Longrightarrow> convert_all f (pre @ x # post) = Inl e"
  by (induction pre ys rule: list_all2_induct) simp_all

lemma read_items_seq:
  assumes "yaml_access Y" and "y_Load Y v = Inr (YSeq ns)"
  shows "read_items Y from add st v =
    map_sum id (\<lambda>xs. fold add xs st) (convert_all (\<lambda>n. from (y_emit Y n)) ns)"
proof -
  have "for_each (\<lambda>i c. sum_bind (y_index Y (YSeq ns) i) (\<lambda>n.
      sum_bind (from (y_emit Y n)) (\<lambda>x. Inr (add x c)))) [0..<length ns] st =
    for_each (\<lambda>n c. sum_bind (from (y_emit Y n)) (\<lambda>x. Inr (add x c))) ns st"
    by (rule for_each_nth) (simp add: yaml_accessD(1) [OF assms(1)])
  with assms(2) show ?thesis by (simp add: read_items_def for_each_convert)
qed

lemma read_items_null: "y_Load Y v = Inr YNull \<Longrightarrow> read_items Y from add st v = Inr st"
  by (simp add: read_items_def)

lemma fold_append_one: "fold (\<lambda>x xs. xs @ [x]) ys zs = zs @ ys"
  by (induction ys arbitrary: zs) simp_all

lemma oset_ok_fold: "oset_ok key st \<Longrightarrow> oset_ok key (fold (oset_insert key) xs st)"
  by (induction xs arbitrary: st) (simp_all add: oset_ok_insert)

lemma set_oset_insert: "set (oset_insert (\<lambda>x. x) x ys) = insert x (set ys)"
  using set_keys_oset_insert [of "\<lambda>x. x" x ys] by simp

lemma set_fold_oset: "set (fold (oset_insert (\<lambda>x. x)) xs st) = set xs \<union> set st"
  by (induction xs arbitrary: st) (auto simp: set_oset_insert)

lemma fold_insert: "fold insert xs st = set xs \<union> st"
  by (induction xs arbitrary: st) auto

text \<open>
  Reading a document that is a sequence. The conversion of every item's text decides: if all
  succeed, a vector and a list hold the results in the document's order, a set holds them once
  each in its own order, and an unordered set holds the same elements; if one fails, the
  conversion fails with the error of the first item that does. A null document is the empty
  container.
\<close>

lemma containers_from_sequence:
  assumes "yaml_access Y" and "y_Load Y v = Inr (YSeq ns)"
  shows "(\<forall>xs. list_all2 (\<lambda>n x. from (y_emit Y n) = Inr x) ns xs \<longrightarrow>
      vector_from Y from v = Inr xs \<and> list_from Y from v = Inr xs
      \<and> (\<exists>s. set_from Y from v = Inr s \<and> sorted_wrt (<) s \<and> set s = set xs)
      \<and> unordered_set_from Y from v = Inr (set xs))
    \<and> (\<forall>pre n post ys e. ns = pre @ n # post \<longrightarrow>
      list_all2 (\<lambda>n x. from (y_emit Y n) = Inr x) pre ys \<longrightarrow> from (y_emit Y n) = Inl e \<longrightarrow>
      vector_from Y from v = Inl e \<and> list_from Y from v = Inl e \<and> set_from Y from v = Inl e
      \<and> unordered_set_from Y from v = Inl e)
    \<and> (y_Load Y w = Inr YNull \<longrightarrow> vector_from Y from w = Inr [] \<and> list_from Y from w = Inr []
      \<and> set_from Y from w = Inr [] \<and> unordered_set_from Y from w = Inr {})"
proof (intro conjI allI impI)
  note defs = vector_from_def list_from_def set_from_def unordered_set_from_def
  note read = read_items_seq [OF assms]
  fix xs
  assume "list_all2 (\<lambda>n x. from (y_emit Y n) = Inr x) ns xs"
  then have all: "convert_all (\<lambda>n. from (y_emit Y n)) ns = Inr xs"
    by (simp add: convert_all_Inr_iff)
  show "vector_from Y from v = Inr xs" "list_from Y from v = Inr xs"
    "unordered_set_from Y from v = Inr (set xs)"
    unfolding defs read all by (simp_all add: fold_append_one fold_insert)
  have "oset_ok (\<lambda>x. x) []" by (simp add: oset_ok_def)
  from oset_ok_fold [OF this, of xs]
  show "\<exists>s. set_from Y from v = Inr s \<and> sorted_wrt (<) s \<and> set s = set xs"
    unfolding defs read all by (simp add: set_fold_oset oset_ok_def)
next
  note defs = vector_from_def list_from_def set_from_def unordered_set_from_def
  note read = read_items_seq [OF assms]
  fix pre n post ys e
  assume "ns = pre @ n # post" "list_all2 (\<lambda>n x. from (y_emit Y n) = Inr x) pre ys"
    "from (y_emit Y n) = Inl e"
  then have all: "convert_all (\<lambda>n. from (y_emit Y n)) ns = Inl e"
    by (simp add: convert_all_error)
  show "vector_from Y from v = Inl e" "list_from Y from v = Inl e" "set_from Y from v = Inl e"
    "unordered_set_from Y from v = Inl e"
    unfolding defs read all by simp_all
qed (simp_all add: vector_from_def list_from_def set_from_def unordered_set_from_def read_items_null)

section \<open>The contract of an element\<close>

text \<open>
  What a container relies on: the text of a value in \<open>ok\<close> is a document with the node \<open>node\<close>,
  and the text that node is emitted as converts back to the value.
\<close>

locale element_cast =
  fixes Y :: yaml_lib
    and from_fn :: "string \<Rightarrow> exn + 'a"
    and to_fn :: "'a \<Rightarrow> exn + string"
    and node :: "'a \<Rightarrow> yaml"
    and ok :: "'a \<Rightarrow> bool"
  assumes writes: "ok x \<Longrightarrow> \<exists>s. to_fn x = Inr s \<and> y_Load Y s = Inr (node x)"
    and reads: "ok x \<Longrightarrow> from_fn (y_emit Y (node x)) = Inr x"
begin

lemma push_items:
  "list_all ok xs \<Longrightarrow>
   for_each (\<lambda>i nd. sum_bind (to_fn i) (\<lambda>s. sum_bind (y_Load Y s) (\<lambda>n. Inr (node_push n nd)))) xs nd =
     Inr (fold (\<lambda>x. node_push (node x)) xs nd)"
proof (induction xs arbitrary: nd)
  case (Cons x xs)
  then have "\<exists>s. to_fn x = Inr s \<and> y_Load Y s = Inr (node x)" using writes [of x] by simp
  with Cons show ?case by auto
qed simp

lemma put_items:
  "list_all (\<lambda>(k, x). ok x) ms \<Longrightarrow>
   for_each (\<lambda>(k, x) nd. sum_bind (to_fn x) (\<lambda>s. sum_bind (y_Load Y s) (\<lambda>n. Inr (node_put k n nd)))) ms nd =
     Inr (fold (\<lambda>(k, x). node_put k (node x)) ms nd)"
proof (induction ms arbitrary: nd)
  case (Cons m ms)
  obtain k x where m: "m = (k, x)" by (cases m)
  with Cons.prems have "\<exists>s. to_fn x = Inr s \<and> y_Load Y s = Inr (node x)" using writes [of x] by simp
  with Cons m show ?case by auto
qed simp

lemma convert_nodes:
  "list_all ok xs \<Longrightarrow> convert_all (\<lambda>n. from_fn (y_emit Y n)) (map node xs) = Inr xs"
  by (induction xs) (simp_all add: reads)

end

text \<open>The node of a sequence and of a map; a container without elements is a null node.\<close>

definition seq_node :: "yaml list \<Rightarrow> yaml" where
  "seq_node ns = (if ns = [] then YNull else YSeq ns)"

definition map_node :: "(string \<times> yaml) list \<Rightarrow> yaml" where
  "map_node es = (if es = [] then YNull else YMap (map (\<lambda>(k, n). (YScalar k, n)) es))"

text \<open>The documents of the container and, through \<open>ok\<close>, of its elements are read back.\<close>

definition seq_ok :: "yaml_lib \<Rightarrow> ('a \<Rightarrow> yaml) \<Rightarrow> ('a \<Rightarrow> bool) \<Rightarrow> 'a list \<Rightarrow> bool" where
  "seq_ok Y node ok xs \<longleftrightarrow>
     yaml_access Y \<and> list_all ok xs \<and> yaml_reload Y (seq_node (map node xs))"

definition pairs_ok :: "yaml_lib \<Rightarrow> ('a \<Rightarrow> yaml) \<Rightarrow> ('a \<Rightarrow> bool) \<Rightarrow> (string \<times> 'a) list \<Rightarrow> bool" where
  "pairs_ok Y node ok ms \<longleftrightarrow>
     yaml_access Y \<and> distinct (map fst ms) \<and> list_all (\<lambda>(k, x). ok x) ms
     \<and> yaml_reload Y (map_node (map (\<lambda>(k, x). (k, node x)) ms))"

lemma fold_seq_node: "fold (\<lambda>x. node_push (f x)) xs YNull = seq_node (map f xs)"
proof (cases xs)
  case (Cons x ys)
  have "fold (\<lambda>x. node_push (f x)) ys (YSeq zs) = YSeq (zs @ map f ys)" for zs
    by (induction ys arbitrary: zs) simp_all
  with Cons show ?thesis by (simp add: seq_node_def)
qed (simp add: seq_node_def)

lemma put_entry_fresh: "k \<notin> fst ` set es \<Longrightarrow> put_entry k v es = es @ [(k, v)]"
  by (induction es) auto

lemma fold_map_node:
  assumes "distinct (map fst ms)"
  shows "fold (\<lambda>(k, x). node_put k (f x)) ms YNull = map_node (map (\<lambda>(k, x). (k, f x)) ms)"
  using assms
proof (induction ms rule: rev_induct)
  case (snoc m ms)
  obtain k x where m: "m = (k, x)" by (cases m)
  let ?es = "map (\<lambda>(k, n). (YScalar k, n)) (map (\<lambda>(k, x). (k, f x)) ms)"
  have entries: "node_entries (map_node (map (\<lambda>(k, x). (k, f x)) ms)) = ?es"
    by (simp add: map_node_def)
  have "YScalar k \<notin> fst ` set ?es"
    using snoc.prems m by (auto simp: image_iff)
  from put_entry_fresh [OF this, of "f x"] snoc m
  show ?case by (simp add: node_put_def entries) (simp add: map_node_def)
qed (simp add: map_node_def)

context element_cast
begin

lemma write_items_ok:
  "list_all ok xs \<Longrightarrow> write_items Y to_fn xs = Inr (y_emit Y (seq_node (map node xs)))"
  by (simp add: write_items_def push_items fold_seq_node)

lemma write_pairs_ok:
  "list_all (\<lambda>(k, x). ok x) ms \<Longrightarrow> distinct (map fst ms) \<Longrightarrow>
   write_pairs Y to_fn ms = Inr (y_emit Y (map_node (map (\<lambda>(k, x). (k, node x)) ms)))"
  by (simp add: write_pairs_def put_items fold_map_node)

lemma read_items_ok:
  assumes "seq_ok Y node ok xs"
  shows "read_items Y from_fn add st (y_emit Y (seq_node (map node xs))) = Inr (fold add xs st)"
proof -
  from assms have "yaml_access Y" "list_all ok xs"
    and load: "y_Load Y (y_emit Y (seq_node (map node xs))) = Inr (seq_node (map node xs))"
    by (simp_all add: seq_ok_def yaml_reload_def)
  show ?thesis
  proof (cases "xs = []")
    case True
    with load show ?thesis by (simp add: seq_node_def read_items_null)
  next
    case False
    with load have load': "y_Load Y (y_emit Y (seq_node (map node xs))) = Inr (YSeq (map node xs))"
      by (simp add: seq_node_def)
    from \<open>list_all ok xs\<close> show ?thesis
      by (simp add: read_items_seq [OF \<open>yaml_access Y\<close> load'] convert_nodes)
  qed
qed

lemma read_pairs_ok:
  assumes "pairs_ok Y node ok ms"
  shows "read_pairs Y from_fn add st (y_emit Y (map_node (map (\<lambda>(k, x). (k, node x)) ms))) =
    Inr (fold (\<lambda>(k, x). add k x) ms st)"
proof -
  let ?es = "map (\<lambda>(k, x). (k, node x)) ms"
  from assms have load: "y_Load Y (y_emit Y (map_node ?es)) = Inr (map_node ?es)"
    and ok: "list_all (\<lambda>(k, x). ok x) ms" and access: "yaml_access Y"
    by (simp_all add: pairs_ok_def yaml_reload_def)
  have "map ((\<lambda>(k, v). (Scalar_of k, v)) \<circ> ((\<lambda>(k, n). (YScalar k, n)) \<circ> (\<lambda>(k, x). (k, node x)))) ms
      = ?es"
    by auto
  then have "y_pairs Y (map_node ?es) = Inr ?es"
    using yaml_accessD(5,6) [OF access] by (simp add: map_node_def)
  moreover have "for_each (\<lambda>(k, n) m. sum_bind (from_fn (y_emit Y n)) (\<lambda>x. Inr (add k x m))) ?es st =
      Inr (fold (\<lambda>(k, x). add k x) ms st)"
    using ok by (induction ms arbitrary: st) (auto simp: reads)
  ultimately show ?thesis using load by (simp add: read_pairs_def)
qed

end

section \<open>Containers as values and as elements\<close>

text \<open>What a configuration variable relies on: a value's text converts back to the value.\<close>

locale value_cast =
  fixes from_fn :: "string \<Rightarrow> exn + 'a"
    and to_fn :: "'a \<Rightarrow> exn + string"
    and ok :: "'a \<Rightarrow> bool"
  assumes text_back: "ok x \<Longrightarrow> \<exists>s. to_fn x = Inr s \<and> from_fn s = Inr x"
begin

text \<open>The text of one variable, given to another of the same type, transfers the value.\<close>

lemma transfer:
  assumes "t_from T = from_fn" and "t_to T = to_fn" and "cv_type v = T" and "cv_type w = T"
    and "ok (cv_val v)" and "cv_cbs w = []"
  shows "\<exists>txt. toString H v s = Returns (txt, s)
    \<and> fromString H txt w s' = Returns (False, w\<lparr>cv_val := cv_val v\<rparr>, s')"
proof -
  obtain t where "to_fn (cv_val v) = Inr t" "from_fn t = Inr (cv_val v)"
    using text_back [OF assms(5)] by blast
  with assms(1-4,6) show ?thesis
    by (intro exI [of _ t]) (simp add: toString_def fromString_def setValue_def)
qed

end

context element_cast
begin

lemma seq_writes:
  "seq_ok Y node ok xs \<Longrightarrow>
   write_items Y to_fn xs = Inr (y_emit Y (seq_node (map node xs)))
   \<and> y_Load Y (y_emit Y (seq_node (map node xs))) = Inr (seq_node (map node xs))"
  by (simp add: seq_ok_def write_items_ok yaml_reload_def)

lemma pairs_writes:
  "pairs_ok Y node ok ms \<Longrightarrow>
   write_pairs Y to_fn ms = Inr (y_emit Y (map_node (map (\<lambda>(k, x). (k, node x)) ms)))
   \<and> y_Load Y (y_emit Y (map_node (map (\<lambda>(k, x). (k, node x)) ms)))
       = Inr (map_node (map (\<lambda>(k, x). (k, node x)) ms))"
  by (simp add: pairs_ok_def write_pairs_ok yaml_reload_def)

text \<open>A vector, a list and a map of good elements is a good element itself.\<close>

lemma vector_element:
  "element_cast Y (vector_from Y from_fn) (vector_to Y to_fn) (\<lambda>xs. seq_node (map node xs))
     (seq_ok Y node ok)"
  by unfold_locales
    (use seq_writes in \<open>auto simp: vector_from_def vector_to_def read_items_ok fold_append_one\<close>)

lemma list_element:
  "element_cast Y (list_from Y from_fn) (list_to Y to_fn) (\<lambda>xs. seq_node (map node xs))
     (seq_ok Y node ok)"
  by unfold_locales
    (use seq_writes in \<open>auto simp: list_from_def list_to_def read_items_ok fold_append_one\<close>)

lemma fold_smap_insert:
  "smap_ok (ns @ ms) \<Longrightarrow> fold (\<lambda>(k, x). smap_insert k x) ms ns = ns @ ms"
proof (induction ms arbitrary: ns)
  case (Cons m ms)
  obtain k x where m: "m = (k, x)" by (cases m)
  with Cons.prems have "\<forall>k' \<in> fst ` set ns. k' < k"
    by (auto simp: smap_ok_def sorted_wrt_append)
  moreover from this have "map_of ns k = None" by (auto simp: map_of_eq_None_iff)
  ultimately have "smap_insert k x ns = ns @ [(k, x)]"
    by (simp add: smap_insert_def smap_put_greatest)
  with Cons.IH [of "ns @ [m]"] Cons.prems m show ?case by simp
qed simp

lemma map_element:
  "element_cast Y (map_from Y from_fn) (map_to Y to_fn)
     (\<lambda>ms. map_node (map (\<lambda>(k, x). (k, node x)) ms)) (\<lambda>ms. smap_ok ms \<and> pairs_ok Y node ok ms)"
  by unfold_locales
    (use pairs_writes fold_smap_insert [of "[]"] in
      \<open>auto simp: map_from_def map_to_def read_pairs_ok\<close>)

lemma fold_umap_insert:
  "distinct (map fst ms) \<Longrightarrow> \<forall>k \<in> fst ` set ms. m k = None \<Longrightarrow>
   fold (\<lambda>(k, x). umap_insert k x) ms m = m ++ map_of ms"
proof (induction ms arbitrary: m)
  case (Cons e ms)
  obtain k x where e: "e = (k, x)" by (cases e)
  with Cons.prems have new: "umap_insert k x m = m(k \<mapsto> x)" by (simp add: umap_insert_def)
  have "fold (\<lambda>(k, x). umap_insert k x) ms (m(k \<mapsto> x)) = m(k \<mapsto> x) ++ map_of ms"
    using Cons.prems e by (intro Cons.IH) (auto simp: image_iff)
  moreover have none: "map_of ms k = None" using Cons.prems(1) e by (simp add: map_of_eq_None_iff)
  moreover have "m(k \<mapsto> x) ++ map_of ms = m ++ map_of (e # ms)"
    using e none by (auto simp: fun_eq_iff map_add_def split: option.split)
  ultimately show ?case using e new by (simp only: fold.simps comp_apply prod.case)
qed simp

lemma unordered_set_value:
  assumes "set (order s) = s" and "seq_ok Y node ok (order s)"
  shows "\<exists>t. unordered_set_to Y order to_fn s = Inr t \<and> unordered_set_from Y from_fn t = Inr s"
  using seq_writes [OF assms(2)] assms
  by (simp add: unordered_set_to_def unordered_set_from_def read_items_ok fold_insert)

lemma unordered_map_value:
  assumes "map_of (order m) = m" and "pairs_ok Y node ok (order m)"
  shows "\<exists>t. unordered_map_to Y order to_fn m = Inr t \<and> unordered_map_from Y from_fn t = Inr m"
proof -
  have "distinct (map fst (order m))" using assms(2) by (simp add: pairs_ok_def)
  from fold_umap_insert [OF this, of "\<lambda>_. None"] assms pairs_writes [OF assms(2)] show ?thesis
    by (simp add: unordered_map_to_def unordered_map_from_def read_pairs_ok)
qed

end

text \<open>Every good element is a value as soon as it writes the text of its node, as containers do.\<close>

sublocale element_cast \<subseteq> vector_value: value_cast "vector_from Y from_fn" "vector_to Y to_fn" "seq_ok Y node ok"
  by unfold_locales
    (use seq_writes in \<open>auto simp: vector_from_def vector_to_def read_items_ok fold_append_one\<close>)

sublocale element_cast \<subseteq> list_value: value_cast "list_from Y from_fn" "list_to Y to_fn" "seq_ok Y node ok"
  by unfold_locales
    (use seq_writes in \<open>auto simp: list_from_def list_to_def read_items_ok fold_append_one\<close>)

sublocale element_cast \<subseteq> map_value: value_cast "map_from Y from_fn" "map_to Y to_fn"
    "\<lambda>ms. smap_ok ms \<and> pairs_ok Y node ok ms"
  by unfold_locales
    (use pairs_writes fold_smap_insert [of "[]"] in
      \<open>auto simp: map_from_def map_to_def read_pairs_ok\<close>)

section \<open>Scalars\<close>

text \<open>
  \<open>boost::lexical_cast\<close> to and from a type, and the values whose text is a plain YAML scalar:
  read as a scalar with this text, and emitted as the text alone.
\<close>

record 'a scalar_cast =
  sc_from :: "string \<Rightarrow> exn + 'a"
  sc_to :: "'a \<Rightarrow> exn + string"

definition scalar_node :: "'a scalar_cast \<Rightarrow> 'a \<Rightarrow> yaml" where
  "scalar_node C x = YScalar (case sc_to C x of Inl e \<Rightarrow> [] | Inr s \<Rightarrow> s)"

definition scalar_ok :: "yaml_lib \<Rightarrow> 'a scalar_cast \<Rightarrow> 'a \<Rightarrow> bool" where
  "scalar_ok Y C x \<longleftrightarrow>
     (case sc_to C x of
        Inl e \<Rightarrow> False
      | Inr s \<Rightarrow> y_Load Y s = Inr (YScalar s) \<and> y_emit Y (YScalar s) = s \<and> sc_from C s = Inr x)"

interpretation scalar: element_cast Y "sc_from C" "sc_to C" "scalar_node C" "scalar_ok Y C"
  for Y and C :: "'a scalar_cast"
  by unfold_locales (auto simp: scalar_ok_def scalar_node_def split: sum.splits)

text \<open>Containers of scalars as elements of other containers.\<close>

interpretation scalar_vector:
  element_cast Y "vector_from Y (sc_from C)" "vector_to Y (sc_to C)"
    "\<lambda>xs. seq_node (map (scalar_node C) xs)" "seq_ok Y (scalar_node C) (scalar_ok Y C)"
  for Y and C :: "'a scalar_cast"
  by (rule scalar.vector_element)

lemma set_value:
  assumes "seq_ok Y (scalar_node C) (scalar_ok Y C) xs" and "sorted_wrt (<) (xs :: 'a::linorder list)"
  shows "\<exists>s. set_to Y (sc_to C) xs = Inr s \<and> set_from Y (sc_from C) s = Inr xs"
  using scalar.seq_writes [OF assms(1)] assms fold_oset_insert [of "\<lambda>x. x" "[]" xs]
  by (simp add: set_to_def set_from_def scalar.read_items_ok oset_ok_def)

text \<open>
  C37: Writing a container of scalars and reading the text back gives the container: a vector, a
  list, a sorted set, an unordered set in whatever order it is iterated, and both kinds of map,
  as long as the text of every element is a plain YAML scalar that converts back to it (the empty
  string is none) and the document reloads.
\<close>

theorem container_roundtrip:
  fixes C :: "'a::linorder scalar_cast"
  assumes "seq_ok Y (scalar_node C) (scalar_ok Y C) xs"
    and "pairs_ok Y (scalar_node C) (scalar_ok Y C) ms"
  shows "(\<exists>s. vector_to Y (sc_to C) xs = Inr s \<and> vector_from Y (sc_from C) s = Inr xs)
    \<and> (\<exists>s. list_to Y (sc_to C) xs = Inr s \<and> list_from Y (sc_from C) s = Inr xs)
    \<and> (sorted_wrt (<) xs \<longrightarrow>
        (\<exists>s. set_to Y (sc_to C) xs = Inr s \<and> set_from Y (sc_from C) s = Inr xs))
    \<and> (order (set xs) = xs \<longrightarrow>
        (\<exists>s. unordered_set_to Y order (sc_to C) (set xs) = Inr s
           \<and> unordered_set_from Y (sc_from C) s = Inr (set xs)))
    \<and> (smap_ok ms \<longrightarrow> (\<exists>s. map_to Y (sc_to C) ms = Inr s \<and> map_from Y (sc_from C) s = Inr ms))
    \<and> (entries (map_of ms) = ms \<longrightarrow>
        (\<exists>s. unordered_map_to Y entries (sc_to C) (map_of ms) = Inr s
           \<and> unordered_map_from Y (sc_from C) s = Inr (map_of ms)))"
  using scalar.vector_value.text_back [OF assms(1)] scalar.list_value.text_back [OF assms(1)]
    set_value [OF assms(1)] scalar.unordered_set_value [of order "set xs" Y C] assms
    scalar.map_value.text_back [of ms Y C] scalar.unordered_map_value [of entries "map_of ms" Y C]
  by auto

text \<open>
  C34: Two variables of the nested type \<open>std::map<std::string, std::vector<T>>\<close>: the text of one
  given to the other, which has no listeners, makes their values equal, and neither the names
  nor the rest of the program change; this as long as the text of every element is a plain YAML
  scalar that converts back to it and the documents reload.
\<close>

theorem nested_config_roundtrip:
  assumes "cv_type v = T" and "cv_type w = T" and "cv_cbs w = []"
    and "t_from T = map_from Y (vector_from Y (sc_from C))"
    and "t_to T = map_to Y (vector_to Y (sc_to C))"
    and "smap_ok (cv_val v)"
    and "pairs_ok Y (\<lambda>xs. seq_node (map (scalar_node C) xs))
        (seq_ok Y (scalar_node C) (scalar_ok Y C)) (cv_val v)"
  shows "\<exists>txt. toString H v s = Returns (txt, s)
    \<and> fromString H txt w s' = Returns (False, w\<lparr>cv_val := cv_val v\<rparr>, s')"
  using scalar_vector.map_value.transfer [OF assms(4,5,1,2) _ assms(3)] assms(6,7) by blast

section \<open>Instances\<close>

text \<open>The scalars 7 and 8, and a library that knows three documents built from them.\<close>

definition digit_cast :: "nat scalar_cast" where
  "digit_cast =
     \<lparr>sc_from = (\<lambda>s. if s = ''7'' then Inr 7 else if s = ''8'' then Inr 8
                     else Inl (Std_exception ''bad lexical cast'')),
      sc_to = (\<lambda>n. Inr (if n = 7 then ''7'' else ''8''))\<rparr>"

definition digit_seq :: yaml where
  "digit_seq = YSeq [YScalar ''7'', YScalar ''8'']"

definition digit_yaml :: yaml_lib where
  "digit_yaml =
     \<lparr>y_Load = (\<lambda>s. if s = ''[7, 8]'' then Inr digit_seq
                    else if s = ''{a: 7}'' then Inr (YMap [(YScalar ''a'', YScalar ''7'')])
                    else if s = ''{a: [7, 8]}'' then Inr (YMap [(YScalar ''a'', digit_seq)])
                    else if s = ''~'' then Inr YNull else Inr (YScalar s)),
      y_emit = (\<lambda>n. case n of
                        YNull \<Rightarrow> ''~'' | YScalar s \<Rightarrow> s | YSeq ns \<Rightarrow> ''[7, 8]''
                      | YMap es \<Rightarrow> if map snd es = [digit_seq] then ''{a: [7, 8]}'' else ''{a: 7}''),
      y_index = (\<lambda>n i. case n of YSeq xs \<Rightarrow> Inr (xs ! i) | _ \<Rightarrow> Inl (Std_exception [])),
      y_get = (\<lambda>n k. case n of YMap es \<Rightarrow> Inr (map_of es (YScalar k)) | YNull \<Rightarrow> Inr None
                             | _ \<Rightarrow> Inl (Std_exception [])),
      y_as_string = (\<lambda>n. case n of YScalar s \<Rightarrow> Inr s | _ \<Rightarrow> Inl (Std_exception [])),
      y_pairs = (\<lambda>n. case n of YMap es \<Rightarrow> Inr (map (\<lambda>(k, v). (Scalar_of k, v)) es)
                              | YSeq xs \<Rightarrow> Inl (Std_exception []) | _ \<Rightarrow> Inr [])\<rparr>"

lemma digit_access: "yaml_access digit_yaml"
  by (simp add: yaml_access_def digit_yaml_def)

lemma digit_seq_ok: "seq_ok digit_yaml (scalar_node digit_cast) (scalar_ok digit_yaml digit_cast) [7, 8]"
  using digit_access
  by (simp add: seq_ok_def scalar_ok_def digit_cast_def seq_node_def scalar_node_def yaml_reload_def)
    (simp add: digit_yaml_def digit_seq_def)

lemma digit_nodes: "map (scalar_node digit_cast) [7, 8] = [YScalar ''7'', YScalar ''8'']"
  by (simp add: scalar_node_def digit_cast_def)

lemma containers_from_sequence_witness:
  "set_from digit_yaml (sc_from digit_cast) ''[7, 8]'' \<noteq> Inl Other_exception
   \<and> vector_from digit_yaml (sc_from digit_cast) ''[7, 8]'' = Inr [7, 8]
   \<and> unordered_set_from digit_yaml (sc_from digit_cast) ''[7, 8]'' = Inr {7, 8}
   \<and> vector_from digit_yaml (sc_from digit_cast) ''~'' = Inr []"
proof -
  have load: "y_Load digit_yaml ''[7, 8]'' = Inr (YSeq [YScalar ''7'', YScalar ''8''])"
    "y_Load digit_yaml ''~'' = Inr YNull"
    by (simp_all add: digit_yaml_def digit_seq_def)
  have "list_all2 (\<lambda>n x. sc_from digit_cast (y_emit digit_yaml n) = Inr x)
      [YScalar ''7'', YScalar ''8''] [7, 8]"
    by (simp add: digit_yaml_def digit_cast_def)
  with containers_from_sequence [OF digit_access load(1), of "sc_from digit_cast" "''~''"] load(2)
  show ?thesis by fastforce
qed

theorem container_roundtrip_witness:
  "\<exists>s t. set_to digit_yaml (sc_to digit_cast) [7, 8] = Inr s
     \<and> set_from digit_yaml (sc_from digit_cast) s = Inr [7, 8]
     \<and> map_to digit_yaml (sc_to digit_cast) [(''a'', 7)] = Inr t
     \<and> map_from digit_yaml (sc_from digit_cast) t = Inr [(''a'', 7)]"
proof -
  have "pairs_ok digit_yaml (scalar_node digit_cast) (scalar_ok digit_yaml digit_cast) [(''a'', 7)]"
    using digit_access
    by (simp add: pairs_ok_def scalar_ok_def digit_cast_def map_node_def scalar_node_def yaml_reload_def)
      (simp add: digit_yaml_def digit_seq_def)
  from container_roundtrip [OF digit_seq_ok this] show ?thesis by (auto simp: smap_ok_def)
qed

definition digit_type :: "(string \<times> nat list) list type_ops" where
  "digit_type = \<lparr>t_name = ''map'', t_from = map_from digit_yaml (vector_from digit_yaml (sc_from digit_cast)),
     t_to = map_to digit_yaml (vector_to digit_yaml (sc_to digit_cast))\<rparr>"

theorem nested_config_roundtrip_witness:
  "\<exists>t. toString \<lparr>h_log = (\<lambda>l t s. s), h_string_type = []\<rparr>
         (new_ConfigVar digit_type ''a'' [(''a'', [7, 8])] []) () = Returns (t, ())
     \<and> fromString \<lparr>h_log = (\<lambda>l t s. s), h_string_type = []\<rparr> t
         (new_ConfigVar digit_type ''b'' [] []) () =
         Returns (False, (new_ConfigVar digit_type ''b'' [] [])\<lparr>cv_val := [(''a'', [7, 8])]\<rparr>, ())"
proof -
  let ?v = "new_ConfigVar digit_type ''a'' [(''a'', [7, 8])] []"
  let ?w = "new_ConfigVar digit_type ''b'' [] []"
  have "cv_type ?v = digit_type" "cv_type ?w = digit_type" "cv_cbs ?w = []"
    "t_from digit_type = map_from digit_yaml (vector_from digit_yaml (sc_from digit_cast))"
    "t_to digit_type = map_to digit_yaml (vector_to digit_yaml (sc_to digit_cast))"
    by (simp_all add: new_ConfigVar_def digit_type_def)
  moreover have "smap_ok (cv_val ?v)" by (simp add: new_ConfigVar_def smap_ok_def)
  moreover have "pairs_ok digit_yaml (\<lambda>xs. seq_node (map (scalar_node digit_cast) xs))
      (seq_ok digit_yaml (scalar_node digit_cast) (scalar_ok digit_yaml digit_cast)) (cv_val ?v)"
    using digit_access digit_seq_ok digit_nodes
    by (simp add: pairs_ok_def new_ConfigVar_def map_node_def seq_node_def yaml_reload_def)
      (simp add: digit_yaml_def digit_seq_def)
  ultimately show ?thesis
    using nested_config_roundtrip [of ?v digit_type ?w digit_yaml digit_cast
        "\<lparr>h_log = (\<lambda>l t s. s), h_string_type = []\<rparr>" "()" "()"]
    by (simp add: new_ConfigVar_def)
qed

end
