(* ===== verification/Config_Threads.thy ===== *)
theory Config_Threads
  imports Config_Var Locks
begin

text \<open>
  \<open>ConfigVar::setValue\<close> called by several threads (\<open>chord/config.h\<close>, lines 353-372): the value
  is compared and the listeners run under the read lock, the new value is stored under the write
  lock, and the two scopes are separate. The theory models one variable with its lock and the
  position of every thread in the function, and every interleaving of the threads.
\<close>

section \<open>State and steps\<close>

text \<open>
  \<open>Comparing x\<close>: before the read lock; \<open>Notifying old x\<close>: the listeners run, the read lock is
  held; \<open>Storing x\<close>: between the two scopes; \<open>Assigning x\<close>: the write lock is held.
\<close>

datatype 'v phase = Idle | Comparing 'v | Notifying 'v 'v | Storing 'v | Assigning 'v

record 'v var_state =
  vs_val :: 'v
  vs_lock :: RWMutex
  vs_phase :: "thread \<Rightarrow> 'v phase"
  vs_calls :: "('v \<times> 'v) list"

definition set_phase :: "thread \<Rightarrow> 'v phase \<Rightarrow> 'v var_state \<Rightarrow> 'v var_state" where
  "set_phase t p s = s\<lparr>vs_phase := (vs_phase s)(t := p)\<rparr>"

inductive var_step :: "'v var_state \<Rightarrow> 'v var_state \<Rightarrow> bool" where
  enter: "vs_phase s t = Idle \<Longrightarrow> var_step s (set_phase t (Comparing x) s)"
| equal_value: "vs_phase s t = Comparing x \<Longrightarrow> RWMutex_rdlock t (vs_lock s) = Some m \<Longrightarrow>
    x = vs_val s \<Longrightarrow> var_step s (set_phase t Idle (s\<lparr>vs_lock := RWMutex_unlock t m\<rparr>))"
| notify: "vs_phase s t = Comparing x \<Longrightarrow> RWMutex_rdlock t (vs_lock s) = Some m \<Longrightarrow>
    x \<noteq> vs_val s \<Longrightarrow>
    var_step s (set_phase t (Notifying (vs_val s) x)
      (s\<lparr>vs_lock := m, vs_calls := vs_calls s @ [(vs_val s, x)]\<rparr>))"
| end_read: "vs_phase s t = Notifying old x \<Longrightarrow>
    var_step s (set_phase t (Storing x) (s\<lparr>vs_lock := RWMutex_unlock t (vs_lock s)\<rparr>))"
| write_lock: "vs_phase s t = Storing x \<Longrightarrow> RWMutex_wrlock t (vs_lock s) = Some m \<Longrightarrow>
    var_step s (set_phase t (Assigning x) (s\<lparr>vs_lock := m\<rparr>))"
| assign: "vs_phase s t = Assigning x \<Longrightarrow>
    var_step s (set_phase t Idle (s\<lparr>vs_val := x, vs_lock := RWMutex_unlock t (vs_lock s)\<rparr>))"

definition var_start :: "'v \<Rightarrow> 'v var_state" where
  "var_start x = \<lparr>vs_val = x, vs_lock = new_RWMutex, vs_phase = (\<lambda>_. Idle), vs_calls = []\<rparr>"

inductive var_reachable :: "'v \<Rightarrow> 'v var_state \<Rightarrow> bool" for x where
  start: "var_reachable x (var_start x)"
| step: "var_reachable x s \<Longrightarrow> var_step s s' \<Longrightarrow> var_reachable x s'"

section \<open>The invariant\<close>

definition reads_now :: "'v phase \<Rightarrow> nat" where
  "reads_now p = (case p of Notifying old x \<Rightarrow> 1 | _ \<Rightarrow> 0)"

definition writes_now :: "'v phase \<Rightarrow> bool" where
  "writes_now p = (case p of Assigning x \<Rightarrow> True | _ \<Rightarrow> False)"

lemma now_simps [simp]:
  "reads_now Idle = 0" "reads_now (Comparing x) = 0" "reads_now (Notifying old x) = 1"
  "reads_now (Storing x) = 0" "reads_now (Assigning x) = 0"
  "\<not> writes_now Idle" "\<not> writes_now (Comparing x)" "\<not> writes_now (Notifying old x)"
  "\<not> writes_now (Storing x)" "writes_now (Assigning x)"
  by (simp_all add: reads_now_def writes_now_def)

text \<open>
  The lock knows exactly the threads that hold it; a writer excludes readers; and a thread whose
  listeners run was right about the old value.
\<close>

definition var_ok :: "'v var_state \<Rightarrow> bool" where
  "var_ok s \<longleftrightarrow>
     (\<forall>t. rw_writer (vs_lock s) = Some t \<longleftrightarrow> writes_now (vs_phase s t))
     \<and> (\<forall>t. rw_reads (vs_lock s) t = reads_now (vs_phase s t))
     \<and> (rw_writer (vs_lock s) \<noteq> None \<longrightarrow> rw_reads (vs_lock s) = (\<lambda>_. 0))
     \<and> (\<forall>t old x. vs_phase s t = Notifying old x \<longrightarrow> old = vs_val s \<and> x \<noteq> old)"

lemma var_okD:
  assumes "var_ok s"
  shows "rw_writer (vs_lock s) = Some t \<longleftrightarrow> writes_now (vs_phase s t)"
    and "rw_reads (vs_lock s) t = reads_now (vs_phase s t)"
    and "rw_writer (vs_lock s) \<noteq> None \<Longrightarrow> rw_reads (vs_lock s) = (\<lambda>_. 0)"
    and "vs_phase s t = Notifying old x \<Longrightarrow> old = vs_val s \<and> x \<noteq> old"
  using assms by (auto simp: var_ok_def)

lemma set_phase_fields [simp]:
  "vs_phase (set_phase t p s) = (vs_phase s)(t := p)"
  "vs_val (set_phase t p s) = vs_val s" "vs_lock (set_phase t p s) = vs_lock s"
  "vs_calls (set_phase t p s) = vs_calls s"
  by (simp_all add: set_phase_def)

lemma var_step_ok:
  assumes "var_step s s'" and "var_ok s"
  shows "var_ok s'"
  using assms(1)
proof cases
  case (enter t x)
  have "writes_now (vs_phase s t) = False" "reads_now (vs_phase s t) = 0" using enter(2) by simp_all
  with enter assms(2) show ?thesis by (auto simp: var_ok_def)
next
  case (equal_value t x m)
  with read_lock.restore have "RWMutex_unlock t m = vs_lock s" by blast
  with equal_value assms(2) show ?thesis by (auto simp: var_ok_def)
next
  case (notify t x m)
  then have "rw_writer (vs_lock s) = None"
    "m = (vs_lock s)\<lparr>rw_reads := (rw_reads (vs_lock s))(t := rw_reads (vs_lock s) t + 1)\<rparr>"
    by (auto simp: RWMutex_rdlock_def split: if_splits)
  with notify assms(2) show ?thesis by (auto simp: var_ok_def)
next
  case (end_read t old x)
  have reads: "rw_reads (vs_lock s) t = 1"
    using var_okD(2) [OF assms(2), of t] end_read by simp
  then have none: "rw_writer (vs_lock s) = None"
    using var_okD(3) [OF assms(2)] by (metis zero_neq_one)
  with end_read have "RWMutex_unlock t (vs_lock s) =
      (vs_lock s)\<lparr>rw_reads := (rw_reads (vs_lock s))(t := 0)\<rparr>"
    using reads by (simp add: RWMutex_unlock_def)
  with end_read(1) none reads var_okD(1,2) [OF assms(2)] var_okD(4) [OF assms(2)] show ?thesis
    unfolding var_ok_def by (auto split: if_splits)
next
  case (write_lock t x m)
  then have "rw_writer (vs_lock s) = None" "rw_reads (vs_lock s) = (\<lambda>_. 0)"
    "m = (vs_lock s)\<lparr>rw_writer := Some t\<rparr>"
    by (auto simp: RWMutex_wrlock_def split: if_splits)
  with write_lock assms(2) show ?thesis by (auto simp: var_ok_def)
next
  case (assign t x)
  then have w: "rw_writer (vs_lock s) = Some t" using var_okD(1) [OF assms(2)] by simp
  then have unlock: "RWMutex_unlock t (vs_lock s) = (vs_lock s)\<lparr>rw_writer := None\<rparr>"
    by (simp add: RWMutex_unlock_def)
  have none: "reads_now (vs_phase s u) = 0" for u
    using var_okD(2,3) [OF assms(2)] w by (metis option.distinct(1))
  then have "vs_phase s u \<noteq> Notifying old y" for u old y by (metis now_simps(3) zero_neq_one)
  moreover have "\<not> writes_now (vs_phase s u)" if "u \<noteq> t" for u
    using var_okD(1) [OF assms(2), of u] w that by auto
  ultimately show ?thesis
    using assign unlock none w var_okD(2) [OF assms(2)] by (auto simp: var_ok_def)
qed

lemma var_reachable_ok: "var_reachable x s \<Longrightarrow> var_ok s"
proof (induction rule: var_reachable.induct)
  case start
  then show ?case by (simp add: var_ok_def var_start_def new_RWMutex_def)
qed (rule var_step_ok)

text \<open>
  C35: What every interleaving of \<open>setValue\<close> calls guarantees. While the listeners of a call run,
  the value is the old value they are given and differs from the new one, no thread is storing a
  value, and no thread can get the write lock: neither another thread nor the calling thread
  itself, so a listener that adds or removes a listener of its own variable, or sets it to yet
  another value, waits for ever.
\<close>

theorem listeners_see_current_value:
  assumes "var_reachable x s" and "vs_phase s t = Notifying old new"
  shows "old = vs_val s \<and> new \<noteq> vs_val s \<and> (\<forall>u y. vs_phase s u \<noteq> Assigning y)
    \<and> (\<forall>u. RWMutex_wrlock u (vs_lock s) = None)
    \<and> (\<forall>s'. var_step s s' \<longrightarrow> vs_phase s' t = vs_phase s t \<longrightarrow>
        vs_val s' = vs_val s \<and> RWMutex_wrlock t (vs_lock s') = None)"
proof -
  note ok = var_reachable_ok [OF assms(1)]
  have blocked: "RWMutex_wrlock u (vs_lock s'') = None"
    if "var_ok s''" "vs_phase s'' t = Notifying old new" for u s''
  proof -
    have "rw_reads (vs_lock s'') t = 1" using var_okD(2) [OF that(1), of t] that(2) by simp
    then show ?thesis by (auto simp: RWMutex_wrlock_def)
  qed
  have "\<not> writes_now (vs_phase s u)" for u
  proof -
    have "rw_reads (vs_lock s) t \<noteq> 0" using var_okD(2) [OF ok, of t] assms(2) by simp
    with var_okD(3) [OF ok] have "rw_writer (vs_lock s) = None" by (metis (full_types))
    with var_okD(1) [OF ok, of u] show ?thesis by simp
  qed
  then have "vs_phase s u \<noteq> Assigning y" for u y by (metis now_simps(10))
  moreover have "vs_val s' = vs_val s \<and> RWMutex_wrlock t (vs_lock s') = None"
    if "var_step s s'" "vs_phase s' t = vs_phase s t" for s'
  proof -
    have ok': "var_ok s'" using var_step_ok [OF that(1) ok] .
    have "vs_phase s' t = Notifying old new" using that(2) assms(2) by simp
    with var_okD(4) [OF ok'] var_okD(4) [OF ok assms(2)] blocked [OF ok'] show ?thesis by metis
  qed
  ultimately show ?thesis using var_okD(4) [OF ok assms(2)] blocked [OF ok assms(2)] by blast
qed

section \<open>One call at a time\<close>

text \<open>A listener that records its calls, and the variable of theory \<open>Config_Var\<close> that has it.\<close>

definition recorder :: "('v, ('v \<times> 'v) list) on_change_cb" where
  "recorder old new calls = Returns (calls @ [(old, new)])"

definition var_of :: "'v type_ops \<Rightarrow> 'v var_state \<Rightarrow> ('v, ('v \<times> 'v) list) ConfigVar" where
  "var_of T s = (new_ConfigVar T [] (vs_val s) [])\<lparr>cv_cbs := [(1, recorder)]\<rparr>"

lemma var_step_trans [trans]: "var_step\<^sup>*\<^sup>* s t \<Longrightarrow> var_step t u \<Longrightarrow> var_step\<^sup>*\<^sup>* s u"
  by (rule rtranclp.rtrancl_into_rtrancl)

lemma free_lock:
  assumes "var_ok s" and "\<forall>u. vs_phase s u = Idle"
  shows "vs_lock s = new_RWMutex"
proof -
  have "rw_writer (vs_lock s) \<noteq> Some t" for t using var_okD(1) [OF assms(1)] assms(2) by simp
  then have "rw_writer (vs_lock s) = None" by (cases "rw_writer (vs_lock s)") auto
  moreover have "rw_reads (vs_lock s) = (\<lambda>_. 0)" using var_okD(2) [OF assms(1)] assms(2) by auto
  ultimately show ?thesis by (simp add: new_RWMutex_def)
qed

text \<open>
  A call that runs alone: from a state in which no thread is inside the function, the steps
  of one thread lead to the state that \<open>setValue\<close> of the sequential model computes, with the
  same calls of the listener, and the lock is free again.
\<close>

lemma solo_setValue:
  assumes "var_reachable x0 s" and "\<forall>u. vs_phase s u = Idle"
  shows "\<exists>s' v'. var_step\<^sup>*\<^sup>* s s' \<and> (\<forall>u. vs_phase s' u = Idle) \<and> vs_lock s' = new_RWMutex
    \<and> setValue x (var_of T s) (vs_calls s) = Returns (v', vs_calls s') \<and> cv_val v' = vs_val s'"
proof -
  note lock = free_lock [OF var_reachable_ok [OF assms(1)] assms(2)]
  let ?t = "0 :: thread"
  let ?s1 = "set_phase ?t (Comparing x) s"
  have s1: "var_step s ?s1" using assms(2) by (simp add: var_step.enter)
  obtain m where m: "RWMutex_rdlock ?t new_RWMutex = Some m" and free_r: "RWMutex_unlock ?t m = new_RWMutex"
    using read_lock.restore by (auto simp: RWMutex_rdlock_def new_RWMutex_def)
  show ?thesis
  proof (cases "x = vs_val s")
    case True
    let ?s2 = "set_phase ?t Idle (?s1\<lparr>vs_lock := RWMutex_unlock ?t m\<rparr>)"
    have "var_step ?s1 ?s2" using m True lock by (intro var_step.equal_value) simp_all
    with s1 have "var_step\<^sup>*\<^sup>* s ?s2" by (meson r_into_rtranclp rtranclp.rtrancl_into_rtrancl)
    moreover have "setValue x (var_of T s) (vs_calls s) = Returns (var_of T s, vs_calls s)"
      using True by (simp add: setValue_def var_of_def new_ConfigVar_def)
    ultimately show ?thesis
      using assms(2) free_r by (intro exI [of _ ?s2] exI [of _ "var_of T s"])
        (auto simp: set_phase_def var_of_def new_ConfigVar_def)
  next
    case False
    let ?s2 = "set_phase ?t (Notifying (vs_val s) x)
      (?s1\<lparr>vs_lock := m, vs_calls := vs_calls s @ [(vs_val s, x)]\<rparr>)"
    let ?s3 = "set_phase ?t (Storing x) (?s2\<lparr>vs_lock := RWMutex_unlock ?t (vs_lock ?s2)\<rparr>)"
    obtain w where w: "RWMutex_wrlock ?t new_RWMutex = Some w"
      and free_w: "RWMutex_unlock ?t w = new_RWMutex"
      using write_lock.restore by (auto simp: RWMutex_wrlock_def new_RWMutex_def)
    let ?s4 = "set_phase ?t (Assigning x) (?s3\<lparr>vs_lock := w\<rparr>)"
    let ?s5 = "set_phase ?t Idle (?s4\<lparr>vs_val := x, vs_lock := RWMutex_unlock ?t (vs_lock ?s4)\<rparr>)"
    have s2: "var_step ?s1 ?s2"
      using var_step.notify [of ?s1 ?t x m] m False lock by simp
    have s3: "var_step ?s2 ?s3" by (rule var_step.end_read) simp
    have s4: "var_step ?s3 ?s4" using w free_r by (intro var_step.write_lock) simp_all
    have s5: "var_step ?s4 ?s5" by (rule var_step.assign) simp
    have "var_step\<^sup>*\<^sup>* s ?s5"
      using s1 s2 s3 s4 s5 by (meson r_into_rtranclp rtranclp.rtrancl_into_rtrancl)
    moreover have "setValue x (var_of T s) (vs_calls s) =
        Returns ((var_of T s)\<lparr>cv_val := x\<rparr>, vs_calls s @ [(vs_val s, x)])"
      using False by (simp add: setValue_def var_of_def new_ConfigVar_def recorder_def)
    ultimately show ?thesis
      using assms(2) free_w by (intro exI [of _ ?s5] exI [of _ "(var_of T s)\<lparr>cv_val := x\<rparr>"])
        (auto simp: set_phase_def)
  qed
qed

section \<open>Calls that overlap\<close>

text \<open>A scheduler: one thread's next step, computed; \<open>None\<close> when the thread has to wait.\<close>

datatype 'v var_action = Call thread 'v | Continue thread

fun var_exec :: "'v var_action \<Rightarrow> 'v var_state \<Rightarrow> 'v var_state option" where
  "var_exec (Call t x) s =
     (case vs_phase s t of Idle \<Rightarrow> Some (set_phase t (Comparing x) s) | _ \<Rightarrow> None)"
| "var_exec (Continue t) s =
     (case vs_phase s t of
        Idle \<Rightarrow> None
      | Comparing x \<Rightarrow>
          (case RWMutex_rdlock t (vs_lock s) of
             None \<Rightarrow> None
           | Some m \<Rightarrow>
               Some (if x = vs_val s then set_phase t Idle (s\<lparr>vs_lock := RWMutex_unlock t m\<rparr>)
                     else set_phase t (Notifying (vs_val s) x)
                            (s\<lparr>vs_lock := m, vs_calls := vs_calls s @ [(vs_val s, x)]\<rparr>)))
      | Notifying old x \<Rightarrow>
          Some (set_phase t (Storing x) (s\<lparr>vs_lock := RWMutex_unlock t (vs_lock s)\<rparr>))
      | Storing x \<Rightarrow>
          (case RWMutex_wrlock t (vs_lock s) of
             None \<Rightarrow> None | Some m \<Rightarrow> Some (set_phase t (Assigning x) (s\<lparr>vs_lock := m\<rparr>)))
      | Assigning x \<Rightarrow>
          Some (set_phase t Idle (s\<lparr>vs_val := x, vs_lock := RWMutex_unlock t (vs_lock s)\<rparr>)))"

fun var_run :: "'v var_action list \<Rightarrow> 'v var_state \<Rightarrow> 'v var_state option" where
  "var_run [] s = Some s"
| "var_run (a # as) s = (case var_exec a s of None \<Rightarrow> None | Some s' \<Rightarrow> var_run as s')"

lemma var_exec_step: "var_exec a s = Some s' \<Longrightarrow> var_step s s'"
  by (cases a)
    (auto split: phase.splits option.splits if_splits intro: var_step.intros)

lemma var_run_reachable: "var_reachable x s \<Longrightarrow> var_run as s = Some s' \<Longrightarrow> var_reachable x s'"
proof (induction as arbitrary: s)
  case (Cons a as)
  then obtain s1 where "var_exec a s = Some s1" "var_run as s1 = Some s'"
    by (auto split: option.splits)
  with Cons show ?case using var_reachable.step [OF Cons.prems(1) var_exec_step] by blast
qed simp

text \<open>The lock held for reading by the threads of a list, and for writing by one thread.\<close>

definition read_by :: "thread list \<Rightarrow> RWMutex" where
  "read_by ts = \<lparr>rw_reads = count_list ts, rw_writer = None\<rparr>"

definition written_by :: "thread \<Rightarrow> RWMutex" where
  "written_by t = \<lparr>rw_reads = (\<lambda>_. 0), rw_writer = Some t\<rparr>"

lemma count_list_remove1: "count_list (remove1 t ts) u = (if u = t then count_list ts u - 1 else count_list ts u)"
  by (induction ts) (auto simp: count_list_0_iff)

lemma lock_calculus:
  "new_RWMutex = read_by []"
  "RWMutex_rdlock t (read_by ts) = Some (read_by (t # ts))"
  "RWMutex_unlock t (read_by ts) = read_by (remove1 t ts)"
  "RWMutex_wrlock t (read_by []) = Some (written_by t)"
  "RWMutex_unlock t (written_by t) = read_by []"
  by (auto simp: new_RWMutex_def read_by_def written_by_def RWMutex_rdlock_def RWMutex_unlock_def
      RWMutex_wrlock_def count_list_remove1 fun_eq_iff)

text \<open>Two threads and their phases, as the scheduler changes them.\<close>

definition two_threads ::
  "'v \<Rightarrow> RWMutex \<Rightarrow> 'v phase \<Rightarrow> 'v phase \<Rightarrow> ('v \<times> 'v) list \<Rightarrow> 'v var_state" where
  "two_threads x m p q calls =
     \<lparr>vs_val = x, vs_lock = m, vs_phase = (\<lambda>t. if t = 1 then p else if t = 2 then q else Idle),
      vs_calls = calls\<rparr>"

lemma two_threads_fields:
  "vs_val (two_threads x m p q calls) = x" "vs_lock (two_threads x m p q calls) = m"
  "vs_calls (two_threads x m p q calls) = calls"
  "vs_phase (two_threads x m p q calls) (Suc 0) = p" "vs_phase (two_threads x m p q calls) 2 = q"
  "two_threads x m p q calls\<lparr>vs_val := x'\<rparr> = two_threads x' m p q calls"
  "two_threads x m p q calls\<lparr>vs_lock := m'\<rparr> = two_threads x m' p q calls"
  "two_threads x m p q calls\<lparr>vs_calls := calls'\<rparr> = two_threads x m p q calls'"
  "set_phase (Suc 0) r (two_threads x m p q calls) = two_threads x m r q calls"
  "set_phase 2 r (two_threads x m p q calls) = two_threads x m p r calls"
  "var_start x = two_threads x new_RWMutex Idle Idle []"
  by (auto simp: two_threads_def set_phase_def var_start_def fun_eq_iff)

text \<open>
  Overlapping calls. Two threads set a variable from 0 to 1 and to 2. Both compare with the
  old value and both call the listeners before either stores, so the listener hears "0 became 1"
  and then "0 became 2", while the variable ends up with the value 1: the last change the
  listeners were told of is not the one that holds.
\<close>

lemma overlapping_setValue:
  "\<exists>s. var_reachable (0 :: nat) s \<and> (\<forall>t. vs_phase s t = Idle)
     \<and> vs_calls s = [(0, 1), (0, 2)] \<and> vs_val s = 1"
proof -
  have "var_run [Call 1 1, Call 2 2, Continue 1, Continue 2, Continue 1, Continue 2,
      Continue 2, Continue 2, Continue 1, Continue 1] (var_start 0) =
    Some (two_threads (1 :: nat) (read_by []) Idle Idle [(0, 1), (0, 2)])" (is "_ = Some ?s")
    by (simp add: two_threads_fields lock_calculus del: set_phase_fields)
  from var_run_reachable [OF var_reachable.start this] have "var_reachable 0 ?s" .
  moreover have "\<forall>t. vs_phase ?s t = Idle" by (simp add: two_threads_def)
  ultimately show ?thesis by (intro exI [of _ ?s]) (simp add: two_threads_fields)
qed

section \<open>Instances\<close>

theorem listeners_see_current_value_witness:
  "\<exists>s. var_reachable (0 :: nat) s \<and> vs_phase s 1 = Notifying 0 7 \<and> vs_val s = 0
     \<and> RWMutex_wrlock 1 (vs_lock s) = None"
proof -
  have "var_run [Call 1 7, Continue 1] (var_start 0) =
    Some (two_threads 0 (read_by [1]) (Notifying 0 (7 :: nat)) Idle [(0, 7)])" (is "_ = Some ?s")
    by (simp add: two_threads_fields lock_calculus del: set_phase_fields)
  from var_run_reachable [OF var_reachable.start this] have r: "var_reachable 0 ?s" .
  have p: "vs_phase ?s 1 = Notifying 0 7" by (simp add: two_threads_fields)
  from listeners_see_current_value [OF r p] r p show ?thesis by (metis (no_types, lifting))
qed

lemma solo_setValue_witness:
  "\<exists>s'. var_step\<^sup>*\<^sup>* (var_start (0 :: nat)) s' \<and> vs_val s' = 7 \<and> vs_calls s' = [(0, 7)]"
proof -
  let ?T = "\<lparr>t_name = [], t_from = (\<lambda>_. Inr 0), t_to = (\<lambda>_. Inr [])\<rparr> :: nat type_ops"
  have idle: "\<forall>u. vs_phase (var_start (0 :: nat)) u = Idle" by (simp add: var_start_def)
  have "setValue 7 (var_of ?T (var_start 0)) [] = Returns ((var_of ?T (var_start 0))\<lparr>cv_val := 7\<rparr>, [(0, 7)])"
    by (simp add: setValue_def var_of_def new_ConfigVar_def recorder_def var_start_def)
  with solo_setValue [OF var_reachable.start idle, of 7 ?T] show ?thesis
    by (fastforce simp: var_start_def)
qed

end
