(* ===== verification/Threads.thy ===== *)
theory Threads
  imports Log_Level
begin

text \<open>
  Threads and the semaphore (\<open>Semaphore\<close> and \<open>Thread\<close> of \<open>chord/thread.h\<close>;
  \<open>chord/thread.cpp\<close>). The constructor of a \<open>Thread\<close> starts a thread that runs \<open>Thread::run\<close> on
  the object and waits until that thread has announced itself; the model has every interleaving
  of the constructors, the new threads, \<open>join\<close> and the destructors. Addresses and handles are
  numbers that are never reused, so a use of a destroyed object shows.
\<close>

section \<open>The semaphore\<close>

text \<open>
  The count of the semaphore. The result codes of the library calls are arguments where the
  library may fail for reasons of its own (a signal); \<open>sem_init\<close> fails on a count above
  \<open>SEM_VALUE_MAX\<close>, \<open>sem_post\<close> when the count would exceed it. \<open>None\<close> is a call that waits.
\<close>

definition sem_value_max :: nat where "sem_value_max = 2147483647"

definition new_Semaphore :: "32 word \<Rightarrow> exn + nat" where
  "new_Semaphore count =
     (if sem_value_max < unat count then Inl (Std_exception ''sem_init error'') else Inr (unat count))"

definition Semaphore_wait :: "int \<Rightarrow> nat \<Rightarrow> (exn + nat) option" where
  "Semaphore_wait rc sem =
     (if rc \<noteq> 0 then Some (Inl (Std_exception ''sem_wait error''))
      else if sem = 0 then None else Some (Inr (sem - 1)))"

definition Semaphore_notify :: "nat \<Rightarrow> exn + nat" where
  "Semaphore_notify sem =
     (if sem_value_max \<le> sem then Inl (Std_exception ''sem_post error'') else Inr (sem + 1))"

section \<open>State\<close>

text \<open>
  A live \<open>Thread\<close> object with the position of its constructor, and a system thread with the
  position of \<open>run\<close>, its thread-local variables \<open>t_thread\<close> and \<open>t_thread_name\<close> and the name the
  system shows. Handle 0 is \<open>m_thread = 0\<close>. \<open>ts_thrown\<close> records the addresses of the objects whose
  constructor has thrown after it had started its thread; no operation reads it.
\<close>

datatype ctor_phase = Waiting | Constructed

record 'cb Thread =
  th_id :: int
  th_thread :: nat
  th_cb :: "'cb option"
  th_name :: string
  th_sem :: nat
  th_ctor :: ctor_phase

datatype 'cb run_phase = Begin | Announcing 'cb | Running 'cb | Finished

record 'cb os_thread =
  os_arg :: nat
  os_id :: int
  os_phase :: "'cb run_phase"
  t_thread :: "nat option"
  t_thread_name :: string
  os_name :: string
  os_detached :: bool

record 'cb thread_state =
  ts_objs :: "nat \<Rightarrow> 'cb Thread option"
  ts_os :: "nat \<Rightarrow> 'cb os_thread option"
  ts_next :: nat
  ts_thrown :: "nat set"
  ts_log :: "(Level \<times> string) list"

definition unknown_name :: string where "unknown_name = ''UNKNOW''"

definition set_obj :: "nat \<Rightarrow> 'cb Thread \<Rightarrow> 'cb thread_state \<Rightarrow> 'cb thread_state" where
  "set_obj a o' st = st\<lparr>ts_objs := (ts_objs st)(a \<mapsto> o')\<rparr>"

definition set_os :: "nat \<Rightarrow> 'cb os_thread \<Rightarrow> 'cb thread_state \<Rightarrow> 'cb thread_state" where
  "set_os t x st = st\<lparr>ts_os := (ts_os st)(t \<mapsto> x)\<rparr>"

section \<open>The constructor\<close>

text \<open>
  Up to the wait: \<open>rt\<close> is the result of \<open>pthread_create\<close> and \<open>kid\<close> the id the system gives the new
  thread, which inherits \<open>parent_name\<close> as its name. When it fails, the object's construction is
  given up.
\<close>

definition Thread_create ::
  "int \<Rightarrow> int \<Rightarrow> string \<Rightarrow> 'cb \<Rightarrow> string \<Rightarrow> 'cb thread_state \<Rightarrow> 'cb thread_state outcome" where
  "Thread_create rt kid parent_name cb name st =
     (if rt \<noteq> 0 then
        Throws (Std_exception ''pthread_create error'')
          (st\<lparr>ts_log := ts_log st @ [(ERROR, ''pthread_create thread fail, rt = '' @ dec_int rt
                @ ''name = '' @ name)]\<rparr>)
      else
        (let a = ts_next st; t = Suc a
         in Returns
              (set_obj a
                 \<lparr>th_id = -1, th_thread = t, th_cb = Some cb,
                  th_name = (if name = [] then unknown_name else name), th_sem = 0,
                  th_ctor = Waiting\<rparr>
                 (set_os t
                    \<lparr>os_arg = a, os_id = kid, os_phase = Begin, t_thread = None,
                     t_thread_name = unknown_name, os_name = parent_name, os_detached = False\<rparr>
                    (st\<lparr>ts_next := t + 1\<rparr>)))))"

text \<open>
  The wait, \<open>None\<close> while the semaphore is 0; \<open>rc\<close> is the result of \<open>sem_wait\<close>. When the wait throws,
  the object is gone although its thread exists.
\<close>

definition Thread_wait :: "int \<Rightarrow> nat \<Rightarrow> 'cb thread_state \<Rightarrow> 'cb thread_state outcome option" where
  "Thread_wait rc a st =
     (case ts_objs st a of
        None \<Rightarrow> Some (Crashes Dangling)
      | Some ob \<Rightarrow>
          (case Semaphore_wait rc (th_sem ob) of
             None \<Rightarrow> None
           | Some (Inl e) \<Rightarrow> 
               Some (Throws e (st\<lparr>ts_objs := (ts_objs st)(a := None), ts_thrown := insert a (ts_thrown st)\<rparr>))
           | Some (Inr sem) \<Rightarrow>
               Some (Returns (set_obj a (ob\<lparr>th_sem := sem, th_ctor := Constructed\<rparr>) st))))"

section \<open>The new thread\<close>

text \<open>
  \<open>Thread::run\<close>: up to the announcement (the thread-local variables, the id, the system name of
  at most 15 characters, taking the callback out of the object), the announcement, and the end
  after the callback.
\<close>

definition run_prologue :: "nat \<Rightarrow> 'cb thread_state \<Rightarrow> 'cb thread_state may_crash" where
  "run_prologue t st =
     (case ts_os st t of
        None \<Rightarrow> Inr st
      | Some x \<Rightarrow>
          (case (os_phase x, ts_objs st (os_arg x)) of
             (Begin, None) \<Rightarrow> Inl Dangling
           | (Begin, Some ob) \<Rightarrow>
               (case th_cb ob of
                  None \<Rightarrow> Inr st
                | Some cb \<Rightarrow>
                    Inr (set_obj (os_arg x) (ob\<lparr>th_id := os_id x, th_cb := None\<rparr>)
                      (set_os t (x\<lparr>os_phase := Announcing cb, t_thread := Some (os_arg x),
                                   t_thread_name := th_name ob,
                                   os_name := substr (th_name ob) 0 15\<rparr>) st)))
           | _ \<Rightarrow> Inr st))"

definition run_notify :: "nat \<Rightarrow> 'cb thread_state \<Rightarrow> 'cb thread_state outcome" where
  "run_notify t st =
     (case ts_os st t of
        None \<Rightarrow> Returns st
      | Some x \<Rightarrow>
          (case os_phase x of
             Announcing cb \<Rightarrow>
               (case ts_objs st (os_arg x) of
                  None \<Rightarrow> Crashes Dangling
                | Some ob \<Rightarrow>
                    (case Semaphore_notify (th_sem ob) of
                       Inl e \<Rightarrow> Throws e st
                     | Inr sem \<Rightarrow>
                         Returns (set_obj (os_arg x) (ob\<lparr>th_sem := sem\<rparr>)
                           (set_os t (x\<lparr>os_phase := Running cb\<rparr>) st))))
           | _ \<Rightarrow> Returns st))"

definition run_finish :: "nat \<Rightarrow> 'cb thread_state \<Rightarrow> 'cb thread_state" where
  "run_finish t st =
     (case ts_os st t of
        None \<Rightarrow> st
      | Some x \<Rightarrow>
          (case os_phase x of Running cb \<Rightarrow> set_os t (x\<lparr>os_phase := Finished\<rparr>) st | _ \<Rightarrow> st))"

section \<open>The other operations\<close>

text \<open>\<open>GetThis\<close>, \<open>GetName\<close> and \<open>SetName\<close>, called on thread \<open>t\<close>.\<close>

definition Thread_GetThis :: "nat \<Rightarrow> 'cb thread_state \<Rightarrow> nat option" where
  "Thread_GetThis t st = (case ts_os st t of None \<Rightarrow> None | Some x \<Rightarrow> t_thread x)"

definition Thread_GetName :: "nat \<Rightarrow> 'cb thread_state \<Rightarrow> string" where
  "Thread_GetName t st = (case ts_os st t of None \<Rightarrow> unknown_name | Some x \<Rightarrow> t_thread_name x)"

definition Thread_SetName :: "nat \<Rightarrow> string \<Rightarrow> 'cb thread_state \<Rightarrow> 'cb thread_state may_crash" where
  "Thread_SetName t name st =
     (if name = [] then Inr st
      else case ts_os st t of
          None \<Rightarrow> Inr st
        | Some x \<Rightarrow>
            (case t_thread x of
               None \<Rightarrow> Inr (set_os t (x\<lparr>t_thread_name := name\<rparr>) st)
             | Some a \<Rightarrow>
                 (case ts_objs st a of
                    None \<Rightarrow> Inl Dangling
                  | Some ob \<Rightarrow>
                      Inr (set_os t (x\<lparr>t_thread_name := name\<rparr>) (set_obj a (ob\<lparr>th_name := name\<rparr>) st)))))"

text \<open>
  \<open>join\<close> by thread \<open>caller\<close>: \<open>pthread_join\<close> waits for the end of the thread; a thread that joins
  itself gets the error code 35 (\<open>EDEADLK\<close>).
\<close>

definition Thread_join :: "nat \<Rightarrow> nat \<Rightarrow> 'cb thread_state \<Rightarrow> 'cb thread_state outcome option" where
  "Thread_join caller a st =
     (case ts_objs st a of
        None \<Rightarrow> Some (Crashes Dangling)
      | Some ob \<Rightarrow>
          if th_thread ob \<noteq> 0 then
            (if th_thread ob = caller then
               Some (Throws (Std_exception ''pthread_join error'')
                 (st\<lparr>ts_log := ts_log st @ [(ERROR, ''pthread_join thread fail, rt = '' @ dec_int 35
                       @ ''name = '' @ th_name ob)]\<rparr>))
             else case ts_os st (th_thread ob) of
                 None \<Rightarrow> None
               | Some x \<Rightarrow>
                   (case os_phase x of
                      Finished \<Rightarrow> Some (Returns (set_obj a (ob\<lparr>th_thread := 0\<rparr>) st))
                    | _ \<Rightarrow> None))
          else Some (Returns st))"

text \<open>The destructor: a thread that was not joined is detached.\<close>

definition Thread_destroy :: "nat \<Rightarrow> 'cb thread_state \<Rightarrow> 'cb thread_state" where
  "Thread_destroy a st =
     (case ts_objs st a of
        None \<Rightarrow> st
      | Some ob \<Rightarrow>
          (let st' = (if th_thread ob \<noteq> 0 then
                        (case ts_os st (th_thread ob) of
                           None \<Rightarrow> st | Some x \<Rightarrow> set_os (th_thread ob) (x\<lparr>os_detached := True\<rparr>) st)
                      else st)
           in st'\<lparr>ts_objs := (ts_objs st')(a := None)\<rparr>))"

section \<open>Interleaving\<close>

definition thread_start :: "'cb thread_state" where
  "thread_start = \<lparr>ts_objs = (\<lambda>_. None), ts_os = (\<lambda>_. None), ts_next = 1, ts_thrown = {}, ts_log = []\<rparr>"

definition constructed :: "nat \<Rightarrow> 'cb thread_state \<Rightarrow> bool" where
  "constructed a st = (case ts_objs st a of None \<Rightarrow> False | Some ob \<Rightarrow> th_ctor ob = Constructed)"

definition waiting :: "nat \<Rightarrow> 'cb thread_state \<Rightarrow> bool" where
  "waiting a st = (case ts_objs st a of None \<Rightarrow> False | Some ob \<Rightarrow> th_ctor ob = Waiting)"

definition phase_of :: "nat \<Rightarrow> 'cb thread_state \<Rightarrow> 'cb run_phase option" where
  "phase_of t st = map_option os_phase (ts_os st t)"

text \<open>
  The steps of a program: constructors of any threads, whose wait may be interrupted by a signal,
  the new threads' own steps (a running callback may set its name), \<open>join\<close> on and destruction of
  constructed objects. A call that ends the process has no step.
\<close>

inductive thread_step :: "'cb thread_state \<Rightarrow> 'cb thread_state \<Rightarrow> bool" where
  create: "kid > 0 \<Longrightarrow> Thread_create 0 kid parent cb name st = Returns st' \<Longrightarrow> thread_step st st'"
| create_fails: "Thread_create rt kid parent cb name st = Throws e st' \<Longrightarrow> thread_step st st'"
| wait: "waiting a st \<Longrightarrow> Thread_wait 0 a st = Some (Returns st') \<Longrightarrow> thread_step st st'"
| wait_fails: "waiting a st \<Longrightarrow> Thread_wait rc a st = Some (Throws e st') \<Longrightarrow> thread_step st st'"
| prologue: "phase_of t st = Some Begin \<Longrightarrow> run_prologue t st = Inr st' \<Longrightarrow> thread_step st st'"
| notify: "phase_of t st = Some (Announcing cb) \<Longrightarrow> run_notify t st = Returns st' \<Longrightarrow> thread_step st st'"
| finish: "phase_of t st = Some (Running cb) \<Longrightarrow> thread_step st (run_finish t st)"
| set_name: "phase_of t st = Some (Running cb) \<Longrightarrow> Thread_SetName t name st = Inr st' \<Longrightarrow>
    thread_step st st'"
| join: "constructed a st \<Longrightarrow> Thread_join caller a st = Some (Returns st') \<Longrightarrow> thread_step st st'"
| destroy: "constructed a st \<Longrightarrow> thread_step st (Thread_destroy a st)"

inductive thread_reachable :: "'cb thread_state \<Rightarrow> bool" where
  start: "thread_reachable thread_start"
| step: "thread_reachable st \<Longrightarrow> thread_step st st' \<Longrightarrow> thread_reachable st'"

end
