(* ===== verification/Thread_Laws.thy ===== *)
theory Thread_Laws
  imports Threads
begin

text \<open>
  The laws of \<open>Thread\<close> and \<open>Semaphore\<close>: an invariant that ties every object to its system thread
  in every interleaving, and from it the handshake of the constructor, its completion, \<open>join\<close>,
  destruction and the bounds of the semaphore.
\<close>

section \<open>The invariant\<close>

text \<open>
  An object at address \<open>a\<close> and the system thread \<open>Suc a\<close> that was created for it. As long as the
  thread has not announced itself, the object is there and its constructor waits, unless that
  constructor has thrown (\<open>thrown\<close>).
\<close>

definition os_ok :: "nat \<Rightarrow> 'cb os_thread \<Rightarrow> bool" where
  "os_ok a x \<longleftrightarrow> os_arg x = a \<and> 0 < os_id x
     \<and> (os_phase x \<noteq> Begin \<longrightarrow> t_thread x = Some a \<and> length (os_name x) \<le> 15)"

definition link_ok :: "nat \<Rightarrow> 'cb Thread \<Rightarrow> 'cb os_thread \<Rightarrow> bool" where
  "link_ok a ob x \<longleftrightarrow>
     (if th_thread ob = 0 then th_ctor ob = Constructed \<and> os_phase x = Finished
      else th_thread ob = Suc a)
     \<and> (os_phase x \<noteq> Begin \<longrightarrow>
          th_id ob = os_id x \<and> th_cb ob = None \<and> t_thread_name x = th_name ob)
     \<and> (case os_phase x of
          Begin \<Rightarrow> th_ctor ob = Waiting \<and> th_sem ob = 0 \<and> th_cb ob \<noteq> None
        | Announcing cb \<Rightarrow> th_ctor ob = Waiting \<and> th_sem ob = 0
        | _ \<Rightarrow> th_sem ob = (if th_ctor ob = Waiting then 1 else 0))"

fun pair_ok :: "bool \<Rightarrow> nat \<Rightarrow> 'cb Thread option \<Rightarrow> 'cb os_thread option \<Rightarrow> bool" where
  "pair_ok thrown a None None = (\<not> thrown)"
| "pair_ok thrown a (Some ob) None = False"
| "pair_ok thrown a None (Some x) =
     (os_ok a x \<and> (thrown \<or> os_phase x \<noteq> Begin \<and> (\<forall>cb. os_phase x \<noteq> Announcing cb)))"
| "pair_ok thrown a (Some ob) (Some x) = (\<not> thrown \<and> os_ok a x \<and> link_ok a ob x)"

definition thr_ok :: "'cb thread_state \<Rightarrow> bool" where
  "thr_ok st \<longleftrightarrow>
     (\<forall>a. pair_ok (a \<in> ts_thrown st) a (ts_objs st a) (ts_os st (Suc a))) \<and> ts_os st 0 = None
     \<and> (\<forall>a \<ge> ts_next st. ts_objs st a = None \<and> ts_os st (Suc a) = None)"

lemma thr_ok_pair: "thr_ok st \<Longrightarrow> pair_ok (a \<in> ts_thrown st) a (ts_objs st a) (ts_os st (Suc a))"
  by (simp add: thr_ok_def)

lemma thr_ok_obj:
  assumes "thr_ok st" and "ts_objs st a = Some ob"
  obtains x where "ts_os st (Suc a) = Some x" and "os_ok a x" and "link_ok a ob x"
    and "a \<notin> ts_thrown st"
  using thr_ok_pair [OF assms(1), of a] assms(2) by (cases "ts_os st (Suc a)") auto

lemma alive: "thr_ok st \<Longrightarrow> ts_objs st a = Some ob \<Longrightarrow> a \<notin> ts_thrown st"
  by (erule (1) thr_ok_obj)

lemma thr_ok_os:
  assumes "thr_ok st" and "ts_os st t = Some x"
  obtains a where "t = Suc a" and "os_ok a x" and "os_arg x = a"
    and "a \<notin> ts_thrown st \<Longrightarrow> os_phase x = Begin \<or> (\<exists>cb. os_phase x = Announcing cb) \<Longrightarrow>
      \<exists>ob. ts_objs st a = Some ob \<and> link_ok a ob x"
proof (cases t)
  case 0
  with assms show ?thesis by (simp add: thr_ok_def)
next
  case (Suc a)
  with thr_ok_pair [OF assms(1), of a] assms(2) that show ?thesis
    by (cases "ts_objs st a") (auto simp: os_ok_def)
qed

lemma set_fields [simp]:
  "ts_objs (set_obj a ob st) = (ts_objs st)(a \<mapsto> ob)" "ts_os (set_obj a ob st) = ts_os st"
  "ts_next (set_obj a ob st) = ts_next st" "ts_objs (set_os t x st) = ts_objs st"
  "ts_os (set_os t x st) = (ts_os st)(t \<mapsto> x)" "ts_next (set_os t x st) = ts_next st"
  "ts_thrown (set_obj a ob st) = ts_thrown st" "ts_thrown (set_os t x st) = ts_thrown st"
  by (simp_all add: set_obj_def set_os_def)

text \<open>A step changes one pair.\<close>

lemma thr_ok_update:
  assumes "thr_ok st" and "pair_ok (a \<in> ts_thrown st') a (ts_objs st' a) (ts_os st' (Suc a))"
    and "\<And>b. b \<noteq> a \<Longrightarrow> ts_objs st' b = ts_objs st b \<and> ts_os st' (Suc b) = ts_os st (Suc b)
      \<and> (b \<in> ts_thrown st' \<longleftrightarrow> b \<in> ts_thrown st)"
    and "ts_os st' 0 = None" and "a < ts_next st'" and "ts_next st \<le> ts_next st'"
  shows "thr_ok st'"
  unfolding thr_ok_def
proof (intro conjI allI impI)
  fix b
  show "pair_ok (b \<in> ts_thrown st') b (ts_objs st' b) (ts_os st' (Suc b))"
    using assms(2,3) thr_ok_pair [OF assms(1), of b] by (cases "b = a") simp_all
next
  fix b assume "ts_next st' \<le> b"
  with assms(1,3,5,6) have "b \<noteq> a" "ts_objs st b = None" "ts_os st (Suc b) = None"
    by (auto simp: thr_ok_def)
  with assms(3) [of b] show "ts_objs st' b = None" "ts_os st' (Suc b) = None" by simp_all
qed (fact assms(4))

lemma thr_ok_next:
  assumes "thr_ok st" and "ts_objs st a \<noteq> None \<or> ts_os st (Suc a) \<noteq> None"
  shows "a < ts_next st"
  using assms by (meson not_le_imp_less thr_ok_def)

lemma thr_ok_log: "thr_ok (st\<lparr>ts_log := l\<rparr>) = thr_ok st"
  by (simp add: thr_ok_def)

lemma substr_length: "length (substr s 0 n) \<le> n"
  by (simp add: substr_def)

section \<open>Every operation keeps it\<close>

lemma create_ok:
  assumes "thr_ok st" and "0 < kid" and "Thread_create rt kid parent cb name st = Returns st'"
  shows "thr_ok st'"
proof (rule thr_ok_update [OF assms(1), where a = "ts_next st"])
  have new: "ts_os st 0 = None" using assms(1) by (simp add: thr_ok_def)
  with assms(3) show "ts_os st' 0 = None" by (auto simp: Thread_create_def Let_def split: if_splits)
qed (use assms(2,3) thr_ok_pair [OF assms(1), of "ts_next st"] assms(1) in
    \<open>auto simp: Thread_create_def Let_def os_ok_def link_ok_def thr_ok_def split: if_splits\<close>)

lemma create_fails_ok:
  assumes "thr_ok st" and "Thread_create rt kid parent cb name st = Throws e st'"
  shows "thr_ok st'"
  using assms by (auto simp: Thread_create_def Let_def thr_ok_log split: if_splits)

lemma wait_ok:
  assumes "thr_ok st" and "waiting a st" and "Thread_wait 0 a st = Some (Returns st')"
  shows "thr_ok st'"
proof -
  from assms(2) obtain ob where ob: "ts_objs st a = Some ob" "th_ctor ob = Waiting"
    by (auto simp: waiting_def split: option.splits)
  from thr_ok_obj [OF assms(1) ob(1)] obtain x
    where x: "ts_os st (Suc a) = Some x" "os_ok a x" "link_ok a ob x" "a \<notin> ts_thrown st" .
  from assms(3) ob(1) have sem: "th_sem ob \<noteq> 0"
    and st': "st' = set_obj a (ob\<lparr>th_sem := th_sem ob - 1, th_ctor := Constructed\<rparr>) st"
    by (auto simp: Thread_wait_def Semaphore_wait_def split: if_splits)
  from x(3) ob(2) sem have "link_ok a (ob\<lparr>th_sem := th_sem ob - 1, th_ctor := Constructed\<rparr>) x"
    by (auto simp: link_ok_def split: run_phase.splits if_splits)
  with x ob(1) st' assms(1) thr_ok_next [OF assms(1), of a] show ?thesis
    by (intro thr_ok_update [OF assms(1), where a = a]) (auto simp: thr_ok_def)
qed

lemma wait_fails_ok:
  assumes "thr_ok st" and "waiting a st" and "Thread_wait rc a st = Some (Throws e st')"
  shows "thr_ok st'"
proof -
  from assms(2) obtain ob where ob: "ts_objs st a = Some ob" by (auto simp: waiting_def split: option.splits)
  from thr_ok_obj [OF assms(1) ob] obtain x where x: "ts_os st (Suc a) = Some x" "os_ok a x" .
  from assms(3) ob have "st' = st\<lparr>ts_objs := (ts_objs st)(a := None), ts_thrown := insert a (ts_thrown st)\<rparr>"
    by (auto simp: Thread_wait_def split: option.splits sum.splits)
  with x assms(1) ob thr_ok_next [OF assms(1), of a] show ?thesis
    by (intro thr_ok_update [OF assms(1), where a = a]) (auto simp: thr_ok_def)
qed

text \<open>A thread whose object is gone before it has announced itself uses it.\<close>

lemma thrown_object:
  assumes "thr_ok st" and "a \<in> ts_thrown st"
  obtains x where "ts_objs st a = None" and "ts_os st (Suc a) = Some x" and "os_arg x = a"
  using thr_ok_pair [OF assms(1), of a] assms(2)
  by (cases "ts_objs st a"; cases "ts_os st (Suc a)") (auto simp: os_ok_def)

lemma thrown_start:
  assumes "thr_ok st" and "a \<in> ts_thrown st"
  shows "phase_of (Suc a) st = Some Begin \<Longrightarrow> run_prologue (Suc a) st = Inl Dangling"
    and "phase_of (Suc a) st = Some (Announcing cb) \<Longrightarrow> run_notify (Suc a) st = Crashes Dangling"
proof -
  from thrown_object [OF assms] obtain x where "ts_objs st a = None" "ts_os st (Suc a) = Some x"
    "os_arg x = a" .
  then show "phase_of (Suc a) st = Some Begin \<Longrightarrow> run_prologue (Suc a) st = Inl Dangling"
    and "phase_of (Suc a) st = Some (Announcing cb) \<Longrightarrow> run_notify (Suc a) st = Crashes Dangling"
    by (simp_all add: phase_of_def run_prologue_def run_notify_def)
qed

lemma starting_thread:
  assumes "thr_ok st" and "phase_of t st \<noteq> None"
  obtains a where "t = Suc a"
  using assms by (cases t) (auto simp: thr_ok_def phase_of_def)

lemma prologue_eq:
  assumes "thr_ok st" and "phase_of t st = Some Begin" and "t - 1 \<notin> ts_thrown st"
  obtains a x ob cb where "t = Suc a" and "ts_os st t = Some x" and "os_phase x = Begin"
    and "ts_objs st a = Some ob" and "th_cb ob = Some cb" and "os_ok a x" and "link_ok a ob x"
    and "run_prologue t st = Inr (set_obj a (ob\<lparr>th_id := os_id x, th_cb := None\<rparr>)
      (set_os t (x\<lparr>os_phase := Announcing cb, t_thread := Some a, t_thread_name := th_name ob,
         os_name := substr (th_name ob) 0 15\<rparr>) st))"
proof -
  from assms(2) obtain x where x: "ts_os st t = Some x" "os_phase x = Begin"
    by (auto simp: phase_of_def)
  from thr_ok_os [OF assms(1) x(1)] x(2) assms(3) obtain a ob
    where a: "t = Suc a" "os_ok a x" "os_arg x = a" and ob: "ts_objs st a = Some ob" "link_ok a ob x"
    by (metis diff_Suc_1)
  from ob(2) x(2) obtain cb where "th_cb ob = Some cb" by (auto simp: link_ok_def)
  with that a x ob show ?thesis by (simp add: run_prologue_def)
qed

lemma prologue_ok:
  assumes "thr_ok st" and "phase_of t st = Some Begin" and "run_prologue t st = Inr st'"
  shows "thr_ok st'"
proof -
  from starting_thread [OF assms(1), of t] assms(2) obtain c where c: "t = Suc c" by auto
  with thrown_start(1) [OF assms(1), of c] assms(2,3) have there: "t - 1 \<notin> ts_thrown st" by auto
  from prologue_eq [OF assms(1,2) this] obtain a x ob cb where h: "t = Suc a" "ts_os st t = Some x"
    "os_phase x = Begin" "ts_objs st a = Some ob" "th_cb ob = Some cb" "os_ok a x" "link_ok a ob x"
    "run_prologue t st = Inr (set_obj a (ob\<lparr>th_id := os_id x, th_cb := None\<rparr>)
      (set_os t (x\<lparr>os_phase := Announcing cb, t_thread := Some a, t_thread_name := th_name ob,
         os_name := substr (th_name ob) 0 15\<rparr>) st))" .
  show ?thesis
    using h alive [OF assms(1) h(4)] assms(1,3) thr_ok_next [OF assms(1), of a] substr_length [of "th_name ob" 15]
    by (intro thr_ok_update [OF assms(1), where a = a])
      (auto simp: os_ok_def link_ok_def thr_ok_def split: if_splits)
qed

lemma notify_eq:
  assumes "thr_ok st" and "phase_of t st = Some (Announcing cb)" and "t - 1 \<notin> ts_thrown st"
  obtains a x ob where "t = Suc a" and "ts_os st t = Some x" and "os_phase x = Announcing cb"
    and "ts_objs st a = Some ob" and "os_ok a x" and "link_ok a ob x"
    and "run_notify t st = Returns (set_obj a (ob\<lparr>th_sem := 1\<rparr>)
      (set_os t (x\<lparr>os_phase := Running cb\<rparr>) st))"
proof -
  from assms(2) obtain x where x: "ts_os st t = Some x" "os_phase x = Announcing cb"
    by (auto simp: phase_of_def)
  from thr_ok_os [OF assms(1) x(1)] x(2) assms(3) obtain a ob
    where a: "t = Suc a" "os_ok a x" "os_arg x = a" and ob: "ts_objs st a = Some ob" "link_ok a ob x"
    by (metis diff_Suc_1)
  from ob(2) x(2) have "th_sem ob = 0" by (auto simp: link_ok_def)
  with that a x ob show ?thesis
    by (simp add: run_notify_def Semaphore_notify_def sem_value_max_def)
qed

lemma notify_ok:
  assumes "thr_ok st" and "phase_of t st = Some (Announcing cb)" and "run_notify t st = Returns st'"
  shows "thr_ok st'"
proof -
  from starting_thread [OF assms(1), of t] assms(2) obtain c where c: "t = Suc c" by auto
  with thrown_start(2) [OF assms(1), of c cb] assms(2,3) have there: "t - 1 \<notin> ts_thrown st" by auto
  from notify_eq [OF assms(1,2) this] obtain a x ob where h: "t = Suc a" "ts_os st t = Some x"
    "os_phase x = Announcing cb" "ts_objs st a = Some ob" "os_ok a x" "link_ok a ob x"
    "run_notify t st = Returns (set_obj a (ob\<lparr>th_sem := 1\<rparr>)
      (set_os t (x\<lparr>os_phase := Running cb\<rparr>) st))" .
  show ?thesis
    using h alive [OF assms(1) h(4)] assms(1,3) thr_ok_next [OF assms(1), of a]
    by (intro thr_ok_update [OF assms(1), where a = a])
      (auto simp: os_ok_def link_ok_def thr_ok_def split: if_splits)
qed

text \<open>A thread that runs its callback, whose object may be gone.\<close>

lemma running_pair:
  assumes "thr_ok st" and "phase_of t st = Some (Running cb)"
  obtains a x where "t = Suc a" and "ts_os st (Suc a) = Some x" and "os_phase x = Running cb"
    and "os_ok a x" and "\<And>ob. ts_objs st a = Some ob \<Longrightarrow> link_ok a ob x"
proof -
  from assms(2) obtain x where x: "ts_os st t = Some x" "os_phase x = Running cb"
    by (auto simp: phase_of_def)
  from thr_ok_os [OF assms(1) x(1)] obtain a where a: "t = Suc a" "os_ok a x" by metis
  have "link_ok a ob x" if "ts_objs st a = Some ob" for ob
    using thr_ok_pair [OF assms(1), of a] x(1) a(1) that by simp
  with that a x show ?thesis by blast
qed

lemma finish_ok:
  assumes "thr_ok st" and "phase_of t st = Some (Running cb)"
  shows "thr_ok (run_finish t st)"
proof -
  from running_pair [OF assms] obtain a x where h: "t = Suc a" "ts_os st (Suc a) = Some x"
    "os_phase x = Running cb" "os_ok a x" "\<And>ob. ts_objs st a = Some ob \<Longrightarrow> link_ok a ob x"
    by metis
  have "pair_ok (a \<in> ts_thrown st) a (ts_objs st a) (Some (x\<lparr>os_phase := Finished\<rparr>))"
    using h(3-) alive [OF assms(1), of a] by (cases "ts_objs st a") (auto simp: os_ok_def link_ok_def split: if_splits)
  with h(1-3) assms(1) thr_ok_next [OF assms(1), of a] show ?thesis
    by (intro thr_ok_update [OF assms(1), where a = a]) (auto simp: run_finish_def thr_ok_def)
qed

lemma set_name_ok:
  assumes "thr_ok st" and "phase_of t st = Some (Running cb)" and "Thread_SetName t name st = Inr st'"
  shows "thr_ok st'"
proof (cases "name = []")
  case True
  with assms(1,3) show ?thesis by (simp add: Thread_SetName_def)
next
  case False
  from running_pair [OF assms(1,2)] obtain a x where h: "t = Suc a" "ts_os st (Suc a) = Some x"
    "os_phase x = Running cb" "os_ok a x" "\<And>ob. ts_objs st a = Some ob \<Longrightarrow> link_ok a ob x"
    by metis
  from h(3,4) have "t_thread x = Some a" by (simp add: os_ok_def)
  with assms(3) h(1,2) False obtain ob where ob: "ts_objs st a = Some ob"
    and st': "st' = set_os t (x\<lparr>t_thread_name := name\<rparr>) (set_obj a (ob\<lparr>th_name := name\<rparr>) st)"
    by (auto simp: Thread_SetName_def split: option.splits)
  from h(3) h(5) [OF ob] have "link_ok a (ob\<lparr>th_name := name\<rparr>) (x\<lparr>t_thread_name := name\<rparr>)"
    by (auto simp: link_ok_def split: if_splits)
  with h(1-4) st' alive [OF assms(1) ob] assms(1) thr_ok_next [OF assms(1), of a] show ?thesis
    by (intro thr_ok_update [OF assms(1), where a = a]) (auto simp: os_ok_def thr_ok_def)
qed

lemma constructed_pair:
  assumes "thr_ok st" and "constructed a st"
  obtains ob x where "ts_objs st a = Some ob" and "th_ctor ob = Constructed"
    and "ts_os st (Suc a) = Some x" and "os_ok a x" and "link_ok a ob x"
    and "os_phase x = Finished \<or> (\<exists>cb. os_phase x = Running cb)"
proof -
  from assms(2) obtain ob where ob: "ts_objs st a = Some ob" "th_ctor ob = Constructed"
    by (auto simp: constructed_def split: option.splits)
  from thr_ok_obj [OF assms(1) ob(1)] obtain x
    where x: "ts_os st (Suc a) = Some x" "os_ok a x" "link_ok a ob x" .
  from x(3) ob(2) have "os_phase x = Finished \<or> (\<exists>cb. os_phase x = Running cb)"
    by (cases "os_phase x") (auto simp: link_ok_def)
  with that ob x show ?thesis by blast
qed

lemma join_ok:
  assumes "thr_ok st" and "constructed a st" and "Thread_join caller a st = Some (Returns st')"
  shows "thr_ok st'"
proof -
  from constructed_pair [OF assms(1,2)] obtain ob x where h: "ts_objs st a = Some ob"
    "th_ctor ob = Constructed" "ts_os st (Suc a) = Some x" "os_ok a x" "link_ok a ob x" .
  show ?thesis
  proof (cases "th_thread ob = 0")
    case True
    with assms h show ?thesis by (simp add: Thread_join_def)
  next
    case False
    with h(5) have t: "th_thread ob = Suc a" by (simp add: link_ok_def)
    with False h(1,3) assms(3) have "os_phase x = Finished" "st' = set_obj a (ob\<lparr>th_thread := 0\<rparr>) st"
      by (auto simp: Thread_join_def split: if_splits run_phase.splits)
    with h alive [OF assms(1) h(1)] assms(1) thr_ok_next [OF assms(1), of a] show ?thesis
      by (intro thr_ok_update [OF assms(1), where a = a]) (auto simp: link_ok_def thr_ok_def)
  qed
qed

lemma destroy_ok:
  assumes "thr_ok st" and "constructed a st"
  shows "thr_ok (Thread_destroy a st)"
proof -
  from constructed_pair [OF assms] obtain ob x where h: "ts_objs st a = Some ob"
    "ts_os st (Suc a) = Some x" "os_ok a x" "link_ok a ob x"
    "os_phase x = Finished \<or> (\<exists>cb. os_phase x = Running cb)" by metis
  from h(4) have "th_thread ob = 0 \<or> th_thread ob = Suc a" by (auto simp: link_ok_def split: if_splits)
  with h(1-3,5) alive [OF assms(1) h(1)] assms(1) thr_ok_next [OF assms(1), of a] show ?thesis
    by (intro thr_ok_update [OF assms(1), where a = a])
      (auto simp: Thread_destroy_def os_ok_def thr_ok_def Let_def)
qed

lemma thread_step_ok: "thread_step st st' \<Longrightarrow> thr_ok st \<Longrightarrow> thr_ok st'"
  by (induction rule: thread_step.induct)
    (blast intro: create_ok create_fails_ok wait_ok wait_fails_ok prologue_ok notify_ok finish_ok set_name_ok
      join_ok destroy_ok)+

lemma thread_reachable_ok: "thread_reachable st \<Longrightarrow> thr_ok st"
proof (induction rule: thread_reachable.induct)
  case start
  show ?case by (simp add: thr_ok_def thread_start_def)
qed (blast intro: thread_step_ok)

section \<open>The handshake\<close>

text \<open>
  C10: What holds once a constructor has returned, and what never happens before, in every
  interleaving of constructors, threads, \<open>join\<close> and destructors. A constructed object carries the
  id of its thread (so \<open>getId\<close> never shows the initial -1), its callback has been taken out of it,
  the thread runs it or has ended, \<open>Thread::GetThis\<close> on the thread is the object,
  \<open>Thread::GetName\<close> there is \<open>getName\<close> of the object and the name the system shows has at most
  15 characters. A thread that starts gets through the prologue of \<open>run\<close> and its \<open>notify\<close>, unless
  the wait of its constructor was interrupted and has thrown: then the object is gone, and the
  next of the two it comes to uses a destroyed object.
\<close>

theorem constructor_handshake:
  assumes "thread_reachable st"
  shows "(\<forall>a ob. ts_objs st a = Some ob \<longrightarrow> th_ctor ob = Constructed \<longrightarrow>
      0 < th_id ob \<and> th_cb ob = None
      \<and> (phase_of (Suc a) st = Some Finished \<or> (\<exists>cb. phase_of (Suc a) st = Some (Running cb)))
      \<and> Thread_GetThis (Suc a) st = Some a \<and> Thread_GetName (Suc a) st = th_name ob
      \<and> (\<exists>x. ts_os st (Suc a) = Some x \<and> os_id x = th_id ob \<and> length (os_name x) \<le> 15))
    \<and> (\<forall>t. if phase_of t st = Some Begin \<and> t - 1 \<in> ts_thrown st then run_prologue t st = Inl Dangling
           else \<exists>st'. run_prologue t st = Inr st')
    \<and> (\<forall>t. if (\<exists>cb. phase_of t st = Some (Announcing cb)) \<and> t - 1 \<in> ts_thrown st
           then run_notify t st = Crashes Dangling else \<exists>st'. run_notify t st = Returns st')"
proof (intro conjI allI impI)
  note ok = thread_reachable_ok [OF assms]
  fix a ob assume ob: "ts_objs st a = Some ob" "th_ctor ob = Constructed"
  then have "constructed a st" by (simp add: constructed_def)
  from constructed_pair [OF ok this] ob(1) obtain x where x: "ts_os st (Suc a) = Some x" "os_ok a x"
    "link_ok a ob x" "os_phase x = Finished \<or> (\<exists>cb. os_phase x = Running cb)" by (metis option.inject)
  then have "os_phase x \<noteq> Begin" by auto
  with x(2,3) have f: "t_thread x = Some a" "length (os_name x) \<le> 15" "0 < os_id x"
    "th_id ob = os_id x" "th_cb ob = None" "t_thread_name x = th_name ob"
    by (simp_all add: os_ok_def link_ok_def)
  from x(1,4) f show "0 < th_id ob" "th_cb ob = None"
    "phase_of (Suc a) st = Some Finished \<or> (\<exists>cb. phase_of (Suc a) st = Some (Running cb))"
    "Thread_GetThis (Suc a) st = Some a" "Thread_GetName (Suc a) st = th_name ob"
    "\<exists>x. ts_os st (Suc a) = Some x \<and> os_id x = th_id ob \<and> length (os_name x) \<le> 15"
    by (simp_all add: phase_of_def Thread_GetThis_def Thread_GetName_def)
next
  note ok = thread_reachable_ok [OF assms]
  fix t
  show "if phase_of t st = Some Begin \<and> t - 1 \<in> ts_thrown st then run_prologue t st = Inl Dangling
    else \<exists>st'. run_prologue t st = Inr st'"
  proof (cases "phase_of t st = Some Begin")
    case True
    with starting_thread [OF ok, of t] obtain a where "t = Suc a" by auto
    with thrown_start(1) [OF ok, of a] prologue_eq [OF ok True] True show ?thesis
      by (cases "a \<in> ts_thrown st") (simp, metis diff_Suc_1)
  next
    case False
    then show ?thesis
      by (auto simp: run_prologue_def phase_of_def split: option.splits run_phase.splits)
  qed
next
  note ok = thread_reachable_ok [OF assms]
  fix t
  show "if (\<exists>cb. phase_of t st = Some (Announcing cb)) \<and> t - 1 \<in> ts_thrown st
    then run_notify t st = Crashes Dangling else \<exists>st'. run_notify t st = Returns st'"
  proof (cases "\<exists>cb. phase_of t st = Some (Announcing cb)")
    case True
    then obtain cb where cb: "phase_of t st = Some (Announcing cb)" by auto
    with starting_thread [OF ok, of t] obtain a where "t = Suc a" by auto
    with thrown_start(2) [OF ok, of a cb] notify_eq [OF ok cb] True cb show ?thesis
      by (cases "a \<in> ts_thrown st") (simp, metis diff_Suc_1)
  next
    case False
    then show ?thesis
      by (auto simp: run_notify_def phase_of_def split: option.splits run_phase.splits)
  qed
qed

text \<open>The wait of a constructor whose thread has announced itself.\<close>

lemma waiting_pair:
  assumes "thr_ok st" and "waiting a st"
  obtains ob x where "ts_objs st a = Some ob" and "th_ctor ob = Waiting"
    and "ts_os st (Suc a) = Some x" and "os_ok a x" and "link_ok a ob x" and "a \<notin> ts_thrown st"
proof -
  from assms(2) obtain ob where ob: "ts_objs st a = Some ob" "th_ctor ob = Waiting"
    by (auto simp: waiting_def split: option.splits)
  with thr_ok_obj [OF assms(1) ob(1)] that show ?thesis by metis
qed

lemma announced_wait:
  assumes "thr_ok st" and "waiting a st"
    and "phase_of (Suc a) st = Some (Running cb) \<or> phase_of (Suc a) st = Some Finished"
  shows "\<exists>st'. thread_step st st' \<and> constructed a st' \<and> phase_of (Suc a) st' = phase_of (Suc a) st"
proof -
  from waiting_pair [OF assms(1,2)] obtain ob x where h: "ts_objs st a = Some ob"
    "th_ctor ob = Waiting" "ts_os st (Suc a) = Some x" "link_ok a ob x" by metis
  with assms(3) have "th_sem ob = 1" by (auto simp: phase_of_def link_ok_def)
  with h have "Thread_wait 0 a st =
      Some (Returns (set_obj a (ob\<lparr>th_sem := 0, th_ctor := Constructed\<rparr>) st))"
    by (simp add: Thread_wait_def Semaphore_wait_def)
  note step = thread_step.wait [OF assms(2) this]
  show ?thesis by (rule exI, rule conjI, rule step) (simp add: constructed_def phase_of_def)
qed

lemma announce:
  assumes "thr_ok st" and "waiting a st" and "phase_of (Suc a) st = Some (Announcing cb)"
  shows "\<exists>st'. thread_step st st' \<and> waiting a st' \<and> phase_of (Suc a) st' = Some (Running cb)"
proof -
  have "Suc a - 1 \<notin> ts_thrown st" using waiting_pair [OF assms(1,2)] by simp
  from notify_eq [OF assms(1,3) this] obtain x ob where h: "ts_objs st a = Some ob"
    "run_notify (Suc a) st = Returns (set_obj a (ob\<lparr>th_sem := 1\<rparr>)
      (set_os (Suc a) (x\<lparr>os_phase := Running cb\<rparr>) st))" by (metis nat.inject)
  from thread_step.notify [OF assms(3) h(2)] h(1) assms(2) show ?thesis
    by (intro exI conjI) (auto simp: waiting_def phase_of_def)
qed

lemma begin_announcing:
  assumes "thr_ok st" and "waiting a st" and "phase_of (Suc a) st = Some Begin"
    and "ts_objs st a = Some ob" and "th_cb ob = Some cb"
  shows "\<exists>st'. thread_step st st' \<and> waiting a st' \<and> phase_of (Suc a) st' = Some (Announcing cb)"
proof -
  have "Suc a - 1 \<notin> ts_thrown st" using waiting_pair [OF assms(1,2)] by simp
  from prologue_eq [OF assms(1,3) this] assms(4,5) obtain x where h:
    "run_prologue (Suc a) st = Inr (set_obj a (ob\<lparr>th_id := os_id x, th_cb := None\<rparr>)
      (set_os (Suc a) (x\<lparr>os_phase := Announcing cb, t_thread := Some a,
         t_thread_name := th_name ob, os_name := substr (th_name ob) 0 15\<rparr>) st))"
    by (metis nat.inject option.inject)
  from thread_step.prologue [OF assms(3) h] assms(2,4) show ?thesis
    by (intro exI conjI) (auto simp: waiting_def phase_of_def)
qed

text \<open>
  C20: The constructor always gets through. In whatever interleaving a constructor waits, at most
  three steps, of the new thread and of the constructor, complete it; if the new thread had not
  started yet, it is then running exactly the callback the constructor was given.
\<close>

theorem constructor_completes:
  assumes "thread_reachable st" and "waiting a st"
  shows "\<exists>n st'. n \<le> 3 \<and> (thread_step ^^ n) st st' \<and> constructed a st'
    \<and> (\<forall>ob cb. ts_objs st a = Some ob \<longrightarrow> th_cb ob = Some cb \<longrightarrow>
         phase_of (Suc a) st' = Some (Running cb))"
proof -
  note ok = thread_reachable_ok [OF assms(1)]
  from waiting_pair [OF ok assms(2)] obtain ob x where h: "ts_objs st a = Some ob"
    "ts_os st (Suc a) = Some x" "link_ok a ob x" by metis
  have taken: "th_cb ob = None" if "os_phase x \<noteq> Begin" using h(3) that by (simp add: link_ok_def)
  show ?thesis
  proof (cases "os_phase x")
    case Begin
    with h(3) obtain cb where cb: "th_cb ob = Some cb" by (auto simp: link_ok_def)
    have "phase_of (Suc a) st = Some Begin" using h(2) Begin by (simp add: phase_of_def)
    from begin_announcing [OF ok assms(2) this h(1) cb] obtain s1 where
      s1: "thread_step st s1" "waiting a s1" "phase_of (Suc a) s1 = Some (Announcing cb)" by auto
    note ok1 = thread_step_ok [OF s1(1) ok]
    from announce [OF ok1 s1(2,3)] obtain s2 where
      s2: "thread_step s1 s2" "waiting a s2" "phase_of (Suc a) s2 = Some (Running cb)" by auto
    from announced_wait [OF thread_step_ok [OF s2(1) ok1] s2(2)] s2(3) obtain s3 where
      s3: "thread_step s2 s3" "constructed a s3" "phase_of (Suc a) s3 = Some (Running cb)" by metis
    have "(thread_step ^^ 3) st s3"
      using s1(1) s2(1) s3(1) by (auto simp: numeral_3_eq_3 intro!: relcomppI)
    with s3 h(1) cb show ?thesis by (intro exI [of _ 3] exI [of _ s3]) simp
  next
    case (Announcing cb)
    then have "phase_of (Suc a) st = Some (Announcing cb)" using h(2) by (simp add: phase_of_def)
    from announce [OF ok assms(2) this] obtain s2 where
      s2: "thread_step st s2" "waiting a s2" "phase_of (Suc a) s2 = Some (Running cb)" by auto
    from announced_wait [OF thread_step_ok [OF s2(1) ok] s2(2)] s2(3) obtain s3 where
      s3: "thread_step s2 s3" "constructed a s3" by metis
    have "(thread_step ^^ 2) st s3"
      using s2(1) s3(1) by (auto simp: numeral_2_eq_2 intro!: relcomppI)
    with s3 h(1) taken Announcing show ?thesis by (intro exI [of _ 2] exI [of _ s3]) simp
  next
    case (Running cb)
    from announced_wait [OF ok assms(2)] Running h(2) obtain s3 where
      s3: "thread_step st s3" "constructed a s3" by (auto simp: phase_of_def)
    with h(1) taken Running show ?thesis by (intro exI [of _ 1] exI [of _ s3]) (simp add: eq_OO)
  next
    case Finished
    from announced_wait [OF ok assms(2)] Finished h(2) obtain s3 where
      s3: "thread_step st s3" "constructed a s3" by (auto simp: phase_of_def)
    with h(1) taken Finished show ?thesis by (intro exI [of _ 1] exI [of _ s3]) (simp add: eq_OO)
  qed
qed

text \<open>
  With a wait that is interrupted the constructor throws although the thread exists: the object is
  gone when the thread starts.
\<close>

lemma interrupted_constructor:
  assumes "thr_ok st" and "waiting a st" and "phase_of (Suc a) st = Some Begin" and "rc \<noteq> 0"
  shows "\<exists>e st'. Thread_wait rc a st = Some (Throws e st') \<and> thread_step st st'
    \<and> run_prologue (Suc a) st' = Inl Dangling"
proof -
  have "Suc a - 1 \<notin> ts_thrown st" using waiting_pair [OF assms(1,2)] by simp
  from prologue_eq [OF assms(1,3) this] obtain x ob where x: "ts_os st (Suc a) = Some x" "os_phase x = Begin"
    "ts_objs st a = Some ob" "os_ok a x" by (metis nat.inject)
  then have "os_arg x = a" by (simp add: os_ok_def)
  with x assms(4) obtain e st' where "Thread_wait rc a st = Some (Throws e st')"
    "run_prologue (Suc a) st' = Inl Dangling"
    by (simp add: Thread_wait_def Semaphore_wait_def run_prologue_def)
  with thread_step.wait_fails [OF assms(2) this(1)] show ?thesis by blast
qed

section \<open>Join and destruction\<close>

text \<open>
  C24: \<open>join\<close> and the destructor on a constructed object. As long as the thread was not joined:
  \<open>join\<close> waits while the callback runs; once it has ended, \<open>join\<close> returns and clears the handle,
  after which joining again returns at once and changes nothing and destroying the object does not
  detach; a thread that joins its own object gets an exception and nothing changes but the log;
  and destroying the object detaches the thread. A cleared handle means that the thread has ended.
\<close>

theorem join_and_destroy:
  assumes "thread_reachable st" and "ts_objs st a = Some ob" and "th_ctor ob = Constructed"
  shows "(th_thread ob = 0 \<longrightarrow> phase_of (Suc a) st = Some Finished)
    \<and> (th_thread ob \<noteq> 0 \<longrightarrow>
        (\<forall>c. c \<noteq> Suc a \<longrightarrow> phase_of (Suc a) st \<noteq> Some Finished \<longrightarrow> Thread_join c a st = None)
      \<and> (\<forall>c. c \<noteq> Suc a \<longrightarrow> phase_of (Suc a) st = Some Finished \<longrightarrow>
           (\<exists>st'. Thread_join c a st = Some (Returns st')
              \<and> ts_objs st' = (ts_objs st)(a \<mapsto> ob\<lparr>th_thread := 0\<rparr>) \<and> ts_os st' = ts_os st
              \<and> (\<forall>d. Thread_join d a st' = Some (Returns st'))
              \<and> ts_os (Thread_destroy a st') = ts_os st))
      \<and> (\<exists>st'. Thread_join (Suc a) a st = Some (Throws (Std_exception ''pthread_join error'') st')
           \<and> ts_objs st' = ts_objs st \<and> ts_os st' = ts_os st)
      \<and> (\<exists>x. ts_os (Thread_destroy a st) (Suc a) = Some x \<and> os_detached x))"
proof -
  have "constructed a st" using assms(2,3) by (simp add: constructed_def)
  from constructed_pair [OF thread_reachable_ok [OF assms(1)] this] assms(2) obtain x where
    x: "ts_os st (Suc a) = Some x" "link_ok a ob x"
    "os_phase x = Finished \<or> (\<exists>cb. os_phase x = Running cb)" by (metis option.inject)
  have zero: "os_phase x = Finished" if "th_thread ob = 0" using x(2) that by (simp add: link_ok_def)
  have handle: "th_thread ob = Suc a" if "th_thread ob \<noteq> 0" using x(2) that by (simp add: link_ok_def)
  show ?thesis
  proof (cases "th_thread ob = 0")
    case True
    with zero x(1) show ?thesis by (simp add: phase_of_def)
  next
    case False
    note h = handle [OF False]
    have waits: "Thread_join c a st = None"
      if "c \<noteq> Suc a" "phase_of (Suc a) st \<noteq> Some Finished" for c
      using that h x(1,3) assms(2) by (auto simp: Thread_join_def phase_of_def)
    have joins: "Thread_join c a st = Some (Returns (set_obj a (ob\<lparr>th_thread := 0\<rparr>) st))"
      if "c \<noteq> Suc a" "phase_of (Suc a) st = Some Finished" for c
      using that h x(1) assms(2) by (auto simp: Thread_join_def phase_of_def)
    have again: "Thread_join d a (set_obj a (ob\<lparr>th_thread := 0\<rparr>) st) =
        Some (Returns (set_obj a (ob\<lparr>th_thread := 0\<rparr>) st))" for d
      by (simp add: Thread_join_def)
    have kept: "ts_os (Thread_destroy a (set_obj a (ob\<lparr>th_thread := 0\<rparr>) st)) = ts_os st"
      by (simp add: Thread_destroy_def)
    have self: "\<exists>st'. Thread_join (Suc a) a st = Some (Throws (Std_exception ''pthread_join error'') st')
           \<and> ts_objs st' = ts_objs st \<and> ts_os st' = ts_os st"
      using h assms(2) by (simp add: Thread_join_def)
    have detached: "\<exists>x. ts_os (Thread_destroy a st) (Suc a) = Some x \<and> os_detached x"
      using h assms(2) x(1) by (simp add: Thread_destroy_def Let_def)
    show ?thesis using False waits joins again kept self detached by auto
  qed
qed

text \<open>
  C38: Destroying a \<open>Thread\<close> whose callback still runs, which its destructor allows (it detaches
  the thread): \<open>t_thread\<close> of the running thread is not cleared. \<open>Thread::GetThis\<close> there still
  returns the address, and \<open>Thread::SetName\<close> with a non-empty name writes to the destroyed object.
\<close>

theorem destroyed_while_running:
  assumes "thread_reachable st" and "constructed a st" and "phase_of (Suc a) st = Some (Running cb)"
  shows "thread_reachable (Thread_destroy a st) \<and> ts_objs (Thread_destroy a st) a = None
    \<and> phase_of (Suc a) (Thread_destroy a st) = Some (Running cb)
    \<and> Thread_GetThis (Suc a) (Thread_destroy a st) = Some a
    \<and> (\<forall>name. Thread_SetName (Suc a) name (Thread_destroy a st) =
         (if name = [] then Inr (Thread_destroy a st) else Inl Dangling))"
proof -
  from running_pair [OF thread_reachable_ok [OF assms(1)] assms(3)] obtain x where
    x: "ts_os st (Suc a) = Some x" "os_phase x = Running cb" "os_ok a x"
    and link: "\<And>ob. ts_objs st a = Some ob \<Longrightarrow> link_ok a ob x" by (metis nat.inject)
  from assms(2) obtain ob where ob: "ts_objs st a = Some ob"
    by (auto simp: constructed_def split: option.splits)
  from link [OF ob] x(2) have "th_thread ob = Suc a" by (auto simp: link_ok_def split: if_splits)
  with ob x(1) have d: "ts_objs (Thread_destroy a st) = (ts_objs st)(a := None)"
    "ts_os (Thread_destroy a st) = (ts_os st)(Suc a \<mapsto> x\<lparr>os_detached := True\<rparr>)"
    by (simp_all add: Thread_destroy_def Let_def)
  from x(2,3) have "t_thread x = Some a" by (simp add: os_ok_def)
  with d x(2) thread_reachable.step [OF assms(1) thread_step.destroy [OF assms(2)]] show ?thesis
    by (simp add: phase_of_def Thread_GetThis_def Thread_SetName_def)
qed

section \<open>The semaphore\<close>

text \<open>A sequence of calls: how it went (\<open>None\<close>: one waits) and the count.\<close>

datatype sem_op = Sem_wait | Sem_notify

fun sem_run :: "sem_op list \<Rightarrow> nat \<Rightarrow> (exn + nat) option" where
  "sem_run [] n = Some (Inr n)"
| "sem_run (Sem_wait # ops) n =
     (case Semaphore_wait 0 n of
        None \<Rightarrow> None | Some (Inl e) \<Rightarrow> Some (Inl e) | Some (Inr m) \<Rightarrow> sem_run ops m)"
| "sem_run (Sem_notify # ops) n =
     (case Semaphore_notify n of Inl e \<Rightarrow> Some (Inl e) | Inr m \<Rightarrow> sem_run ops m)"

definition posts :: "sem_op list \<Rightarrow> nat" where "posts ops = count_list ops Sem_notify"

definition waits :: "sem_op list \<Rightarrow> nat" where "waits ops = count_list ops Sem_wait"

lemma posts_waits_simps [simp]:
  "posts [] = 0" "posts (Sem_notify # ops) = Suc (posts ops)" "posts (Sem_wait # ops) = posts ops"
  "waits [] = 0" "waits (Sem_wait # ops) = Suc (waits ops)" "waits (Sem_notify # ops) = waits ops"
  by (simp_all add: posts_def waits_def)

lemma sem_run_count:
  assumes "sem_run ops n = Some (Inr m)" and "n \<le> sem_value_max"
  shows "m + waits ops = n + posts ops \<and> m \<le> sem_value_max"
  using assms
proof (induction ops arbitrary: n)
  case (Cons op ops)
  then show ?case
    by (cases op) (force simp: Semaphore_wait_def Semaphore_notify_def split: if_splits)+
qed simp

lemma sem_run_passes:
  assumes "n + posts ops \<le> sem_value_max"
    and "\<And>k. waits (take k ops) \<le> n + posts (take k ops)"
  shows "\<exists>m. sem_run ops n = Some (Inr m)"
  using assms
proof (induction ops arbitrary: n)
  case (Cons op ops)
  show ?case
  proof (cases op)
    case Sem_wait
    have "0 < n" using Cons.prems(2) [of 1] Sem_wait by simp
    moreover have "waits (take k ops) \<le> n - 1 + posts (take k ops)" for k
      using Cons.prems(2) [of "Suc k"] Sem_wait \<open>0 < n\<close> by simp
    ultimately show ?thesis
      using Cons.IH [of "n - 1"] Cons.prems(1) Sem_wait by (simp add: Semaphore_wait_def)
  next
    case Sem_notify
    have "waits (take k ops) \<le> n + 1 + posts (take k ops)" for k
      using Cons.prems(2) [of "Suc k"] Sem_notify by simp
    then show ?thesis
      using Cons.IH [of "n + 1"] Cons.prems(1) Sem_notify by (simp add: Semaphore_notify_def)
  qed
qed simp

text \<open>
  The semaphore counts. It is created exactly for counts up to \<open>SEM_VALUE_MAX\<close>; a sequence of
  calls that gets through leaves the initial count plus the notifications minus the waits, within
  the bounds; it gets through whenever no prefix waits more often than there was something to wait
  for and the bound is not reached; and at the bound \<open>notify\<close> throws.
\<close>

lemma semaphore_counts:
  assumes "new_Semaphore count = Inr n"
  shows "n = unat count \<and> n \<le> sem_value_max
    \<and> (\<forall>ops m. sem_run ops n = Some (Inr m) \<longrightarrow>
         int m = int n + int (posts ops) - int (waits ops) \<and> m \<le> sem_value_max)
    \<and> (\<forall>ops. n + posts ops \<le> sem_value_max \<longrightarrow>
         (\<forall>k. waits (take k ops) \<le> n + posts (take k ops)) \<longrightarrow> (\<exists>m. sem_run ops n = Some (Inr m)))
    \<and> sem_run (replicate (Suc n) Sem_wait) n = None
    \<and> Semaphore_notify sem_value_max = Inl (Std_exception ''sem_post error'')"
proof -
  from assms have n: "n = unat count" "n \<le> sem_value_max"
    by (auto simp: new_Semaphore_def split: if_splits)
  have "int m = int n + int (posts ops) - int (waits ops) \<and> m \<le> sem_value_max"
    if "sem_run ops n = Some (Inr m)" for ops m
    using sem_run_count [OF that n(2)] by linarith
  moreover have "sem_run (replicate (Suc k) Sem_wait) k = None" for k
    by (induction k) (simp_all add: Semaphore_wait_def)
  ultimately show ?thesis
    using n sem_run_passes by (simp add: Semaphore_notify_def)
qed

section \<open>Instances\<close>

text \<open>One thread with the callback 5, named by 17 characters, at each stage.\<close>

definition long_name :: string where "long_name = ''abcdefghijklmnopq''"

definition stage :: "nat Thread \<Rightarrow> nat os_thread \<Rightarrow> nat thread_state" where
  "stage ob x = \<lparr>ts_objs = [1 \<mapsto> ob], ts_os = [2 \<mapsto> x], ts_next = 3, ts_thrown = {}, ts_log = []\<rparr>"

definition child :: "nat run_phase \<Rightarrow> nat os_thread" where
  "child p = \<lparr>os_arg = 1, os_id = 77, os_phase = p, t_thread = Some 1, t_thread_name = long_name,
     os_name = ''abcdefghijklmno'', os_detached = False\<rparr>"

definition parent_object :: "nat \<Rightarrow> ctor_phase \<Rightarrow> nat Thread" where
  "parent_object sem p = \<lparr>th_id = 77, th_thread = 2, th_cb = None, th_name = long_name, th_sem = sem,
     th_ctor = p\<rparr>"

definition created :: "nat thread_state" where
  "created = stage
     \<lparr>th_id = -1, th_thread = 2, th_cb = Some 5, th_name = long_name, th_sem = 0, th_ctor = Waiting\<rparr>
     \<lparr>os_arg = 1, os_id = 77, os_phase = Begin, t_thread = None, t_thread_name = unknown_name,
      os_name = ''main'', os_detached = False\<rparr>"

lemmas stage_defs = stage_def child_def parent_object_def phase_of_def waiting_def constructed_def

lemma created_reachable: "thread_reachable created"
  by (rule thread_reachable.step [OF thread_reachable.start thread_step.create
      [where kid = 77 and parent = "''main''" and cb = 5 and name = long_name]])
    (simp_all add: Thread_create_def thread_start_def created_def stage_def long_name_def
      set_obj_def set_os_def Let_def numeral_2_eq_2)

lemma announcing_reachable: "thread_reachable (stage (parent_object 0 Waiting) (child (Announcing 5)))"
  by (rule thread_reachable.step [OF created_reachable thread_step.prologue [where t = 2]])
    (simp_all add: run_prologue_def created_def stage_defs set_obj_def set_os_def long_name_def
      substr_def)

lemma running_reachable: "thread_reachable (stage (parent_object 1 Waiting) (child (Running 5)))"
  by (rule thread_reachable.step [OF announcing_reachable thread_step.notify [where t = 2 and cb = 5]])
    (simp_all add: run_notify_def Semaphore_notify_def sem_value_max_def stage_defs set_obj_def
      set_os_def)

lemma constructed_reachable:
  "thread_reachable (stage (parent_object 0 Constructed) (child (Running 5)))"
  by (rule thread_reachable.step [OF running_reachable thread_step.wait [where a = 1]])
    (simp_all add: Thread_wait_def Semaphore_wait_def stage_defs set_obj_def)

theorem constructor_handshake_witness:
  "thread_reachable (stage (parent_object 0 Constructed) (child (Running 5)))
   \<and> Thread_GetThis 2 (stage (parent_object 0 Constructed) (child (Running 5))) = Some 1
   \<and> Thread_GetName 2 (stage (parent_object 0 Constructed) (child (Running 5))) = long_name"
  using constructor_handshake [OF constructed_reachable] constructed_reachable
  by (auto simp: stage_def parent_object_def numeral_2_eq_2)

theorem constructor_completes_witness:
  "\<exists>n st'. n \<le> 3 \<and> (thread_step ^^ n) created st' \<and> constructed 1 st'
     \<and> phase_of 2 st' = Some (Running 5)"
proof -
  have "waiting 1 created" by (simp add: waiting_def created_def stage_def)
  from constructor_completes [OF created_reachable this] show ?thesis
    by (auto simp: created_def stage_def numeral_2_eq_2)
qed

theorem join_and_destroy_witness:
  "Thread_join 9 1 (stage (parent_object 0 Constructed) (child (Running 5))) = None
   \<and> (\<exists>st'. Thread_join 2 1 (stage (parent_object 0 Constructed) (child (Running 5))) =
        Some (Throws (Std_exception ''pthread_join error'') st'))"
  using join_and_destroy [OF constructed_reachable, of 1 "parent_object 0 Constructed"]
  by (auto simp: stage_defs numeral_2_eq_2)

theorem destroyed_while_running_witness:
  "Thread_SetName 2 ''x'' (Thread_destroy 1 (stage (parent_object 0 Constructed) (child (Running 5)))) =
     Inl Dangling"
  using destroyed_while_running [OF constructed_reachable, of 1 5]
  by (simp add: stage_defs numeral_2_eq_2)

lemma semaphore_counts_witness:
  "sem_run [Sem_notify, Sem_notify, Sem_wait] 0 = Some (Inr 1) \<and> sem_run [Sem_wait] 0 = None"
proof -
  have "new_Semaphore 0 = Inr 0" by (simp add: new_Semaphore_def)
  from semaphore_counts [OF this] have "sem_run (replicate (Suc 0) Sem_wait) 0 = None" by blast
  then show ?thesis
    by (simp add: Semaphore_notify_def Semaphore_wait_def sem_value_max_def)
qed

end
