(* ===== verification/Fiber.thy ===== *)
theory Fiber
  imports Config_Var Locks
begin

text \<open>
  Fibers (\<open>chord/fiber.h\<close>, \<open>chord/fiber.cpp\<close>) and \<open>GetFiberId\<close> of \<open>chord/util.cpp\<close>: objects held by
  \<open>std::shared_ptr\<close>, each with a saved machine context, and the two thread-local variables
  \<open>t_fiber\<close> and \<open>t_threadFiber\<close>. What a thread has still to execute is a value, so
  \<open>swapcontext\<close> is: store that value in one fiber and go on with the one another fiber stores.
  Addresses are never reused, so a use of a destroyed fiber shows. The library calls
  \<open>getcontext\<close>, \<open>swapcontext\<close> and \<open>malloc\<close> succeed.
\<close>

section \<open>Data\<close>

datatype State = INIT | HOLD | EXEC | TERM' | READY | EXCEPT

text \<open>
  What client code (a thread's main function, a fiber's callback) does with the fibers: the calls
  it makes in order. \<open>Release\<close> gives up one shared pointer; \<open>Get_this\<close> drops the pointer it gets.
\<close>

datatype call =
    Get_this
  | Swap_in nat
  | Swap_out nat
  | Yield_to_ready
  | Yield_to_hold
  | Create "call list" "64 word"
  | Reset nat "call list"
  | Release nat
  | Throw exn

type_synonym script = "call list"

text \<open>
  What a thread has to execute: the rest of its own main function, or, inside the
  \<open>Fiber::MainFunc\<close> whose local \<open>cur\<close> is the given fiber, the rest of the callback. \<open>Ended\<close> is a
  thread that is over.
\<close>

datatype flow = Thread_main script | Fiber_main nat script | Ended

text \<open>
  A \<open>ucontext_t\<close>: taken by \<open>getcontext\<close> in a constructor that has returned since, made by
  \<open>makecontext\<close> for \<open>MainFunc\<close>, or saved by \<open>swapcontext\<close>.
\<close>

datatype ucontext = Captured | Entry | Saved flow

record Fiber =
  m_id :: "64 word"
  m_stacksize :: "32 word"
  m_state :: State
  m_ctx :: ucontext
  m_stack :: "nat option"
  m_cb :: "script option"
  use_count :: nat

record fiber_state =
  fs_fibers :: "nat \<Rightarrow> Fiber option"
  fs_next :: nat
  fs_stacks :: "nat \<Rightarrow> 32 word option"
  s_fiber_id :: "64 word"
  s_fiber_count :: "64 word"
  t_fiber :: "thread \<Rightarrow> nat option"
  t_threadFiber :: "thread \<Rightarrow> nat option"
  fs_flow :: "thread \<Rightarrow> flow"
  fs_log :: "(Level \<times> string) list"

definition fiber_log :: "Level \<Rightarrow> string \<Rightarrow> fiber_state \<Rightarrow> fiber_state" where
  "fiber_log l msg st = st\<lparr>fs_log := fs_log st @ [(l, msg)]\<rparr>"

definition on_fiber :: "nat \<Rightarrow> (Fiber \<Rightarrow> Fiber) \<Rightarrow> fiber_state \<Rightarrow> fiber_state may_crash" where
  "on_fiber f g st =
     (case fs_fibers st f of
        None \<Rightarrow> Inl Dangling | Some b \<Rightarrow> Inr (st\<lparr>fs_fibers := (fs_fibers st)(f \<mapsto> g b)\<rparr>))"

definition set_flow :: "thread \<Rightarrow> flow \<Rightarrow> fiber_state \<Rightarrow> fiber_state" where
  "set_flow t fl st = st\<lparr>fs_flow := (fs_flow st)(t := fl)\<rparr>"

text \<open>The library type \<open>std::shared_ptr\<close>: the number of pointers to a fiber is \<open>use_count\<close>.\<close>

definition ptr_copy :: "nat \<Rightarrow> fiber_state \<Rightarrow> fiber_state may_crash" where
  "ptr_copy f = on_fiber f (\<lambda>b. b\<lparr>use_count := use_count b + 1\<rparr>)"

section \<open>Construction and destruction\<close>

definition fiber_stack_size :: "32 word type_ops \<Rightarrow> (32 word, 's) ConfigVar" where
  "fiber_stack_size T =
     new_ConfigVar T ''fiber.stack_size'' (1024 * 1024) ''fiber stack size''"

definition StackAllocator_Alloc :: "32 word \<Rightarrow> nat \<Rightarrow> fiber_state \<Rightarrow> fiber_state" where
  "StackAllocator_Alloc sz p st = st\<lparr>fs_stacks := (fs_stacks st)(p \<mapsto> sz)\<rparr>"

definition StackAllocator_Dealloc :: "nat \<Rightarrow> fiber_state \<Rightarrow> fiber_state" where
  "StackAllocator_Dealloc p st = st\<lparr>fs_stacks := (fs_stacks st)(p := None)\<rparr>"

definition Fiber_SetThis :: "thread \<Rightarrow> nat option \<Rightarrow> fiber_state \<Rightarrow> fiber_state" where
  "Fiber_SetThis t f st = st\<lparr>t_fiber := (t_fiber st)(t := f)\<rparr>"

text \<open>The constructor of a main fiber: its address and the state.\<close>

definition new_main_Fiber :: "thread \<Rightarrow> fiber_state \<Rightarrow> nat \<times> fiber_state" where
  "new_main_Fiber t st =
     (let a = fs_next st;
          st1 = Fiber_SetThis t (Some a)
            (st\<lparr>fs_next := a + 1,
                fs_fibers := (fs_fibers st)(a \<mapsto>
                  \<lparr>m_id = 0, m_stacksize = 0, m_state = EXEC, m_ctx = Captured, m_stack = None,
                   m_cb = None, use_count = 1\<rparr>)\<rparr>)
      in (a, fiber_log INFO ''Fiber::Fiber'' (st1\<lparr>s_fiber_count := s_fiber_count st1 + 1\<rparr>)))"

text \<open>
  The constructor of a fiber with a callback. The requested size is a \<open>size_t\<close>, the member a
  \<open>uint32_t\<close>; \<open>dflt\<close> is the value of \<open>fiber.stack_size\<close>. The stack's address is the fiber's own
  number.
\<close>

definition fiber_stacksize :: "32 word \<Rightarrow> 64 word \<Rightarrow> 32 word" where
  "fiber_stacksize dflt stacksize = ucast (if stacksize \<noteq> 0 then stacksize else ucast dflt)"

definition new_Fiber ::
  "(32 word, 's) ConfigVar \<Rightarrow> script \<Rightarrow> 64 word \<Rightarrow> fiber_state \<Rightarrow> nat \<times> fiber_state" where
  "new_Fiber cfg cb stacksize st =
     (let a = fs_next st;
          i = s_fiber_id st + 1;
          sz = fiber_stacksize (getValue cfg) stacksize;
          st1 = StackAllocator_Alloc sz a
            (st\<lparr>fs_next := a + 1, s_fiber_id := i, s_fiber_count := s_fiber_count st + 1\<rparr>)
      in (a, fiber_log INFO (''Fiber::Fiber id'' @ dec_nat (unat i))
            (st1\<lparr>fs_fibers := (fs_fibers st1)(a \<mapsto>
               \<lparr>m_id = i, m_stacksize = sz, m_state = INIT, m_ctx = Entry, m_stack = Some a,
                m_cb = Some cb, use_count = 1\<rparr>)\<rparr>)))"

text \<open>
  The destructor, run by thread \<open>t\<close>. The second assertion of the main fiber's branch assigns
  \<open>EXEC\<close>, a non-zero value, and holds.
\<close>

definition Fiber_destroy :: "thread \<Rightarrow> nat \<Rightarrow> fiber_state \<Rightarrow> fiber_state may_crash" where
  "Fiber_destroy t f st =
     (case fs_fibers st f of
        None \<Rightarrow> Inl Dangling
      | Some b \<Rightarrow>
          (let st1 = st\<lparr>s_fiber_count := s_fiber_count st - 1\<rparr>
           in sum_bind
                (case m_stack b of
                   Some p \<Rightarrow>
                     if m_state b = TERM' \<or> m_state b = INIT \<or> m_state b = EXCEPT
                     then Inr (StackAllocator_Dealloc p st1) else Inl Assert_failed
                 | None \<Rightarrow>
                     if m_cb b \<noteq> None then Inl Assert_failed
                     else Inr (if t_fiber st1 t = Some f then Fiber_SetThis t None st1 else st1))
                (\<lambda>st2. Inr (fiber_log INFO (''Fiber::~Fiber id'' @ dec_nat (unat (m_id b)))
                   (st2\<lparr>fs_fibers := (fs_fibers st2)(f := None)\<rparr>)))))"

definition ptr_release :: "thread \<Rightarrow> nat \<Rightarrow> fiber_state \<Rightarrow> fiber_state may_crash" where
  "ptr_release t f st =
     (case fs_fibers st f of
        None \<Rightarrow> Inl Dangling
      | Some b \<Rightarrow>
          if use_count b \<le> 1 then Fiber_destroy t f st
          else on_fiber f (\<lambda>b. b\<lparr>use_count := use_count b - 1\<rparr>) st)"

definition Fiber_reset :: "nat \<Rightarrow> script \<Rightarrow> fiber_state \<Rightarrow> fiber_state may_crash" where
  "Fiber_reset f cb st =
     (case fs_fibers st f of
        None \<Rightarrow> Inl Dangling
      | Some b \<Rightarrow>
          if m_stack b = None then Inl Assert_failed
          else if \<not> (m_state b = INIT \<or> m_state b = TERM' \<or> m_state b = EXCEPT) then Inl Assert_failed
          else on_fiber f (\<lambda>b. b\<lparr>m_cb := Some cb, m_ctx := Entry, m_state := INIT\<rparr>) st)"

section \<open>The current fiber\<close>

text \<open>
  \<open>GetThis\<close>: the fiber \<open>t_fiber\<close> points to; a thread without one gets its main fiber. The result is
  a new pointer.
\<close>

definition Fiber_GetThis :: "thread \<Rightarrow> fiber_state \<Rightarrow> (nat \<times> fiber_state) may_crash" where
  "Fiber_GetThis t st =
     (case t_fiber st t of
        Some f \<Rightarrow> sum_bind (ptr_copy f st) (\<lambda>st1. Inr (f, st1))
      | None \<Rightarrow>
          (case new_main_Fiber t st of
             (a, st1) \<Rightarrow>
               if t_fiber st1 t \<noteq> Some a then Inl Assert_failed
               else
                 sum_bind (ptr_copy a st1) (\<lambda>st2.
                 sum_bind (case t_threadFiber st2 t of None \<Rightarrow> Inr st2 | Some old \<Rightarrow> ptr_release t old st2)
                   (\<lambda>st3. let st4 = st3\<lparr>t_threadFiber := (t_threadFiber st3)(t := Some a)\<rparr> in
                 sum_bind (ptr_copy a st4) (\<lambda>st5.
                 sum_bind (ptr_release t a st5) (\<lambda>st6. Inr (a, st6)))))))"

definition Fiber_GetFiberId :: "thread \<Rightarrow> fiber_state \<Rightarrow> 64 word may_crash" where
  "Fiber_GetFiberId t st =
     (case t_fiber st t of
        None \<Rightarrow> Inr 0
      | Some f \<Rightarrow> (case fs_fibers st f of None \<Rightarrow> Inl Dangling | Some b \<Rightarrow> Inr (m_id b)))"

text \<open>\<open>chord::GetFiberId\<close> returns a \<open>u_int32_t\<close>.\<close>

definition GetFiberId :: "thread \<Rightarrow> fiber_state \<Rightarrow> 32 word may_crash" where
  "GetFiberId t st = sum_bind (Fiber_GetFiberId t st) (\<lambda>i. Inr (ucast i))"

definition TotalFibers :: "fiber_state \<Rightarrow> 64 word" where
  "TotalFibers st = s_fiber_count st"

section \<open>Switching\<close>

text \<open>
  \<open>MainFunc\<close> up to the call of the callback. An empty callback throws \<open>std::bad_function_call\<close>.
\<close>

definition MainFunc_start :: "thread \<Rightarrow> fiber_state \<Rightarrow> fiber_state may_crash" where
  "MainFunc_start t st =
     sum_bind (Fiber_GetThis t st) (\<lambda>(cur, st1).
       case fs_fibers st1 cur of
         None \<Rightarrow> Inl Dangling
       | Some b \<Rightarrow>
           (case m_cb b of
              None \<Rightarrow> Inr (set_flow t (Fiber_main cur [Throw (Std_exception ''bad_function_call'')]) st1)
            | Some cb \<Rightarrow> Inr (set_flow t (Fiber_main cur cb) st1)))"

text \<open>Going on with a context. The stack frame a \<open>Captured\<close> context returns to is gone.\<close>

definition resume_context :: "thread \<Rightarrow> ucontext \<Rightarrow> fiber_state \<Rightarrow> fiber_state may_crash" where
  "resume_context t ctx st =
     (case ctx of
        Captured \<Rightarrow> Inl Dangling
      | Entry \<Rightarrow> MainFunc_start t st
      | Saved fl \<Rightarrow> Inr (set_flow t fl st))"

definition swap_context :: "thread \<Rightarrow> nat \<Rightarrow> nat \<Rightarrow> fiber_state \<Rightarrow> fiber_state may_crash" where
  "swap_context t a b st =
     sum_bind (on_fiber a (\<lambda>x. x\<lparr>m_ctx := Saved (fs_flow st t)\<rparr>) st) (\<lambda>st1.
       case fs_fibers st1 b of None \<Rightarrow> Inl Dangling | Some x \<Rightarrow> resume_context t (m_ctx x) st1)"

definition Fiber_swapIn :: "thread \<Rightarrow> nat \<Rightarrow> fiber_state \<Rightarrow> fiber_state may_crash" where
  "Fiber_swapIn t f st =
     (let st1 = Fiber_SetThis t (Some f) st
      in case fs_fibers st1 f of
           None \<Rightarrow> Inl Dangling
         | Some b \<Rightarrow>
             if m_state b = EXEC then Inl Assert_failed
             else
               sum_bind (on_fiber f (\<lambda>x. x\<lparr>m_state := EXEC\<rparr>) st1) (\<lambda>st2.
                 case t_threadFiber st2 t of
                   None \<Rightarrow> Inl Null_deref
                 | Some m \<Rightarrow> swap_context t m f st2))"

definition Fiber_swapOut :: "thread \<Rightarrow> nat \<Rightarrow> fiber_state \<Rightarrow> fiber_state may_crash" where
  "Fiber_swapOut t f st =
     (let st1 = Fiber_SetThis t (t_threadFiber st t) st
      in case t_threadFiber st1 t of
           None \<Rightarrow> Inl Null_deref
         | Some m \<Rightarrow> swap_context t f m st1)"

text \<open>
  The yields. The local \<open>cur\<close> is released when the fiber is resumed: that is the first thing the
  saved flow does.
\<close>

fun push_call :: "call \<Rightarrow> flow \<Rightarrow> flow" where
  "push_call c (Thread_main s) = Thread_main (c # s)"
| "push_call c (Fiber_main f s) = Fiber_main f (c # s)"
| "push_call c Ended = Ended"

definition Fiber_yield :: "State \<Rightarrow> thread \<Rightarrow> fiber_state \<Rightarrow> fiber_state may_crash" where
  "Fiber_yield s t st =
     sum_bind (Fiber_GetThis t st) (\<lambda>(cur, st1).
     sum_bind (on_fiber cur (\<lambda>b. b\<lparr>m_state := s\<rparr>) st1) (\<lambda>st2.
       Fiber_swapOut t cur (set_flow t (push_call (Release cur) (fs_flow st2 t)) st2)))"

definition Fiber_YieldToReady :: "thread \<Rightarrow> fiber_state \<Rightarrow> fiber_state may_crash" where
  "Fiber_YieldToReady t st = Fiber_yield READY t st"

definition Fiber_YieldToHold :: "thread \<Rightarrow> fiber_state \<Rightarrow> fiber_state may_crash" where
  "Fiber_YieldToHold t st = Fiber_yield HOLD t st"

section \<open>The end of a callback and of a thread\<close>

text \<open>A thread that ends gives up its \<open>t_threadFiber\<close>.\<close>

definition thread_exit :: "thread \<Rightarrow> fiber_state \<Rightarrow> fiber_state may_crash" where
  "thread_exit t st =
     sum_bind (case t_threadFiber st t of None \<Rightarrow> Inr st | Some m \<Rightarrow> ptr_release t m st)
       (\<lambda>st1. Inr (set_flow t Ended (st1\<lparr>t_threadFiber := (t_threadFiber st1)(t := None)\<rparr>)))"

text \<open>
  The return of \<open>MainFunc\<close>: \<open>cur\<close> is released (when that destroys the fiber, the function goes on
  on a freed stack), and as \<open>uc_link\<close> is null, the thread ends.
\<close>

definition MainFunc_return :: "thread \<Rightarrow> nat \<Rightarrow> fiber_state \<Rightarrow> fiber_state may_crash" where
  "MainFunc_return t cur st =
     sum_bind (ptr_release t cur st) (\<lambda>st1.
       if fs_fibers st1 cur = None then Inl Dangling else thread_exit t st1)"

definition MainFunc_finish :: "thread \<Rightarrow> nat \<Rightarrow> fiber_state \<Rightarrow> fiber_state may_crash" where
  "MainFunc_finish t cur st =
     sum_bind (on_fiber cur (\<lambda>b. b\<lparr>m_cb := None, m_state := TERM'\<rparr>) st) (MainFunc_return t cur)"

definition MainFunc_catch :: "thread \<Rightarrow> nat \<Rightarrow> exn \<Rightarrow> fiber_state \<Rightarrow> fiber_state may_crash" where
  "MainFunc_catch t cur e st =
     sum_bind (on_fiber cur (\<lambda>b. b\<lparr>m_state := EXCEPT\<rparr>) st) (\<lambda>st1.
       MainFunc_return t cur
         (fiber_log ERROR (''Fiber Except: '' @ (case e of Std_exception what \<Rightarrow> what | _ \<Rightarrow> [])) st1))"

section \<open>Threads\<close>

definition fiber_call ::
  "(32 word, 's) ConfigVar \<Rightarrow> thread \<Rightarrow> call \<Rightarrow> fiber_state \<Rightarrow> fiber_state may_crash" where
  "fiber_call cfg t c st =
     (case c of
        Get_this \<Rightarrow> sum_bind (Fiber_GetThis t st) (\<lambda>(f, st1). ptr_release t f st1)
      | Swap_in f \<Rightarrow> Fiber_swapIn t f st
      | Swap_out f \<Rightarrow> Fiber_swapOut t f st
      | Yield_to_ready \<Rightarrow> Fiber_YieldToReady t st
      | Yield_to_hold \<Rightarrow> Fiber_YieldToHold t st
      | Create cb stacksize \<Rightarrow> Inr (snd (new_Fiber cfg cb stacksize st))
      | Reset f cb \<Rightarrow> Fiber_reset f cb st
      | Release f \<Rightarrow> ptr_release t f st
      | Throw e \<Rightarrow> (case fs_flow st t of
                     Fiber_main cur s \<Rightarrow> MainFunc_catch t cur e st | _ \<Rightarrow> Inl Uncaught))"

text \<open>One step of thread \<open>t\<close>: its next call, or the end of what it executes.\<close>

definition fiber_exec ::
  "(32 word, 's) ConfigVar \<Rightarrow> thread \<Rightarrow> fiber_state \<Rightarrow> fiber_state may_crash" where
  "fiber_exec cfg t st =
     (case fs_flow st t of
        Ended \<Rightarrow> Inr st
      | Thread_main [] \<Rightarrow> thread_exit t st
      | Fiber_main cur [] \<Rightarrow> MainFunc_finish t cur st
      | Thread_main (c # s) \<Rightarrow> fiber_call cfg t c (set_flow t (Thread_main s) st)
      | Fiber_main cur (c # s) \<Rightarrow> fiber_call cfg t c (set_flow t (Fiber_main cur s) st))"

definition fiber_start :: "(thread \<Rightarrow> script) \<Rightarrow> fiber_state" where
  "fiber_start prog =
     \<lparr>fs_fibers = (\<lambda>_. None), fs_next = 1, fs_stacks = (\<lambda>_. None), s_fiber_id = 0, s_fiber_count = 0,
      t_fiber = (\<lambda>_. None), t_threadFiber = (\<lambda>_. None), fs_flow = (\<lambda>t. Thread_main (prog t)),
      fs_log = []\<rparr>"

inductive fiber_reachable ::
  "(32 word, 's) ConfigVar \<Rightarrow> (thread \<Rightarrow> script) \<Rightarrow> fiber_state \<Rightarrow> bool" for cfg prog where
  start: "fiber_reachable cfg prog (fiber_start prog)"
| step: "fiber_reachable cfg prog st \<Longrightarrow> fiber_exec cfg t st = Inr st' \<Longrightarrow> fiber_reachable cfg prog st'"

text \<open>The steps of one thread alone.\<close>

fun fiber_run ::
  "(32 word, 's) ConfigVar \<Rightarrow> nat \<Rightarrow> thread \<Rightarrow> fiber_state \<Rightarrow> fiber_state may_crash" where
  "fiber_run cfg 0 t st = Inr st"
| "fiber_run cfg (Suc n) t st = sum_bind (fiber_exec cfg t st) (fiber_run cfg n t)"

end
