(* ===== verification/Fiber_Laws.thy ===== *)
theory Fiber_Laws
  imports Fiber
begin

text \<open>
  The laws of \<open>Fiber\<close>: the accounting invariant (objects, stacks, counters and ids agree) in every
  interleaving of any threads' calls, rightly used or not, and what a switch does: swapping in and
  yielding, the end of a callback, nested switches, and the assertions.
\<close>

section \<open>The accounting invariant\<close>

text \<open>
  Every live fiber with a stack owns the stack at its own number; the main fibers have none, and
  no id and no callback; the counter counts the live fibers, and the ids are distinct as long as
  fewer than \<open>2 ^ 64\<close> fibers were made.
\<close>

definition body_ok :: "nat \<Rightarrow> Fiber \<Rightarrow> bool" where
  "body_ok f b \<longleftrightarrow>
     (case m_stack b of None \<Rightarrow> m_id b = 0 \<and> m_cb b = None | Some p \<Rightarrow> p = f)"

definition stack_of :: "Fiber option \<Rightarrow> 32 word option" where
  "stack_of x =
     (case x of None \<Rightarrow> None | Some b \<Rightarrow> if m_stack b = None then None else Some (m_stacksize b))"

definition ids_ok :: "fiber_state \<Rightarrow> bool" where
  "ids_ok st \<longleftrightarrow>
     unat (s_fiber_id st) < fs_next st
     \<and> (\<forall>f b. fs_fibers st f = Some b \<longrightarrow> m_stack b \<noteq> None \<longrightarrow>
          0 < unat (m_id b) \<and> unat (m_id b) \<le> unat (s_fiber_id st))
     \<and> (\<forall>f g b c. fs_fibers st f = Some b \<longrightarrow> fs_fibers st g = Some c \<longrightarrow> m_stack b \<noteq> None \<longrightarrow>
          m_stack c \<noteq> None \<longrightarrow> m_id b = m_id c \<longrightarrow> f = g)"

definition fiber_ok :: "fiber_state \<Rightarrow> bool" where
  "fiber_ok st \<longleftrightarrow>
     finite (dom (fs_fibers st)) \<and> dom (fs_fibers st) \<subseteq> {..<fs_next st}
     \<and> s_fiber_count st = of_nat (card (dom (fs_fibers st)))
     \<and> (\<forall>f b. fs_fibers st f = Some b \<longrightarrow> body_ok f b)
     \<and> (\<forall>f. fs_stacks st f = stack_of (fs_fibers st f))
     \<and> (fs_next st \<le> 2 ^ 64 \<longrightarrow> ids_ok st)"

lemma fiber_okD:
  assumes "fiber_ok st"
  shows "finite (dom (fs_fibers st))" and "fs_fibers st f = Some b \<Longrightarrow> f < fs_next st"
    and "s_fiber_count st = of_nat (card (dom (fs_fibers st)))"
    and "fs_fibers st f = Some b \<Longrightarrow> body_ok f b"
    and "fs_stacks st f = stack_of (fs_fibers st f)"
    and "fs_next st \<le> 2 ^ 64 \<Longrightarrow> ids_ok st"
  using assms by (auto simp: fiber_ok_def)

text \<open>The invariant does not look at the threads and the log.\<close>

lemma fiber_ok_frame [simp]:
  "fiber_ok (fiber_log l msg st) = fiber_ok st" "fiber_ok (set_flow t fl st) = fiber_ok st"
  "fiber_ok (Fiber_SetThis t x st) = fiber_ok st" "fiber_ok (st\<lparr>t_threadFiber := y\<rparr>) = fiber_ok st"
  by (simp_all add: fiber_ok_def ids_ok_def fiber_log_def set_flow_def Fiber_SetThis_def)

lemma frame_fields [simp]:
  "fs_fibers (fiber_log l msg st) = fs_fibers st" "fs_fibers (set_flow t fl st) = fs_fibers st"
  "fs_fibers (Fiber_SetThis t x st) = fs_fibers st"
  "t_fiber (Fiber_SetThis t x st) = (t_fiber st)(t := x)" "t_fiber (set_flow t fl st) = t_fiber st"
  "t_fiber (fiber_log l msg st) = t_fiber st"
  "t_threadFiber (Fiber_SetThis t x st) = t_threadFiber st"
  "t_threadFiber (set_flow t fl st) = t_threadFiber st"
  "t_threadFiber (fiber_log l msg st) = t_threadFiber st"
  "fs_flow (Fiber_SetThis t x st) = fs_flow st" "fs_flow (set_flow t fl st) = (fs_flow st)(t := fl)"
  "fs_flow (fiber_log l msg st) = fs_flow st" "fs_next (Fiber_SetThis t x st) = fs_next st"
  "s_fiber_count (Fiber_SetThis t x st) = s_fiber_count st"
  "s_fiber_count (set_flow t fl st) = s_fiber_count st" "s_fiber_id (set_flow t fl st) = s_fiber_id st"
  "s_fiber_id (Fiber_SetThis t x st) = s_fiber_id st" "fs_next (set_flow t fl st) = fs_next st"
  "fs_stacks (Fiber_SetThis t x st) = fs_stacks st" "fs_stacks (set_flow t fl st) = fs_stacks st"
  by (simp_all add: fiber_log_def set_flow_def Fiber_SetThis_def)

text \<open>A change of one fiber that keeps its identity.\<close>

lemma on_fiber_ok:
  assumes "fiber_ok st" and "on_fiber f g st = Inr st'"
    and "\<And>b. fs_fibers st f = Some b \<Longrightarrow> m_id (g b) = m_id b \<and> m_stack (g b) = m_stack b
      \<and> m_stacksize (g b) = m_stacksize b
      \<and> (m_stack b = None \<longrightarrow> m_cb b = None \<longrightarrow> m_cb (g b) = None)"
  shows "fiber_ok st'"
proof -
  from assms(2) obtain b where b: "fs_fibers st f = Some b"
    and st': "st' = st\<lparr>fs_fibers := (fs_fibers st)(f \<mapsto> g b)\<rparr>"
    by (auto simp: on_fiber_def split: option.splits)
  note k = assms(3) [OF b]
  have "dom ((fs_fibers st)(f \<mapsto> g b)) = dom (fs_fibers st)" using b by auto
  moreover have "body_ok f (g b)"
    using fiber_okD(4) [OF assms(1) b] k by (auto simp: body_ok_def split: option.splits)
  moreover have "stack_of (Some (g b)) = stack_of (Some b)" using k by (simp add: stack_of_def)
  moreover have "ids_ok st'" if "ids_ok st"
    using that b k unfolding ids_ok_def st' by (auto split: if_splits)
  ultimately show ?thesis
    using assms(1) b by (auto simp: fiber_ok_def st')
qed

lemma ptr_copy_ok: "fiber_ok st \<Longrightarrow> ptr_copy f st = Inr st' \<Longrightarrow> fiber_ok st'"
  unfolding ptr_copy_def by (rule on_fiber_ok) auto

text \<open>Making and destroying a fiber.\<close>

lemma dom_add:
  assumes "fiber_ok st"
  shows "fs_fibers st (fs_next st) = None" "fs_next st \<notin> dom (fs_fibers st)"
  using fiber_okD(2) [OF assms, of "fs_next st"]
  by (cases "fs_fibers st (fs_next st)"; simp add: domIff)+

lemma new_main_Fiber_ok:
  assumes "fiber_ok st" and "new_main_Fiber t st = (a, st')"
  shows "fiber_ok st'"
proof -
  note fresh = dom_add [OF assms(1)]
  let ?b = "\<lparr>m_id = 0, m_stacksize = 0, m_state = EXEC, m_ctx = Captured, m_stack = None,
      m_cb = None, use_count = 1\<rparr>"
  have st': "fs_fibers st' = (fs_fibers st)(fs_next st \<mapsto> ?b)" "fs_next st' = fs_next st + 1"
    "s_fiber_count st' = s_fiber_count st + 1" "fs_stacks st' = fs_stacks st"
    "s_fiber_id st' = s_fiber_id st"
    using assms(2) by (auto simp: new_main_Fiber_def Let_def Fiber_SetThis_def fiber_log_def)
  have card: "card (dom (fs_fibers st')) = card (dom (fs_fibers st)) + 1"
    using fresh(2) fiber_okD(1) [OF assms(1)] by (simp add: st')
  have "ids_ok st'" if "ids_ok st"
    using that fresh(1) unfolding ids_ok_def st' by (auto split: if_splits)
  with assms(1) fresh(1) card show ?thesis
    by (auto simp: fiber_ok_def st' body_ok_def stack_of_def less_Suc_eq)
qed

lemma new_Fiber_ok:
  assumes "fiber_ok st" and "new_Fiber cfg cb n st = (a, st')"
  shows "fiber_ok st'"
proof -
  note fresh = dom_add [OF assms(1)]
  let ?sz = "fiber_stacksize (getValue cfg) n"
  let ?b = "\<lparr>m_id = s_fiber_id st + 1, m_stacksize = ?sz, m_state = INIT, m_ctx = Entry,
      m_stack = Some (fs_next st), m_cb = Some cb, use_count = 1\<rparr>"
  have st': "fs_fibers st' = (fs_fibers st)(fs_next st \<mapsto> ?b)" "fs_next st' = fs_next st + 1"
    "s_fiber_count st' = s_fiber_count st + 1" "fs_stacks st' = (fs_stacks st)(fs_next st \<mapsto> ?sz)"
    "s_fiber_id st' = s_fiber_id st + 1"
    using assms(2) by (auto simp: new_Fiber_def Let_def StackAllocator_Alloc_def fiber_log_def)
  have card: "card (dom (fs_fibers st')) = card (dom (fs_fibers st)) + 1"
    using fresh(2) fiber_okD(1) [OF assms(1)] by (simp add: st')
  have ids: "ids_ok st'" if le: "fs_next st' \<le> 2 ^ 64"
  proof -
    have ok: "ids_ok st" using fiber_okD(6) [OF assms(1)] le by (simp add: st')
    then have less: "unat (s_fiber_id st) < fs_next st" by (simp add: ids_ok_def)
    with le have "unat (s_fiber_id st) + 1 < 2 ^ 64" by (simp add: st')
    then have "unat (s_fiber_id st + 1) = unat (s_fiber_id st) + 1"
      by (simp add: unat_word_ariths(1) take_bit_nat_eq_self_iff)
    moreover from this have new: "m_id b \<noteq> s_fiber_id st + 1" "s_fiber_id st + 1 \<noteq> m_id b"
      if "fs_fibers st f = Some b" "m_stack b \<noteq> None" for f b
    proof -
      have "unat (m_id b) \<le> unat (s_fiber_id st)" using ok that unfolding ids_ok_def by blast
      then have "m_id b \<noteq> s_fiber_id st + 1"
        using \<open>unat (s_fiber_id st + 1) = unat (s_fiber_id st) + 1\<close> by auto
      then show "m_id b \<noteq> s_fiber_id st + 1" "s_fiber_id st + 1 \<noteq> m_id b" by auto
    qed
    ultimately show ?thesis
      using ok less fresh(1) unfolding ids_ok_def st'(1,2,5) by (simp split: if_splits) (metis le_SucI)
  qed
  with assms(1) fresh(1) card show ?thesis
    by (auto simp: fiber_ok_def st' body_ok_def stack_of_def less_Suc_eq)
qed

lemma Fiber_destroy_ok:
  assumes "fiber_ok st" and "Fiber_destroy t f st = Inr st'"
  shows "fiber_ok st' \<and> fs_fibers st' = (fs_fibers st)(f := None)"
proof -
  from assms(2) obtain b where b: "fs_fibers st f = Some b"
    by (auto simp: Fiber_destroy_def split: option.splits)
  note body = fiber_okD(4) [OF assms(1) b]
  have stacks: "fs_stacks st' = (fs_stacks st)(f := None)"
  proof (cases "m_stack b")
    case None
    then have "fs_stacks st f = None" using fiber_okD(5) [OF assms(1), of f] b by (simp add: stack_of_def)
    then have "(fs_stacks st)(f := None) = fs_stacks st" by auto
    with None assms(2) b show ?thesis
      by (auto simp: Fiber_destroy_def Let_def fiber_log_def split: if_splits)
  next
    case (Some p)
    with body have "p = f" by (simp add: body_ok_def)
    with Some assms(2) b show ?thesis
      by (auto simp: Fiber_destroy_def Let_def fiber_log_def StackAllocator_Dealloc_def split: if_splits)
  qed
  have st': "fs_fibers st' = (fs_fibers st)(f := None)" "fs_next st' = fs_next st"
    "s_fiber_count st' = s_fiber_count st - 1" "s_fiber_id st' = s_fiber_id st"
    using assms(2) b
    by (auto simp: Fiber_destroy_def Let_def fiber_log_def StackAllocator_Dealloc_def
        split: if_splits option.splits)
  have "f \<in> dom (fs_fibers st)" using b by auto
  then have "card (dom (fs_fibers st)) = card (dom (fs_fibers st')) + 1"
    using fiber_okD(1) [OF assms(1)] card.remove [of "dom (fs_fibers st)" f] by (simp add: st')
  moreover have "ids_ok st'" if "ids_ok st"
    using that unfolding ids_ok_def st' by (auto split: if_splits)
  ultimately have "fiber_ok st'"
    using assms(1) by (auto simp: fiber_ok_def st' stacks stack_of_def split: if_splits)
  with st'(1) show ?thesis by simp
qed

lemma ptr_release_ok:
  assumes "fiber_ok st" and "ptr_release t f st = Inr st'"
  shows "fiber_ok st'"
proof -
  from assms(2) obtain b where b: "fs_fibers st f = Some b"
    by (auto simp: ptr_release_def split: option.splits)
  show ?thesis
  proof (cases "use_count b \<le> 1")
    case True
    with b assms Fiber_destroy_ok show ?thesis by (auto simp: ptr_release_def)
  next
    case False
    with b assms(2) have "on_fiber f (\<lambda>b. b\<lparr>use_count := use_count b - 1\<rparr>) st = Inr st'"
      by (simp add: ptr_release_def)
    with assms(1) show ?thesis by (rule on_fiber_ok) auto
  qed
qed

section \<open>Every call keeps it\<close>

lemma GetThis_ok:
  assumes "fiber_ok st" and "Fiber_GetThis t st = Inr (f, st')"
  shows "fiber_ok st'"
proof (cases "t_fiber st t")
  case (Some g)
  with assms(2) have "ptr_copy g st = Inr st'" by (auto simp: Fiber_GetThis_def sum_bind_Inr_iff)
  with assms(1) show ?thesis by (rule ptr_copy_ok)
next
  case None
  obtain a st1 where new: "new_main_Fiber t st = (a, st1)" by (cases "new_main_Fiber t st")
  with None assms(2) obtain st2 st3 st5 where copy: "ptr_copy a st1 = Inr st2"
    and old: "(case t_threadFiber st2 t of None \<Rightarrow> Inr st2 | Some old \<Rightarrow> ptr_release t old st2) = Inr st3"
    and set_: "ptr_copy a (st3\<lparr>t_threadFiber := (t_threadFiber st3)(t := Some a)\<rparr>) = Inr st5"
    and rel: "ptr_release t a st5 = Inr st'"
    by (simp add: Fiber_GetThis_def sum_bind_Inr_iff Let_def split: if_splits) blast
  have "fiber_ok st2" using new_main_Fiber_ok [OF assms(1) new] copy by (rule ptr_copy_ok)
  with old have "fiber_ok st3" by (auto split: option.splits intro: ptr_release_ok)
  then have "fiber_ok (st3\<lparr>t_threadFiber := (t_threadFiber st3)(t := Some a)\<rparr>)" by simp
  from ptr_release_ok [OF ptr_copy_ok [OF this set_] rel] show ?thesis .
qed

lemma MainFunc_start_ok:
  assumes "fiber_ok st" and "MainFunc_start t st = Inr st'"
  shows "fiber_ok st'"
proof -
  from assms(2) obtain cur st1 where get: "Fiber_GetThis t st = Inr (cur, st1)"
    by (auto simp: MainFunc_start_def sum_bind_Inr_iff)
  with assms(2) obtain fl where "st' = set_flow t fl st1"
    by (auto simp: MainFunc_start_def split: option.splits)
  with GetThis_ok [OF assms(1) get] show ?thesis by simp
qed

lemma resume_context_ok: "fiber_ok st \<Longrightarrow> resume_context t ctx st = Inr st' \<Longrightarrow> fiber_ok st'"
  by (auto simp: resume_context_def dest: MainFunc_start_ok split: ucontext.splits)

lemma swap_context_ok:
  assumes "fiber_ok st" and "swap_context t a b st = Inr st'"
  shows "fiber_ok st'"
proof -
  from assms(2) obtain st1 and x :: Fiber where st1: "on_fiber a (\<lambda>x. x\<lparr>m_ctx := Saved (fs_flow st t)\<rparr>) st = Inr st1"
    and "resume_context t (m_ctx x) st1 = Inr st'"
    by (auto simp: swap_context_def sum_bind_Inr_iff split: option.splits)
  moreover have "fiber_ok st1" using assms(1) st1 by (rule on_fiber_ok) auto
  ultimately show ?thesis by (blast intro: resume_context_ok)
qed

lemma set_state_ok: "fiber_ok st \<Longrightarrow> on_fiber f (\<lambda>b. b\<lparr>m_state := s\<rparr>) st = Inr st' \<Longrightarrow> fiber_ok st'"
  by (rule on_fiber_ok) auto

lemma swapIn_ok:
  assumes "fiber_ok st" and "Fiber_swapIn t f st = Inr st'"
  shows "fiber_ok st'"
proof -
  from assms(2) obtain st2 m where
    "on_fiber f (\<lambda>x. x\<lparr>m_state := EXEC\<rparr>) (Fiber_SetThis t (Some f) st) = Inr st2"
    and "swap_context t m f st2 = Inr st'"
    by (auto simp: Fiber_swapIn_def Let_def sum_bind_Inr_iff split: option.splits if_splits)
  with assms(1) show ?thesis by (metis set_state_ok swap_context_ok fiber_ok_frame(3))
qed

lemma swapOut_ok:
  assumes "fiber_ok st" and "Fiber_swapOut t f st = Inr st'"
  shows "fiber_ok st'"
proof -
  from assms(2) obtain m where "swap_context t f m (Fiber_SetThis t (t_threadFiber st t) st) = Inr st'"
    by (auto simp: Fiber_swapOut_def Let_def split: option.splits)
  with assms(1) show ?thesis by (metis swap_context_ok fiber_ok_frame(3))
qed

lemma yield_ok:
  assumes "fiber_ok st" and "Fiber_yield s t st = Inr st'"
  shows "fiber_ok st'"
proof -
  from assms(2) obtain cur st1 st2 where "Fiber_GetThis t st = Inr (cur, st1)"
    and "on_fiber cur (\<lambda>b. b\<lparr>m_state := s\<rparr>) st1 = Inr st2"
    and "Fiber_swapOut t cur (set_flow t (push_call (Release cur) (fs_flow st2 t)) st2) = Inr st'"
    by (auto simp: Fiber_yield_def sum_bind_Inr_iff)
  with assms(1) show ?thesis by (metis GetThis_ok set_state_ok swapOut_ok fiber_ok_frame(2))
qed

lemma reset_ok:
  assumes "fiber_ok st" and "Fiber_reset f cb st = Inr st'"
  shows "fiber_ok st'"
proof -
  from assms(2) obtain b where b: "fs_fibers st f = Some b" "m_stack b \<noteq> None"
    and step: "on_fiber f (\<lambda>b. b\<lparr>m_cb := Some cb, m_ctx := Entry, m_state := INIT\<rparr>) st = Inr st'"
    by (auto simp: Fiber_reset_def split: option.splits if_splits)
  from assms(1) step show ?thesis by (rule on_fiber_ok) (use b in auto)
qed

lemma thread_exit_ok: "fiber_ok st \<Longrightarrow> thread_exit t st = Inr st' \<Longrightarrow> fiber_ok st'"
  by (auto simp: thread_exit_def sum_bind_Inr_iff split: option.splits dest: ptr_release_ok)

lemma MainFunc_return_ok: "fiber_ok st \<Longrightarrow> MainFunc_return t f st = Inr st' \<Longrightarrow> fiber_ok st'"
  by (auto simp: MainFunc_return_def sum_bind_Inr_iff split: if_splits
      dest: ptr_release_ok thread_exit_ok)

lemma MainFunc_finish_ok:
  assumes "fiber_ok st" and "MainFunc_finish t f st = Inr st'"
  shows "fiber_ok st'"
proof -
  from assms(2) obtain st1 where "on_fiber f (\<lambda>b. b\<lparr>m_cb := None, m_state := TERM'\<rparr>) st = Inr st1"
    and return_: "MainFunc_return t f st1 = Inr st'"
    by (auto simp: MainFunc_finish_def sum_bind_Inr_iff)
  with assms(1) have "fiber_ok st1" by (elim on_fiber_ok) auto
  with return_ show ?thesis by (rule MainFunc_return_ok [rotated])
qed

lemma MainFunc_catch_ok:
  assumes "fiber_ok st" and "MainFunc_catch t f e st = Inr st'"
  shows "fiber_ok st'"
proof -
  from assms(2) obtain st1 l msg where "on_fiber f (\<lambda>b. b\<lparr>m_state := EXCEPT\<rparr>) st = Inr st1"
    and "MainFunc_return t f (fiber_log l msg st1) = Inr st'"
    by (auto simp: MainFunc_catch_def sum_bind_Inr_iff)
  with assms(1) show ?thesis by (metis set_state_ok MainFunc_return_ok fiber_ok_frame(1))
qed

lemma fiber_call_ok:
  assumes "fiber_ok st" and "fiber_call cfg t c st = Inr st'"
  shows "fiber_ok st'"
proof (cases c)
  case Get_this
  with assms(2) obtain f st1 where "Fiber_GetThis t st = Inr (f, st1)" "ptr_release t f st1 = Inr st'"
    by (auto simp: fiber_call_def sum_bind_Inr_iff)
  with assms(1) show ?thesis by (blast intro: GetThis_ok ptr_release_ok)
next
  case (Create cb n)
  obtain a st1 where "new_Fiber cfg cb n st = (a, st1)" by (cases "new_Fiber cfg cb n st")
  with Create assms new_Fiber_ok show ?thesis by (fastforce simp: fiber_call_def)
next
  case (Throw e)
  with assms MainFunc_catch_ok show ?thesis by (auto simp: fiber_call_def split: flow.splits)
next
  case (Swap_in f)
  with assms swapIn_ok show ?thesis by (simp add: fiber_call_def)
next
  case (Swap_out f)
  with assms swapOut_ok show ?thesis by (simp add: fiber_call_def)
next
  case Yield_to_ready
  with assms yield_ok show ?thesis by (simp add: fiber_call_def Fiber_YieldToReady_def)
next
  case Yield_to_hold
  with assms yield_ok show ?thesis by (simp add: fiber_call_def Fiber_YieldToHold_def)
next
  case (Reset f cb)
  with assms reset_ok show ?thesis by (simp add: fiber_call_def)
next
  case (Release f)
  with assms ptr_release_ok show ?thesis by (simp add: fiber_call_def)
qed

lemma fiber_exec_ok:
  assumes "fiber_ok st" and "fiber_exec cfg t st = Inr st'"
  shows "fiber_ok st'"
proof (cases "\<exists>c fl. fiber_call cfg t c (set_flow t fl st) = Inr st'")
  case True
  then show ?thesis using assms(1) fiber_call_ok fiber_ok_frame(2) by metis
next
  case False
  with assms(2) have "st' = st \<or> thread_exit t st = Inr st' \<or> (\<exists>f. MainFunc_finish t f st = Inr st')"
    by (auto simp: fiber_exec_def split: flow.splits list.splits)
  with assms(1) show ?thesis by (auto intro: thread_exit_ok MainFunc_finish_ok)
qed

lemma fiber_reachable_ok: "fiber_reachable cfg prog st \<Longrightarrow> fiber_ok st"
proof (induction rule: fiber_reachable.induct)
  case start
  show ?case by (simp add: fiber_ok_def fiber_start_def ids_ok_def stack_of_def)
qed (rule fiber_exec_ok)

section \<open>Switching\<close>

text \<open>
  A fiber that waits to be swapped in and will go on with the calls \<open>s\<close>, while the client holds a
  pointer to it; thread \<open>t\<close>, executing \<open>fl\<close>, with such a fiber \<open>f\<close>; and thread \<open>t\<close> inside \<open>f\<close>, with
  \<open>fl\<close> put aside in the main fiber.
\<close>

definition pending :: "nat \<Rightarrow> Fiber \<Rightarrow> script \<Rightarrow> bool" where
  "pending f b s \<longleftrightarrow> m_stack b \<noteq> None \<and> m_state b \<noteq> EXEC
     \<and> (m_ctx b = Entry \<and> m_cb b = Some s \<and> 1 \<le> use_count b
        \<or> m_ctx b = Saved (Fiber_main f (Release f # s)) \<and> 3 \<le> use_count b)"

definition outside :: "thread \<Rightarrow> nat \<Rightarrow> flow \<Rightarrow> nat \<Rightarrow> script \<Rightarrow> fiber_state \<Rightarrow> bool" where
  "outside t m fl f s st \<longleftrightarrow>
     fs_flow st t = fl \<and> t_threadFiber st t = Some m \<and> f \<noteq> m
     \<and> (\<exists>bm. fs_fibers st m = Some bm \<and> m_stack bm = None)
     \<and> (\<exists>b. fs_fibers st f = Some b \<and> pending f b s)"

definition in_fiber :: "thread \<Rightarrow> nat \<Rightarrow> flow \<Rightarrow> nat \<Rightarrow> script \<Rightarrow> fiber_state \<Rightarrow> bool" where
  "in_fiber t m fl f s st \<longleftrightarrow>
     fs_flow st t = Fiber_main f s \<and> t_fiber st t = Some f \<and> t_threadFiber st t = Some m \<and> f \<noteq> m
     \<and> (\<exists>bm. fs_fibers st m = Some bm \<and> m_stack bm = None \<and> m_ctx bm = Saved fl)
     \<and> (\<exists>b. fs_fibers st f = Some b \<and> m_stack b \<noteq> None \<and> m_state b = EXEC \<and> 2 \<le> use_count b)"

text \<open>What a switch of thread \<open>t\<close> between \<open>m\<close> and \<open>f\<close> leaves alone.\<close>

definition same_but :: "thread \<Rightarrow> nat \<Rightarrow> nat \<Rightarrow> fiber_state \<Rightarrow> fiber_state \<Rightarrow> bool" where
  "same_but t m f st st' \<longleftrightarrow>
     (\<forall>g. g \<noteq> f \<longrightarrow> g \<noteq> m \<longrightarrow> fs_fibers st' g = fs_fibers st g)
     \<and> (\<forall>u. u \<noteq> t \<longrightarrow> fs_flow st' u = fs_flow st u \<and> t_fiber st' u = t_fiber st u)
     \<and> t_threadFiber st' = t_threadFiber st \<and> fs_stacks st' = fs_stacks st
     \<and> s_fiber_id st' = s_fiber_id st \<and> s_fiber_count st' = s_fiber_count st
     \<and> fs_next st' = fs_next st \<and> fs_log st' = fs_log st
     \<and> (\<forall>g. map_option m_id (fs_fibers st' g) = map_option m_id (fs_fibers st g)
            \<and> map_option m_cb (fs_fibers st' g) = map_option m_cb (fs_fibers st g))"

lemma same_but_trans:
  "same_but t m f st st1 \<Longrightarrow> same_but t m f st1 st2 \<Longrightarrow> same_but t m f st st2"
  by (simp add: same_but_def)

lemma on_fiber_eq:
  "fs_fibers st f = Some b \<Longrightarrow> on_fiber f g st = Inr (st\<lparr>fs_fibers := (fs_fibers st)(f \<mapsto> g b)\<rparr>)"
  by (simp add: on_fiber_def)

lemma fiber_run_add:
  "fiber_run cfg (i + j) t st = sum_bind (fiber_run cfg i t st) (fiber_run cfg j t)"
  by (induction i arbitrary: st) (auto simp: sum_bind_def split: sum.splits)

lemma fiber_run_one: "fiber_run cfg (Suc 0) t st = fiber_exec cfg t st"
  by (cases "fiber_exec cfg t st") simp_all

lemmas switch_defs = fiber_exec_def fiber_call_def Fiber_swapIn_def Fiber_swapOut_def Fiber_yield_def
  Fiber_YieldToReady_def Fiber_YieldToHold_def swap_context_def resume_context_def
  MainFunc_start_def Fiber_GetThis_def ptr_copy_def ptr_release_def on_fiber_def set_flow_def
  Fiber_SetThis_def Let_def

lemma fiber_run_snoc:
  "fiber_run cfg n t st = Inr st1 \<Longrightarrow> fiber_exec cfg t st1 = Inr st2 \<Longrightarrow>
   fiber_run cfg (Suc n) t st = Inr st2"
  using fiber_run_add [of cfg n "Suc 0" t st] by (simp add: fiber_run_one del: fiber_run.simps(2))

text \<open>Swapping in reaches the fiber's calls.\<close>

lemma swap_in_step:
  assumes "outside t m (push_call (Swap_in f) fl) f s st" and "fl \<noteq> Ended"
    and "fs_fibers st f = Some b" and "fs_fibers st m = Some bm"
  shows "fiber_exec cfg t st = swap_context t m f ((Fiber_SetThis t (Some f) (set_flow t fl st))
      \<lparr>fs_fibers := (fs_fibers st)(f \<mapsto> b\<lparr>m_state := EXEC\<rparr>)\<rparr>)"
  using assms
  by (cases fl) (auto simp: outside_def pending_def fiber_exec_def fiber_call_def Fiber_swapIn_def
      on_fiber_def Fiber_SetThis_def set_flow_def)

lemma enter_fiber:
  assumes "outside t m (push_call (Swap_in f) fl) f s st" and "fl \<noteq> Ended"
  shows "\<exists>n st'. n \<le> 2 \<and> fiber_run cfg n t st = Inr st' \<and> in_fiber t m fl f s st'
    \<and> same_but t m f st st'"
proof -
  from assms(1) obtain bm b where h: "t_threadFiber st t = Some m" "f \<noteq> m" "m \<noteq> f"
    "fs_fibers st m = Some bm" "m_stack bm = None" "fs_fibers st f = Some b" and p: "pending f b s"
    by (auto simp: outside_def)
  note exec = swap_in_step [OF assms h(6,4)]
  from p have q: "m_stack b \<noteq> None" "m_state b \<noteq> EXEC" by (simp_all add: pending_def)
  from p consider "m_ctx b = Entry" "m_cb b = Some s" "1 \<le> use_count b"
    | "m_ctx b = Saved (Fiber_main f (Release f # s))" "3 \<le> use_count b"
    by (auto simp: pending_def)
  then show ?thesis
  proof cases
    case 1
    with h q have "\<exists>st1. fiber_exec cfg t st = Inr st1 \<and> in_fiber t m fl f s st1 \<and> same_but t m f st st1"
      unfolding exec by (simp add: switch_defs in_fiber_def same_but_def)
    then show ?thesis by (intro exI [of _ "Suc 0"]) (simp add: fiber_run_one del: fiber_run.simps(2))
  next
    case 2
    with h q have "\<exists>st1. fiber_exec cfg t st = Inr st1 \<and> in_fiber t m fl f (Release f # s) st1
        \<and> same_but t m f st st1 \<and> (\<exists>b1. fs_fibers st1 f = Some b1 \<and> 3 \<le> use_count b1)"
      unfolding exec by (simp add: switch_defs in_fiber_def same_but_def)
    then obtain st1 b1 where st1: "fiber_exec cfg t st = Inr st1"
      "in_fiber t m fl f (Release f # s) st1" "same_but t m f st st1"
      "fs_fibers st1 f = Some b1" "3 \<le> use_count b1" by auto
    from st1(2,4,5) have "\<exists>st2. fiber_exec cfg t st1 = Inr st2 \<and> in_fiber t m fl f s st2
        \<and> same_but t m f st1 st2"
      by (auto simp: in_fiber_def same_but_def switch_defs)
    then obtain st2 where st2: "fiber_exec cfg t st1 = Inr st2" "in_fiber t m fl f s st2"
      "same_but t m f st1 st2" by auto
    have "fiber_run cfg (Suc (Suc 0)) t st = Inr st2" using st1(1) st2(1) by simp
    with st2 st1(3) show ?thesis
      by (intro exI [of _ "Suc (Suc 0)"] exI [of _ st2])
        (auto intro: same_but_trans simp del: fiber_run.simps(2))
  qed
qed

text \<open>The two yields, with the state they leave.\<close>

fun yield_state :: "call \<Rightarrow> State option" where
  "yield_state Yield_to_ready = Some READY"
| "yield_state Yield_to_hold = Some HOLD"
| "yield_state _ = None"

lemma leave_fiber:
  assumes "in_fiber t m fl f (y # s) st" and "yield_state y = Some q"
  shows "\<exists>st'. fiber_exec cfg t st = Inr st' \<and> outside t m fl f s st' \<and> t_fiber st' t = Some m
    \<and> map_option m_state (fs_fibers st' f) = Some q \<and> fs_fibers st' m = fs_fibers st m
    \<and> same_but t m f st st'"
proof -
  from assms(1) obtain bm b where h: "fs_flow st t = Fiber_main f (y # s)" "t_fiber st t = Some f"
    "t_threadFiber st t = Some m" "f \<noteq> m" "m \<noteq> f" "fs_fibers st m = Some bm" "m_stack bm = None"
    "m_ctx bm = Saved fl" "fs_fibers st f = Some b" "m_stack b \<noteq> None" "2 \<le> use_count b"
    by (auto simp: in_fiber_def)
  from assms(2) consider "y = Yield_to_ready" "q = READY" | "y = Yield_to_hold" "q = HOLD"
    by (cases y) auto
  then show ?thesis
    by cases (use h in \<open>simp_all add: switch_defs outside_def pending_def same_but_def\<close>)
qed

lemma enter_and_leave:
  assumes "outside t m (push_call (Swap_in f) fl) f (y # s) st" and "fl \<noteq> Ended"
    and "yield_state y = Some q"
  shows "\<exists>n st'. n \<le> 3 \<and> fiber_run cfg n t st = Inr st' \<and> outside t m fl f s st'
    \<and> t_fiber st' t = Some m \<and> map_option m_state (fs_fibers st' f) = Some q
    \<and> map_option m_ctx (fs_fibers st' m) = Some (Saved fl) \<and> same_but t m f st st'"
proof -
  from enter_fiber [OF assms(1,2)] obtain n st1 where n: "n \<le> 2" "fiber_run cfg n t st = Inr st1"
    "in_fiber t m fl f (y # s) st1" "same_but t m f st st1" by blast
  from leave_fiber [OF n(3) assms(3)] obtain st2 where st2: "fiber_exec cfg t st1 = Inr st2"
    "outside t m fl f s st2" "t_fiber st2 t = Some m" "map_option m_state (fs_fibers st2 f) = Some q"
    "fs_fibers st2 m = fs_fibers st1 m" "same_but t m f st1 st2" by blast
  from n(3) have "map_option m_ctx (fs_fibers st1 m) = Some (Saved fl)" by (auto simp: in_fiber_def)
  with n(1) st2 same_but_trans [OF n(4) st2(6)] fiber_run_snoc [OF n(2) st2(1)] show ?thesis
    by (intro exI [of _ "Suc n"] exI [of _ st2]) (simp del: fiber_run.simps(2))
qed

text \<open>Swapping in again and again.\<close>

lemma rounds:
  assumes "outside t m (Thread_main (replicate (length ys) (Swap_in f) @ k)) f (ys @ s) st"
    and "\<forall>y \<in> set ys. yield_state y \<noteq> None"
  shows "\<exists>n st'. n \<le> 3 * length ys \<and> fiber_run cfg n t st = Inr st'
    \<and> outside t m (Thread_main k) f s st' \<and> same_but t m f st st'"
  using assms
proof (induction ys arbitrary: st)
  case Nil
  then show ?case by (intro exI [of _ 0] exI [of _ st]) (simp add: same_but_def)
next
  case (Cons y ys)
  from Cons.prems(2) obtain q where q: "yield_state y = Some q" by auto
  let ?fl = "Thread_main (replicate (length ys) (Swap_in f) @ k)"
  have "outside t m (push_call (Swap_in f) ?fl) f (y # (ys @ s)) st" using Cons.prems(1) by simp
  from enter_and_leave [OF this _ q] obtain i st1 where i: "i \<le> 3" "fiber_run cfg i t st = Inr st1"
    "outside t m ?fl f (ys @ s) st1" "same_but t m f st st1" by blast
  from Cons.IH [OF i(3)] Cons.prems(2) obtain j st2 where j: "j \<le> 3 * length ys"
    "fiber_run cfg j t st1 = Inr st2" "outside t m (Thread_main k) f s st2" "same_but t m f st1 st2"
    by auto
  from i j same_but_trans [OF i(4) j(4)] show ?case
    by (intro exI [of _ "i + j"] exI [of _ st2]) (simp add: fiber_run_add)
qed

text \<open>
  Several fibers. \<open>same_out\<close> is what switches of thread \<open>t\<close> between \<open>m\<close> and the fibers \<open>A\<close> leave
  alone; a schedule is the list of the fibers swapped in.
\<close>

definition same_out :: "thread \<Rightarrow> nat \<Rightarrow> nat set \<Rightarrow> fiber_state \<Rightarrow> fiber_state \<Rightarrow> bool" where
  "same_out t m A st st' \<longleftrightarrow>
     (\<forall>g. g \<notin> A \<longrightarrow> g \<noteq> m \<longrightarrow> fs_fibers st' g = fs_fibers st g)
     \<and> (\<forall>u. u \<noteq> t \<longrightarrow> fs_flow st' u = fs_flow st u \<and> t_fiber st' u = t_fiber st u)
     \<and> t_threadFiber st' = t_threadFiber st \<and> fs_stacks st' = fs_stacks st
     \<and> s_fiber_id st' = s_fiber_id st \<and> s_fiber_count st' = s_fiber_count st
     \<and> fs_next st' = fs_next st \<and> fs_log st' = fs_log st
     \<and> (\<forall>g. map_option m_id (fs_fibers st' g) = map_option m_id (fs_fibers st g)
            \<and> map_option m_cb (fs_fibers st' g) = map_option m_cb (fs_fibers st g))"

lemma same_out_refl: "same_out t m A st st"
  by (simp add: same_out_def)

lemma same_out_but:
  "same_but t m f st st1 \<Longrightarrow> f \<in> A \<Longrightarrow> same_out t m A st1 st2 \<Longrightarrow> same_out t m A st st2"
  unfolding same_but_def same_out_def by (intro conjI allI impI) metis+

text \<open>A fiber that is not switched to keeps waiting.\<close>

lemma outside_other:
  assumes "outside t m fl g s st" and "outside t m fl' f r st'" and "same_but t m f st st'" and "g \<noteq> f"
  shows "outside t m fl' g s st'"
  using assms unfolding outside_def same_but_def by auto

definition scheduled :: "nat list \<Rightarrow> (nat \<Rightarrow> script) \<Rightarrow> nat set \<Rightarrow> bool" where
  "scheduled sched rest A \<longleftrightarrow> set sched \<subseteq> A
     \<and> (\<forall>f. count_list sched f \<le> length (rest f)
           \<and> (\<forall>y \<in> set (take (count_list sched f) (rest f)). yield_state y \<noteq> None))"

text \<open>The state of a fiber after \<open>n\<close> turns.\<close>

definition state_after :: "fiber_state \<Rightarrow> nat \<Rightarrow> script \<Rightarrow> nat \<Rightarrow> State option" where
  "state_after st f s n =
     (if n = 0 then map_option m_state (fs_fibers st f) else yield_state (s ! (n - 1)))"

lemma scheduled_Cons:
  assumes "scheduled (f # sched) rest A"
  shows "\<exists>y s q. rest f = y # s \<and> yield_state y = Some q \<and> f \<in> A \<and> scheduled sched (rest(f := s)) A"
proof -
  have "Suc (count_list sched f) \<le> length (rest f)"
    and ys: "\<forall>y \<in> set (take (Suc (count_list sched f)) (rest f)). yield_state y \<noteq> None"
    using assms by (auto simp: scheduled_def dest!: spec [of _ f])
  then obtain y s where s: "rest f = y # s" by (cases "rest f") auto
  with ys obtain q where q: "yield_state y = Some q" by auto
  have "scheduled sched (rest(f := s)) A" unfolding scheduled_def
  proof (intro conjI allI)
    show "set sched \<subseteq> A" using assms by (auto simp: scheduled_def)
    fix g
    have "count_list (f # sched) g \<le> length (rest g)
        \<and> (\<forall>y \<in> set (take (count_list (f # sched) g) (rest g)). yield_state y \<noteq> None)"
      using assms unfolding scheduled_def by blast
    then show "count_list sched g \<le> length ((rest(f := s)) g)"
      and "\<forall>y \<in> set (take (count_list sched g) ((rest(f := s)) g)). yield_state y \<noteq> None"
      using s by (auto split: if_splits)
  qed
  with s q assms show ?thesis by (auto simp: scheduled_def)
qed

text \<open>The return of a callback ends the thread.\<close>

lemma finish_fiber:
  assumes "in_fiber t m fl f [] st" and "fiber_ok st"
  shows "\<exists>st'. fiber_exec cfg t st = Inr st' \<and> fs_flow st' t = Ended
    \<and> map_option m_state (fs_fibers st' f) = Some TERM' \<and> map_option m_cb (fs_fibers st' f) = Some None
    \<and> t_fiber st' t = Some f"
proof -
  from assms(1) obtain bm b where h: "fs_flow st t = Fiber_main f []" "t_fiber st t = Some f"
    "t_threadFiber st t = Some m" "f \<noteq> m" "m \<noteq> f" "fs_fibers st m = Some bm" "m_stack bm = None"
    "fs_fibers st f = Some b" "2 \<le> use_count b" "m_stack b \<noteq> None"
    by (auto simp: in_fiber_def)
  moreover have "m_cb bm = None" using fiber_okD(4) [OF assms(2) h(6)] h(7) by (simp add: body_ok_def)
  ultimately show ?thesis
    by (simp add: fiber_exec_def MainFunc_finish_def MainFunc_return_def thread_exit_def
        Fiber_destroy_def switch_defs fiber_log_def)
qed

section \<open>The properties\<close>

text \<open>
  C13: Accounting, for every program and every interleaving of its threads, switches used rightly or
  not. \<open>TotalFibers\<close> is the number of fibers alive (as a 64-bit counter); the stacks in use are
  exactly those of the fibers alive that have one, with the size their fiber records, so a stack
  is neither lost nor freed under a live fiber; a fiber without a stack has no callback, so the
  destructor's assertion on main fibers holds; and as long as fewer than \<open>2 ^ 64\<close> fibers were
  made, no two fibers with a stack share an id and none has the id 0 of the main fibers.
\<close>

theorem fibers_accounted:
  assumes "fiber_reachable cfg prog st"
  shows "TotalFibers st = of_nat (card (dom (fs_fibers st)))
    \<and> (\<forall>p n. fs_stacks st p = Some n \<longleftrightarrow>
         (\<exists>b. fs_fibers st p = Some b \<and> m_stack b = Some p \<and> m_stacksize b = n))
    \<and> (\<forall>f b. fs_fibers st f = Some b \<longrightarrow> m_stack b = None \<longrightarrow>
         m_id b = 0 \<and> m_cb b = None \<and> (\<forall>t. \<exists>st'. Fiber_destroy t f st = Inr st'))
    \<and> (fs_next st \<le> 2 ^ 64 \<longrightarrow>
         (\<forall>f g b c. fs_fibers st f = Some b \<longrightarrow> fs_fibers st g = Some c \<longrightarrow> m_stack b \<noteq> None \<longrightarrow>
            m_stack c \<noteq> None \<longrightarrow> m_id b \<noteq> 0 \<and> (m_id b = m_id c \<longrightarrow> f = g)))"
proof (intro conjI)
  note ok = fiber_reachable_ok [OF assms]
  show "TotalFibers st = of_nat (card (dom (fs_fibers st)))"
    using fiber_okD(3) [OF ok] by (simp add: TotalFibers_def)
  show "\<forall>p n. fs_stacks st p = Some n \<longleftrightarrow>
         (\<exists>b. fs_fibers st p = Some b \<and> m_stack b = Some p \<and> m_stacksize b = n)"
    using fiber_okD(4,5) [OF ok]
    by (fastforce simp: stack_of_def body_ok_def split: option.splits if_splits)
  show "\<forall>f b. fs_fibers st f = Some b \<longrightarrow> m_stack b = None \<longrightarrow>
         m_id b = 0 \<and> m_cb b = None \<and> (\<forall>t. \<exists>st'. Fiber_destroy t f st = Inr st')"
    using fiber_okD(4) [OF ok] by (fastforce simp: body_ok_def Fiber_destroy_def Let_def)
  show "fs_next st \<le> 2 ^ 64 \<longrightarrow>
         (\<forall>f g b c. fs_fibers st f = Some b \<longrightarrow> fs_fibers st g = Some c \<longrightarrow> m_stack b \<noteq> None \<longrightarrow>
            m_stack c \<noteq> None \<longrightarrow> m_id b \<noteq> 0 \<and> (m_id b = m_id c \<longrightarrow> f = g))"
    using fiber_okD(6) [OF ok] unfolding ids_ok_def by (metis unat_0 less_irrefl)
qed

text \<open>
  C11: Cooperative scheduling. A thread's main function swaps in waiting fibers (new, or suspended by
  an earlier yield) of a set \<open>A\<close> in any order, each as often as it likes, as long as the fiber's
  next calls are as many yields. After at most three steps per switch the thread is right behind the
  last \<open>swapIn\<close>, with its main fiber current again; every fiber of \<open>A\<close> goes on exactly behind the
  yields it has made, in the state of the last one (\<open>READY\<close> or \<open>HOLD\<close>), or untouched if it had no
  turn; other fibers, other threads, the counters, the stacks, ids, callbacks and the log are as
  before.
\<close>

theorem fiber_schedule_returns:
  assumes "\<forall>f \<in> A. outside t m (Thread_main (map Swap_in sched @ k)) f (rest f) st"
    and "scheduled sched rest A"
  shows "\<exists>n st'. n \<le> 3 * length sched \<and> fiber_run cfg n t st = Inr st'
    \<and> (\<forall>f \<in> A. outside t m (Thread_main k) f (drop (count_list sched f) (rest f)) st'
          \<and> map_option m_state (fs_fibers st' f) = state_after st f (rest f) (count_list sched f))
    \<and> (sched \<noteq> [] \<longrightarrow> t_fiber st' t = Some m) \<and> same_out t m A st st'"
  using assms
proof (induction sched arbitrary: st rest)
  case Nil
  then show ?case
    by (intro exI [of _ 0] exI [of _ st]) (simp add: same_out_refl state_after_def)
next
  case (Cons f sched)
  let ?fl = "Thread_main (map Swap_in sched @ k)"
  from scheduled_Cons [OF Cons.prems(2)] obtain y s q where y: "rest f = y # s"
    "yield_state y = Some q" "f \<in> A" and more: "scheduled sched (rest(f := s)) A" by blast
  from Cons.prems(1) y(1,3) have "outside t m (push_call (Swap_in f) ?fl) f (y # s) st" by force
  from enter_and_leave [OF this _ y(2), of cfg] obtain i st1 where i: "i \<le> 3"
    "fiber_run cfg i t st = Inr st1" "outside t m ?fl f s st1" "t_fiber st1 t = Some m"
    "map_option m_state (fs_fibers st1 f) = Some q" "same_but t m f st st1" by blast
  have "outside t m ?fl g ((rest(f := s)) g) st1" if "g \<in> A" for g
    using i(3) outside_other [OF _ i(3,6), of _ g] Cons.prems(1) that by (cases "g = f") auto
  with Cons.IH [OF _ more, of st1] obtain j st2 where j: "j \<le> 3 * length sched"
    "fiber_run cfg j t st1 = Inr st2"
    "\<forall>g \<in> A. outside t m (Thread_main k) g (drop (count_list sched g) ((rest(f := s)) g)) st2
       \<and> map_option m_state (fs_fibers st2 g)
          = state_after st1 g ((rest(f := s)) g) (count_list sched g)"
    "sched \<noteq> [] \<longrightarrow> t_fiber st2 t = Some m" "same_out t m A st1 st2" by blast
  have run: "fiber_run cfg (i + j) t st = Inr st2" using i(2) j(2) by (simp add: fiber_run_add)
  have this_: "t_fiber st2 t = Some m"
    using j(2,4) i(4) j(1) by (cases "sched = []") auto
  have each: "outside t m (Thread_main k) g (drop (count_list (f # sched) g) (rest g)) st2
      \<and> map_option m_state (fs_fibers st2 g) = state_after st g (rest g) (count_list (f # sched) g)"
    if g: "g \<in> A" for g
  proof (cases "g = f")
    case True
    with bspec [OF j(3) g] y(1,2) i(5) show ?thesis
      by (auto simp: state_after_def nth_Cons split: nat.splits)
  next
    case False
    moreover have "g \<noteq> m" using Cons.prems(1) g by (auto simp: outside_def)
    ultimately have "fs_fibers st1 g = fs_fibers st g" using i(6) by (simp add: same_but_def)
    with bspec [OF j(3) g] False show ?thesis by (auto simp: state_after_def)
  qed
  from i(1) j(1) run this_ each same_out_but [OF i(6) y(3) j(5)] show ?case
    by (intro exI [of _ "i + j"] exI [of _ st2]) simp
qed

text \<open>The steps keep the invariant.\<close>

lemma fiber_run_ok: "fiber_run cfg n t st = Inr st' \<Longrightarrow> fiber_ok st \<Longrightarrow> fiber_ok st'"
  by (induction n arbitrary: st) (auto simp: sum_bind_Inr_iff dest: fiber_exec_ok)

lemma ended_stays: "fs_flow st t = Ended \<Longrightarrow> fiber_run cfg n t st = Inr st"
  by (induction n) (simp_all add: fiber_exec_def)

text \<open>
  C15: The end of a callback. A thread swaps in a fiber once more than its callback yields: after
  the rounds that come back, the callback returns, the fiber's state is \<open>TERM\<close> and its callback is
  cleared, and the thread is over (\<open>uc_link\<close> is null): the rest \<open>k\<close> of its main function is never
  executed, however long it runs.
\<close>

theorem callback_end_ends_thread:
  assumes "fiber_reachable cfg prog st"
    and "outside t m (Thread_main (replicate (Suc (length ys)) (Swap_in f) @ k)) f ys st"
    and "\<forall>y \<in> set ys. yield_state y \<noteq> None"
  shows "\<exists>n st'. n \<le> 3 * length ys + 3 \<and> fiber_run cfg n t st = Inr st' \<and> fs_flow st' t = Ended
    \<and> map_option m_state (fs_fibers st' f) = Some TERM'
    \<and> map_option m_cb (fs_fibers st' f) = Some None \<and> (\<forall>j. fiber_run cfg j t st' = Inr st')"
proof -
  have "replicate (Suc (length ys)) (Swap_in f) @ k =
      replicate (length ys) (Swap_in f) @ (Swap_in f # k)"
    by (simp add: replicate_app_Cons_same)
  then have "outside t m (Thread_main (replicate (length ys) (Swap_in f) @ (Swap_in f # k))) f
      (ys @ []) st"
    using assms(2) by simp
  from rounds [OF this assms(3), of cfg] obtain i st1 where
    i: "i \<le> 3 * length ys" "fiber_run cfg i t st = Inr st1"
    "outside t m (Thread_main (Swap_in f # k)) f [] st1" by blast
  from enter_fiber [of t m f "Thread_main k" "[]" st1 cfg] i(3) obtain j st2 where
    j: "j \<le> 2" "fiber_run cfg j t st1 = Inr st2" "in_fiber t m (Thread_main k) f [] st2" by auto
  have run: "fiber_run cfg (i + j) t st = Inr st2" using i(2) j(2) by (simp add: fiber_run_add)
  from finish_fiber [OF j(3) fiber_run_ok [OF run fiber_reachable_ok [OF assms(1)]], of cfg]
  obtain st3 where st3: "fiber_exec cfg t st2 = Inr st3" "fs_flow st3 t = Ended"
    "map_option m_state (fs_fibers st3 f) = Some TERM'"
    "map_option m_cb (fs_fibers st3 f) = Some None" by blast
  from i(1) j(1) st3 fiber_run_snoc [OF run st3(1)] ended_stays [OF st3(2), of cfg] show ?thesis
    by (intro exI [of _ "Suc (i + j)"] exI [of _ st3]) (simp del: fiber_run.simps(2))
qed

text \<open>
  C22: Swapping in from inside a fiber. If the callback of \<open>f\<close> swaps in another fiber \<open>g\<close>, the main
  fiber's context, where the thread's main function was put aside, is overwritten with \<open>f\<close>'s own
  position: the main function is nowhere any more. When \<open>g\<close> yields, \<open>f\<close> goes on, but with the main
  fiber as \<open>t_fiber\<close>; and if \<open>f\<close> then yields, it is the main fiber that gets the state, and \<open>f\<close>
  itself goes on.
\<close>

theorem nested_swapIn_loses_main:
  assumes "in_fiber t m (Thread_main k) f (Swap_in g # s) st"
    and "g \<noteq> f" and "g \<noteq> m" and "fs_fibers st g = Some b" and "pending g b (y # r)"
    and "yield_state y = Some q"
  shows "\<exists>n st'. n \<le> 3 \<and> fiber_run cfg n t st = Inr st' \<and> fs_flow st' t = Fiber_main f s
    \<and> t_fiber st' t = Some m \<and> map_option m_state (fs_fibers st' f) = Some EXEC
    \<and> map_option m_ctx (fs_fibers st' m) = Some (Saved (Fiber_main f s))
    \<and> ((\<forall>h c. h \<noteq> m \<longrightarrow> fs_fibers st h = Some c \<longrightarrow> m_ctx c \<noteq> Saved (Thread_main k)) \<longrightarrow>
       (\<forall>h c. fs_fibers st' h = Some c \<longrightarrow> h \<noteq> g \<longrightarrow> m_ctx c \<noteq> Saved (Thread_main k)))
    \<and> (\<forall>z p u. s = z # u \<longrightarrow> yield_state z = Some p \<longrightarrow>
         (\<exists>st''. fiber_exec cfg t st' = Inr st'' \<and> fs_flow st'' t = Fiber_main f (Release m # u)
            \<and> map_option m_state (fs_fibers st'' m) = Some p
            \<and> map_option m_state (fs_fibers st'' f) = Some EXEC))"
proof -
  have f: "f \<noteq> m" "map_option m_state (fs_fibers st f) = Some EXEC"
    using assms(1) by (auto simp: in_fiber_def)
  have "outside t m (push_call (Swap_in g) (Fiber_main f s)) g (y # r) st"
    using assms(1,3,4,5) by (auto simp: in_fiber_def outside_def)
  from enter_and_leave [OF this _ assms(6), of cfg] obtain n st' where n: "n \<le> 3"
    "fiber_run cfg n t st = Inr st'" "outside t m (Fiber_main f s) g r st'" "t_fiber st' t = Some m"
    "map_option m_ctx (fs_fibers st' m) = Some (Saved (Fiber_main f s))" "same_but t m g st st'"
    by blast
  have flow: "fs_flow st' t = Fiber_main f s" "t_threadFiber st' t = Some m"
    using n(3) by (auto simp: outside_def)
  have state: "map_option m_state (fs_fibers st' f) = Some EXEC"
    using n(6) f assms(2) by (metis same_but_def)
  have lost: "m_ctx c \<noteq> Saved (Thread_main k)"
    if "\<forall>h c. h \<noteq> m \<longrightarrow> fs_fibers st h = Some c \<longrightarrow> m_ctx c \<noteq> Saved (Thread_main k)"
      "fs_fibers st' h = Some c" "h \<noteq> g" for h c
    using that n(5,6) by (cases "h = m") (auto simp: same_but_def)
  have again: "\<exists>st''. fiber_exec cfg t st' = Inr st'' \<and> fs_flow st'' t = Fiber_main f (Release m # u)
      \<and> map_option m_state (fs_fibers st'' m) = Some p \<and> map_option m_state (fs_fibers st'' f) = Some EXEC"
    if "s = z # u" "yield_state z = Some p" for z p u
  proof -
    from that(2) consider "z = Yield_to_ready" "p = READY" | "z = Yield_to_hold" "p = HOLD"
      by (cases z) auto
    moreover obtain bm where "fs_fibers st' m = Some bm" using n(5) by auto
    ultimately show ?thesis
      by cases (use that(1) flow n(4) state f(1) in \<open>auto simp: switch_defs\<close>)
  qed
  show ?thesis
    by (intro exI [of _ n] exI [of _ st'] conjI) (use n flow state lost again in blast)+
qed

text \<open>
  Leaving a fiber by \<open>swapOut\<close>, which is public, instead of a yield. The thread is back in its
  main function, but the fiber's state is still \<open>EXEC\<close>: swapping it in again, from any thread,
  fails the assertion there, and so do resetting and destroying it.
\<close>

lemma plain_swapOut_strands:
  assumes "in_fiber t m (Thread_main k) f (Swap_out f # s) st"
  shows "\<exists>st'. fiber_exec cfg t st = Inr st' \<and> fs_flow st' t = Thread_main k \<and> t_fiber st' t = Some m
    \<and> (\<forall>u. Fiber_swapIn u f st' = Inl Assert_failed \<and> Fiber_destroy u f st' = Inl Assert_failed)
    \<and> (\<forall>cb. Fiber_reset f cb st' = Inl Assert_failed)"
proof -
  from assms obtain bm b where h: "fs_flow st t = Fiber_main f (Swap_out f # s)" "t_fiber st t = Some f"
    "t_threadFiber st t = Some m" "f \<noteq> m" "m \<noteq> f" "fs_fibers st m = Some bm"
    "m_ctx bm = Saved (Thread_main k)" "fs_fibers st f = Some b" "m_stack b \<noteq> None" "m_state b = EXEC"
    by (auto simp: in_fiber_def)
  then show ?thesis by (auto simp: switch_defs Fiber_destroy_def Fiber_reset_def)
qed

text \<open>
  C39: The widths. A constructor gives the new fiber a stack of the size it records: for a request of
  0 the configured size, which is 1 MB unless it was changed, and for any other request, a 64-bit
  number, its low 32 bits; so a non-zero multiple of 4 GB asks for a stack of no bytes. And
  \<open>chord::GetFiberId\<close> returns the low 32 bits of the 64-bit id of the fiber: the fiber whose id is
  \<open>2 ^ 32\<close> has the same id there as a thread that is in no fiber.
\<close>

theorem stack_size_and_id_bounds:
  "(\<forall>n a st'. new_Fiber cfg cb n st = (a, st') \<longrightarrow>
        (\<exists>sz b. fs_stacks st' a = Some sz \<and> fs_fibers st' a = Some b \<and> m_stacksize b = sz
           \<and> m_stack b = Some a
           \<and> unat sz = (if n = 0 then unat (getValue cfg) else unat n mod 2 ^ 32)))
   \<and> (\<forall>n a st'. n \<noteq> 0 \<longrightarrow> unat n mod 2 ^ 32 = 0 \<longrightarrow> new_Fiber cfg cb n st = (a, st') \<longrightarrow>
        fs_stacks st' a = Some 0)
   \<and> (\<forall>T a st'. new_Fiber (fiber_stack_size T :: (32 word, 's) ConfigVar) cb 0 st = (a, st') \<longrightarrow>
        fs_stacks st' a = Some 1048576)
   \<and> (\<forall>t f b. t_fiber st t = Some f \<longrightarrow> fs_fibers st f = Some b \<longrightarrow>
        (\<exists>i. GetFiberId t st = Inr i \<and> unat i = unat (m_id b) mod 2 ^ 32
           \<and> (unat (m_id b) = 2 ^ 32 \<longrightarrow> (\<forall>u. t_fiber st u = None \<longrightarrow> GetFiberId u st = GetFiberId t st))))"
proof (intro conjI allI impI)
  have unat_low: "unat (ucast (n :: 64 word) :: 32 word) = unat n mod 2 ^ 32" for n
    by (simp add: unsigned_ucast_eq take_bit_eq_mod)
  have whole: "(ucast (ucast d :: 64 word) :: 32 word) = d" for d :: "32 word"
    by (rule ucast_up_ucast_id) (simp add: is_up)
  have size: "unat (fiber_stacksize d n) = (if n = 0 then unat d else unat n mod 2 ^ 32)" for d n
    using unat_low [of n] whole [of d] by (simp add: fiber_stacksize_def)
  show "\<exists>sz b. fs_stacks st' a = Some sz \<and> fs_fibers st' a = Some b \<and> m_stacksize b = sz
      \<and> m_stack b = Some a \<and> unat sz = (if n = 0 then unat (getValue cfg) else unat n mod 2 ^ 32)"
    if "new_Fiber cfg cb n st = (a, st')" for n a st'
    using that size [of "getValue cfg" n]
    by (auto simp: new_Fiber_def Let_def fiber_log_def StackAllocator_Alloc_def)
  show "fs_stacks st' a = Some 0"
    if "n \<noteq> 0" "unat n mod 2 ^ 32 = 0" "new_Fiber cfg cb n st = (a, st')" for n a st'
  proof -
    have "fiber_stacksize (getValue cfg) n = 0"
      using size [of "getValue cfg" n] that(1,2) by (simp add: unat_eq_0)
    with that(3) show ?thesis
      by (auto simp: new_Fiber_def Let_def fiber_log_def StackAllocator_Alloc_def)
  qed
  show "fs_stacks st' a = Some 1048576"
    if "new_Fiber (fiber_stack_size T :: (32 word, 's) ConfigVar) cb 0 st = (a, st')" for T a st'
    using that by (auto simp: new_Fiber_def Let_def fiber_log_def StackAllocator_Alloc_def fiber_stacksize_def
        fiber_stack_size_def new_ConfigVar_def getValue_def)
  show "\<exists>i. GetFiberId t st = Inr i \<and> unat i = unat (m_id b) mod 2 ^ 32
      \<and> (unat (m_id b) = 2 ^ 32 \<longrightarrow> (\<forall>u. t_fiber st u = None \<longrightarrow> GetFiberId u st = GetFiberId t st))"
    if "t_fiber st t = Some f" "fs_fibers st f = Some b" for t f b
  proof -
    have "(ucast (m_id b) :: 32 word) = 0" if "unat (m_id b) = 2 ^ 32"
      using unat_low [of "m_id b"] that by (simp add: unat_eq_0)
    with that unat_low [of "m_id b"] show ?thesis by (simp add: GetFiberId_def Fiber_GetFiberId_def)
  qed
qed

section \<open>Instances\<close>

text \<open>
  The program of \<open>tests/test_fiber.cc\<close> with thread 0: a fiber that yields twice, swapped in twice
  (or, in the second program, three times). The states are those in front of the first \<open>swapIn\<close>.
\<close>

definition word_type :: "32 word type_ops" where
  "word_type = \<lparr>t_name = ''j'', t_from = (\<lambda>s. Inl (Std_exception ''bad cast'')),
     t_to = (\<lambda>n. Inr (dec_nat (unat n)))\<rparr>"

definition default_size :: "(32 word, unit) ConfigVar" where
  "default_size = fiber_stack_size word_type"

definition run_in_fiber :: script where
  "run_in_fiber = [Yield_to_hold, Yield_to_hold]"

definition test_main :: "nat \<Rightarrow> script" where
  "test_main n = [Get_this, Create run_in_fiber 0] @ replicate n (Swap_in 2) @ [Release 2]"

definition main_body :: "ucontext \<Rightarrow> Fiber" where
  "main_body c = \<lparr>m_id = 0, m_stacksize = 0, m_state = EXEC, m_ctx = c, m_stack = None, m_cb = None,
     use_count = 1\<rparr>"

definition fiber_body :: "nat \<Rightarrow> 64 word \<Rightarrow> script \<Rightarrow> Fiber" where
  "fiber_body a i s = \<lparr>m_id = i, m_stacksize = 1048576, m_state = INIT, m_ctx = Entry,
     m_stack = Some a, m_cb = Some s, use_count = 1\<rparr>"

definition before_swaps :: "nat \<Rightarrow> fiber_state" where
  "before_swaps n =
     \<lparr>fs_fibers = [1 \<mapsto> main_body Captured, 2 \<mapsto> fiber_body 2 1 run_in_fiber], fs_next = 3,
      fs_stacks = [2 \<mapsto> 1048576], s_fiber_id = 1, s_fiber_count = 2,
      t_fiber = (\<lambda>_. None)(0 \<mapsto> 1), t_threadFiber = (\<lambda>_. None)(0 \<mapsto> 1),
      fs_flow = (\<lambda>t. Thread_main (test_main n))(0 := Thread_main (replicate n (Swap_in 2) @ [Release 2])),
      fs_log = [(INFO, ''Fiber::Fiber''), (INFO, ''Fiber::Fiber id1'')]\<rparr>"

lemma default_size_value: "getValue default_size = 1048576"
  by (simp add: default_size_def fiber_stack_size_def new_ConfigVar_def getValue_def)

lemma dec_one: "dec_nat 1 = ''1''"
  by code_simp

lemma before_swaps_reachable: "fiber_reachable default_size (\<lambda>_. test_main n) (before_swaps n)"
proof -
  have "\<exists>st1. fiber_exec default_size 0 (fiber_start (\<lambda>_. test_main n)) = Inr st1
      \<and> fiber_exec default_size 0 st1 = Inr (before_swaps n)"
    by (simp add: switch_defs test_main_def fiber_start_def new_main_Fiber_def new_Fiber_def
        fiber_log_def StackAllocator_Alloc_def default_size_value fiber_stacksize_def
        before_swaps_def main_body_def fiber_body_def dec_one del: One_nat_def) simp
  then show ?thesis by (blast intro: fiber_reachable.intros)
qed

lemma before_swaps_outside:
  "outside 0 1 (Thread_main (replicate n (Swap_in 2) @ [Release 2])) 2 run_in_fiber (before_swaps n)"
  by (simp add: outside_def pending_def before_swaps_def main_body_def fiber_body_def)

theorem fibers_accounted_witness:
  "TotalFibers (before_swaps 2) = of_nat (card (dom (fs_fibers (before_swaps 2))))"
  using fibers_accounted [OF before_swaps_reachable] by blast

text \<open>Two fibers that thread 0 swaps in by turns.\<close>

definition two_fibers :: fiber_state where
  "two_fibers =
     \<lparr>fs_fibers = [1 \<mapsto> main_body Captured, 2 \<mapsto> fiber_body 2 1 run_in_fiber,
        3 \<mapsto> fiber_body 3 2 [Yield_to_ready, Throw (Std_exception ''end'')]],
      fs_next = 4, fs_stacks = [2 \<mapsto> 1048576, 3 \<mapsto> 1048576], s_fiber_id = 2, s_fiber_count = 3,
      t_fiber = (\<lambda>_. None)(0 \<mapsto> 1), t_threadFiber = (\<lambda>_. None)(0 \<mapsto> 1),
      fs_flow = (\<lambda>_. Ended)(0 := Thread_main (map Swap_in [2, 3, 2] @ [Release 3])), fs_log = []\<rparr>"

definition two_rest :: "nat \<Rightarrow> script" where
  "two_rest f = (if f = 2 then run_in_fiber
     else if f = 3 then [Yield_to_ready, Throw (Std_exception ''end'')] else [])"

lemma two_fibers_outside:
  "\<forall>f \<in> {2, 3}. outside 0 1 (Thread_main (map Swap_in [2, 3, 2] @ [Release 3])) f (two_rest f) two_fibers"
  by (simp add: outside_def pending_def two_fibers_def two_rest_def main_body_def fiber_body_def)

lemma two_fibers_scheduled: "scheduled [2, 3, 2] two_rest {2, 3}"
  by (simp add: scheduled_def two_rest_def run_in_fiber_def)

theorem fiber_schedule_returns_witness:
  "\<exists>n st'. n \<le> 9 \<and> fiber_run default_size n 0 two_fibers = Inr st'
     \<and> fs_flow st' 0 = Thread_main [Release 3] \<and> map_option m_state (fs_fibers st' 2) = Some HOLD
     \<and> map_option m_state (fs_fibers st' 3) = Some READY \<and> t_fiber st' 0 = Some 1"
  using fiber_schedule_returns [OF two_fibers_outside two_fibers_scheduled, of default_size]
  by (auto simp: state_after_def two_rest_def run_in_fiber_def outside_def)

theorem callback_end_ends_thread_witness:
  "\<exists>n st'. n \<le> 9 \<and> fiber_run default_size n 0 (before_swaps 3) = Inr st' \<and> fs_flow st' 0 = Ended"
proof -
  have "outside 0 1 (Thread_main (replicate (Suc (length [Yield_to_hold, Yield_to_hold])) (Swap_in 2)
      @ [Release 2])) 2 [Yield_to_hold, Yield_to_hold] (before_swaps 3)"
    using before_swaps_outside [of 3] by (simp add: run_in_fiber_def numeral_3_eq_3)
  from callback_end_ends_thread [OF before_swaps_reachable this] show ?thesis by auto
qed

text \<open>Thread 0 inside fiber 2, with another fiber 3 waiting; its next call varies.\<close>

definition inside_state :: "script \<Rightarrow> fiber_state" where
  "inside_state s =
     \<lparr>fs_fibers = [1 \<mapsto> main_body (Saved (Thread_main [Release 2])),
        2 \<mapsto> (fiber_body 2 1 s)\<lparr>m_state := EXEC, use_count := 2\<rparr>,
        3 \<mapsto> fiber_body 3 2 [Yield_to_ready]],
      fs_next = 4, fs_stacks = [2 \<mapsto> 1048576, 3 \<mapsto> 1048576], s_fiber_id = 2, s_fiber_count = 3,
      t_fiber = (\<lambda>_. None)(0 \<mapsto> 2), t_threadFiber = (\<lambda>_. None)(0 \<mapsto> 1),
      fs_flow = (\<lambda>_. Ended)(0 := Fiber_main 2 s), fs_log = []\<rparr>"

lemma inside_state_in: "in_fiber 0 1 (Thread_main [Release 2]) 2 s (inside_state s)"
  by (simp add: in_fiber_def inside_state_def main_body_def fiber_body_def)

theorem nested_swapIn_loses_main_witness:
  "\<exists>n st' st''. n \<le> 3
     \<and> fiber_run default_size n 0 (inside_state [Swap_in 3, Yield_to_hold]) = Inr st'
     \<and> t_fiber st' 0 = Some 1 \<and> fs_flow st' 0 = Fiber_main 2 [Yield_to_hold]
     \<and> fiber_exec default_size 0 st' = Inr st'' \<and> fs_flow st'' 0 = Fiber_main 2 [Release 1]"
proof -
  let ?st = "inside_state [Swap_in 3, Yield_to_hold]"
  have body: "fs_fibers ?st 3 = Some (fiber_body 3 2 [Yield_to_ready])" by (simp add: inside_state_def)
  have pend: "pending 3 (fiber_body 3 2 [Yield_to_ready]) (Yield_to_ready # [])"
    by (simp add: pending_def fiber_body_def)
  have other: "(3 :: nat) \<noteq> 2" "(3 :: nat) \<noteq> 1" and ready: "yield_state Yield_to_ready = Some READY"
    by simp_all
  obtain n st' where h: "n \<le> 3" "fiber_run default_size n 0 ?st = Inr st'"
    "fs_flow st' 0 = Fiber_main 2 [Yield_to_hold]" "t_fiber st' 0 = Some 1"
    and again: "\<forall>z p u. [Yield_to_hold] = z # u \<longrightarrow> yield_state z = Some p \<longrightarrow>
       (\<exists>st''. fiber_exec default_size 0 st' = Inr st'' \<and> fs_flow st'' 0 = Fiber_main 2 (Release 1 # u)
          \<and> map_option m_state (fs_fibers st'' 1) = Some p
          \<and> map_option m_state (fs_fibers st'' 2) = Some EXEC)"
    using nested_swapIn_loses_main [OF inside_state_in other body pend ready, of default_size] by blast
  from again [rule_format, of Yield_to_hold "[]" HOLD] h show ?thesis by auto
qed

lemma plain_swapOut_strands_witness:
  "\<exists>st'. fiber_exec default_size 0 (inside_state [Swap_out 2]) = Inr st'
     \<and> fs_flow st' 0 = Thread_main [Release 2] \<and> Fiber_swapIn 0 2 st' = Inl Assert_failed"
  using plain_swapOut_strands [OF inside_state_in] by blast

theorem stack_size_and_id_bounds_witness:
  "fs_stacks (snd (new_Fiber default_size run_in_fiber 4294967296 (fiber_start (\<lambda>_. [])))) 1 = Some 0"
proof -
  have n: "(4294967296 :: 64 word) \<noteq> 0" "unat (4294967296 :: 64 word) mod 2 ^ 32 = 0" by simp_all
  obtain st' where new: "new_Fiber default_size run_in_fiber 4294967296 (fiber_start (\<lambda>_. [])) = (1, st')"
    by (simp add: new_Fiber_def fiber_start_def Let_def)
  from stack_size_and_id_bounds [THEN conjunct2, THEN conjunct1, rule_format, OF n new]
  have "fs_stacks st' 1 = Some 0" .
  with new show ?thesis by simp
qed

end
