(* ===== verification/Spec2Isabelle.thy ===== *)
theory Spec2Isabelle
  imports Concurrent_Lines Config_Logging Assertions Lexical_Cast Config_Threads Thread_Laws Fiber_Laws
begin

text \<open>
  A verification development of the chord server library (\<open>src/chord\<close>): logging, configuration,
  threads with their locks, and fibers.

  The parts and how they interact. A program logs through \<open>Logger\<close> objects it gets from the one
  \<open>LoggerManager\<close>; a logger passes an event to its appenders, or to the root logger when it has
  none; an appender turns the event into text with a \<open>LogFormatter\<close>, which a pattern string
  describes. \<open>Config\<close> is a registry of named, typed \<open>ConfigVar\<close> variables with listeners; a YAML
  document sets them. The variable "logs" holds the definitions of the loggers, and its listener
  reconfigures the manager when the variable changes. \<open>Thread\<close> wraps a pthread and hands over
  through a \<open>Semaphore\<close>; the lock classes guard variables and loggers. \<open>Fiber\<close> switches machine
  contexts inside a thread; its default stack size is a configuration variable. A failed assertion
  logs to the root logger before it ends the process.

  Theories, in the order they build on each other, with the code each models.

  \<^item> \<open>Chord_Prelude\<close>: how a C++ call can end (return, exception, crash), loops whose body can fail,
    the pieces of the C and C++ standard library the sources use, \<open>std::map\<close> and \<open>std::set\<close>.
  \<^item> \<open>Log_Level\<close>, \<open>Log_Formatter\<close>, \<open>Format_Pattern\<close>: \<open>LogLevel\<close>, \<open>LogEvent\<close>, the format items and
    \<open>LogFormatter\<close> (\<open>log.h\<close>; \<open>logger.cpp\<close> 14-247 and 471-630). \<open>init_loop\<close> and \<open>scan_directive\<close> keep
    the code's indices and status variable; \<open>Format_Pattern\<close> has the grammar of patterns, the proof
    that the loop computes it, and the round trip of printed patterns.
  \<^item> \<open>Log_Appender\<close>: the two appenders with their streams (\<open>logger.cpp\<close> 388-470).
  \<^item> \<open>Logger_Store\<close>, \<open>Logger_Laws\<close>, \<open>Registry\<close>, \<open>Logger_Manager\<close>: loggers and appenders in a store of
    addresses (one appender may hang in several loggers), the manager's map, the logging macros
    (\<open>logger.cpp\<close> 216-386, 632-653; \<open>config.h\<close> 22-47); the invariant of the store, that every log
    call returns, what it prints, and that everything reachable through the public operations
    keeps the invariant. \<open>Logger_log\<close> is a partial function, \<open>None\<close> when the chain of roots does not
    end; on the invariant it is proved to return.
  \<^item> \<open>Yaml_Node\<close>: the documented data model of yaml-cpp; what the library computes is a parameter.
  \<^item> \<open>Config_Var\<close>, \<open>Config_Registry\<close>: \<open>ConfigVar\<close> and \<open>Config\<close> (\<open>config.h\<close> 311-484, \<open>config.cpp\<close>).
  \<^item> \<open>Lexical_Cast\<close>: the conversions of containers from and to YAML text (\<open>config.h\<close> 79-305), with
    the contract of an element conversion as a locale and nested containers as its iteration.
  \<^item> \<open>Log_Config\<close>, \<open>Log_Config_Laws\<close>, \<open>Log_Dump\<close>: the definitions of loggers, their YAML forms, the
    listener that applies them (\<open>logger.cpp\<close> 655-886), and the dump of the loggers in the same
    layout (366-386, 887-898).
  \<^item> \<open>Config_Logging\<close>: the two together. The host of the registry is the logger manager: loading a
    YAML document with the node "logs" configures the loggers through the variable and its listener.
  \<^item> \<open>Locks\<close>: guards, pthread wrappers, the spin lock on an atomic flag (\<open>thread.h\<close> 22-277). The
    contracts of locks are a chain of locales, each interpreted on the locks that satisfy it.
  \<^item> \<open>Lock_Programs\<close>: programs that take and give back spin locks, threads that execute them in every
    interleaving, and a locale for their proofs: with a rank of the locks (each is taken above
    those held), an invariant, and for each lock what nobody else changes while it is held, no
    thread crashes, none waits for ever, and every run ends.
  \<^item> \<open>Log_Threads\<close>, \<open>Log_Threads_Laws\<close>: every logging operation of \<open>logger.cpp\<close> as such a program with
    the lock scopes of the code, and the proof that a thread alone computes what the sequential
    operations compute.
  \<^item> \<open>Log_Lock_Order\<close>, \<open>Concurrent_Logging\<close>, \<open>Concurrent_Lines\<close>: the order manager, logger, root,
    appender, in which the code takes the locks, what each lock protects, and with them the
    properties of threads that log, reconfigure and dump: they come to an end, keep the manager's
    invariant, write under the locks, and print whole lines, because the lock of an appender is
    held while \<open>std::cout\<close> takes the characters of its text one by one. Two appenders have two locks:
    their lines can mix. What these theorems ask of a call is \<open>call_ok\<close>: its pointers lead to
    objects, formatters are not null, events carry a logger, and a new configuration is one the
    listener survives (unchanged definitions and unknown appender types crash it).
  \<^item> \<open>Config_Threads\<close>: \<open>setValue\<close> called by several threads, with its two lock scopes.
  \<^item> \<open>Threads\<close>, \<open>Thread_Laws\<close>: \<open>Semaphore\<close> and \<open>Thread\<close> (\<open>thread.cpp\<close>; \<open>thread.h\<close> 211-223, 279-303)
    with every interleaving of constructors, new threads, \<open>join\<close> and destructors, waits that are
    interrupted and throw included (\<open>ts_thrown\<close> records their objects); the invariant that
    links an object to its system thread gives the handshake, its completion in at most three
    steps, and the behaviour of \<open>join\<close> and the destructor.
  \<^item> \<open>Fiber\<close>, \<open>Fiber_Laws\<close>: \<open>fiber.cpp\<close>, \<open>fiber.h\<close> and \<open>GetFiberId\<close> of \<open>util.cpp\<close>. What a thread has
    still to execute is a value (a list of calls, and whether it runs in its own main function or
    in a fiber's callback), which \<open>swap_context\<close> stores and restores. The laws are the accounting
    of objects, stacks, counters and ids in every interleaving, the round trip of \<open>swapIn\<close> and a
    yield, any schedule of several fibers, and what the end of a callback, nested switches and
    \<open>swapOut\<close> lead to.
  \<^item> \<open>Backtrace\<close>: the loops of \<open>Backtrace\<close> and \<open>BacktraceToString\<close> (\<open>util.cpp\<close> 23-52).
  \<^item> \<open>Assertions\<close>: the macros of \<open>marco.h\<close>, whose condition is a computation that is run for the test
    and again inside \<open>assert\<close>, and \<open>Singleton\<close> with the macros that reach the manager
    through it.

  State and errors. A C++ object is a record, an object reached through a pointer an address in a
  store; addresses are never reused, so a use of a destroyed object is the crash \<open>Dangling\<close>. An
  exception is a value of type \<open>exn\<close>, the end of the process one of type \<open>crash\<close>. Counters and ids
  are words of their width. A call that waits is \<open>None\<close>.

  Parameters. yaml-cpp (\<open>yaml_lib\<close>), \<open>boost::lexical_cast\<close>, \<open>strftime\<close>, \<open>vasprintf\<close>, the clock,
  \<open>backtrace\<close>, the iteration order of hash maps and the contents of indeterminate members are
  arguments. What theorems assume of yaml-cpp is named: \<open>yaml_access\<close> (indexing, lookup, reading a
  scalar, iterating) and \<open>yaml_reload\<close> (a given document is read back as it was written). The
  pthread locks, the semaphore calls and the context calls are modelled by their documented
  effect; \<open>getcontext\<close>, \<open>swapcontext\<close> and \<open>malloc\<close> succeed.

  Bounds. No fuel is used where the code's loops end: they are structural or have a measure.
  \<open>fiber_run\<close> counts steps, and its theorems say how many suffice (three per switch). \<open>Logger_log_prog\<close>
  has the fuel \<open>log_fuel\<close>, which is two: a logger without appenders calls its root, and a root has no
  root, so the chain has at most two loggers; that the fuel never runs out is part of the theorems
  of \<open>Concurrent_Logging\<close>, where running out would be a crash. Listener keys
  are fresh as long as the 64-bit counter has not wrapped, ids as long as fewer than \<open>2 ^ 64\<close> fibers
  were made.

  Not modelled. \<open>GetThreadId\<close> (one system call) and \<open>SingletonPtr\<close> (not used by the program). A section
  under a lock is one step of a thread, and so is each access outside the locks (levels and
  \<open>m_lastTime\<close>), which the language leaves undefined when two threads race; the text of an event goes
  to \<open>std::cout\<close> in one step per character, the messages of the library about errors in one step. A
  listener of a configuration variable acts on the rest of the program (the loggers, for "logs"),
  not on the variable that calls it or on other variables. Memory orders weaker than sequential consistency; two
  threads switching to one fiber at once between the test of its state and its change; the locks
  of the configuration registry, whose operations are single steps; tests and build files.
\<close>

end
